(* ===== verification/Warrant_Prelude.thy ===== *)
theory Warrant_Prelude
  imports Complex_Main "HOL-Library.Sublist" "HOL-Library.List_Lexorder" "HOL-Library.Char_ord"
    "HOL-Library.AList" "HOL-Library.Word"
begin

section \<open>Prelude: the parts of Go the sources use, and the library's shared automation\<close>

text \<open>
  Shared by every component theory.

  \<^item> Go strings and byte slices are \<^typ>\<open>string\<close>, a list of 8-bit characters: Go's
    \<^verbatim>\<open>len\<close>, indexing and comparison of strings are on bytes, and so are these.
  \<^item> Go's 64-bit \<^verbatim>\<open>int\<close> is \<^typ>\<open>int\<close>, with the wrap-around of an addition or a
    multiplication written out (\<open>wrap64\<close>) wherever the operands come from a request.
  \<^item> \<^verbatim>\<open>float64\<close> is the datatype \<open>float64\<close>: a finite number, an infinity or NaN,
    with the comparisons of IEEE 754.
  \<^item> A Go map is an association list (\<open>gomap\<close>). Its order is the iteration order of
    the run at hand, which Go leaves open; theorems hold for every order.
  \<^item> \<^verbatim>\<open>time.Time\<close> is an \<^typ>\<open>int\<close>, nanoseconds since the Unix epoch.
\<close>

named_theorems go_simps \<open>evaluation rules for the Go standard library functions\<close>
named_theorems narrowing \<open>facts that an operation only takes authority away\<close>

subsection \<open>Options, lists and first errors\<close>

text \<open>A Go loop that returns the first non-nil error of its elements.\<close>

fun first_err :: "('a \<Rightarrow> 'e option) \<Rightarrow> 'a list \<Rightarrow> 'e option" where
  "first_err f [] = None"
| "first_err f (x # xs) = (case f x of Some e \<Rightarrow> Some e | None \<Rightarrow> first_err f xs)"

lemma first_err_None [simp]: "first_err f xs = None \<longleftrightarrow> (\<forall>x \<in> set xs. f x = None)"
  by (induction xs) (auto split: option.splits)

lemma first_err_Some:
  "first_err f xs = Some e \<Longrightarrow> \<exists>x \<in> set xs. f x = Some e"
  by (induction xs) (auto split: option.splits)

text \<open>The helper \<^verbatim>\<open>contains\<close> of \<^verbatim>\<open>scope.go\<close> and \<^verbatim>\<open>http.go\<close>: a linear search.\<close>

fun contains :: "'a list \<Rightarrow> 'a \<Rightarrow> bool" where
  "contains [] s = False"
| "contains (x # xs) s = (if x = s then True else contains xs s)"

lemma contains_iff [simp]: "contains xs s \<longleftrightarrow> s \<in> set xs"
  by (induction xs) auto

lemma sort_eq_Nil [simp]: "sort xs = [] \<longleftrightarrow> xs = []"
  by (metis length_0_conv length_sort)

subsection \<open>Strings: the functions of package strings\<close>

definition has_prefix :: "string \<Rightarrow> string \<Rightarrow> bool" where
  "has_prefix s p \<longleftrightarrow> take (length p) s = p"

definition has_suffix :: "string \<Rightarrow> string \<Rightarrow> bool" where
  "has_suffix s p \<longleftrightarrow> length p \<le> length s \<and> drop (length s - length p) s = p"

definition trim_prefix :: "string \<Rightarrow> string \<Rightarrow> string" where
  "trim_prefix s p = (if has_prefix s p then drop (length p) s else s)"

definition trim_suffix :: "string \<Rightarrow> string \<Rightarrow> string" where
  "trim_suffix s p = (if has_suffix s p then take (length s - length p) s else s)"

fun contains_str :: "string \<Rightarrow> string \<Rightarrow> bool" where
  "contains_str [] sub = has_prefix [] sub"
| "contains_str (c # s) sub = (has_prefix (c # s) sub \<or> contains_str s sub)"

definition contains_any :: "string \<Rightarrow> string \<Rightarrow> bool" where
  "contains_any s chars \<longleftrightarrow> list_ex (\<lambda>c. c \<in> set chars) s"

text \<open>\<^verbatim>\<open>strings.Index(s, c)\<close> for a one-byte needle, and \<^verbatim>\<open>strings.IndexByte\<close>: -1 when absent.\<close>

fun index_byte :: "string \<Rightarrow> char \<Rightarrow> int" where
  "index_byte [] c = -1"
| "index_byte (x # s) c =
     (if x = c then 0 else let i = index_byte s c in if i < 0 then -1 else i + 1)"

text \<open>\<^verbatim>\<open>strings.Split\<close> with a one-byte separator.\<close>

fun split_byte :: "string \<Rightarrow> char \<Rightarrow> string list" where
  "split_byte [] c = [[]]"
| "split_byte (x # s) c =
     (if x = c then [] # split_byte s c
      else (case split_byte s c of [] \<Rightarrow> [[x]] | y # ys \<Rightarrow> (x # y) # ys))"

text \<open>
  \<^verbatim>\<open>strings.ToLower\<close> on its ASCII bytes. The sources use it only to look for the
  sequences \<^verbatim>\<open>%2e\<close>, \<^verbatim>\<open>%2f\<close>, \<^verbatim>\<open>%5c\<close> and \<^verbatim>\<open>%00\<close>: a character outside ASCII lowers to
  characters outside ASCII or to \<^verbatim>\<open>k\<close> or \<^verbatim>\<open>i\<close>, never to one of these, so the search has the
  same answer on this function's result.
\<close>

definition lower_char :: "char \<Rightarrow> char" where
  "lower_char c = (let n = (of_char c :: nat) in if 65 \<le> n \<and> n \<le> 90 then char_of (n + 32) else c)"

definition to_lower :: "string \<Rightarrow> string" where
  "to_lower s = map lower_char s"

text \<open>
  \<^verbatim>\<open>strings.TrimSpace\<close> and \<^verbatim>\<open>bytes.TrimSpace\<close> on the ASCII white space (tab, line feed, vertical
  tab, form feed, carriage return, space).
\<close>

definition is_space :: "char \<Rightarrow> bool" where
  "is_space c \<longleftrightarrow> (of_char c :: nat) \<in> {9, 10, 11, 12, 13, 32}"

definition trim_space :: "string \<Rightarrow> string" where
  "trim_space s = rev (dropWhile is_space (rev (dropWhile is_space s)))"

lemma has_prefix_iff [simp]: "has_prefix s p \<longleftrightarrow> prefix p s"
  by (auto simp: has_prefix_def prefix_def) (metis append_take_drop_id)

lemma has_suffix_iff: "has_suffix s p \<longleftrightarrow> suffix p s"
proof
  assume "has_suffix s p"
  then show "suffix p s"
    unfolding has_suffix_def suffix_def by (metis append_take_drop_id)
next
  assume "suffix p s"
  then show "has_suffix s p"
    by (auto simp: has_suffix_def suffix_def)
qed

lemma contains_str_iff: "contains_str s sub \<longleftrightarrow> sublist sub s"
  by (induction s) (auto simp: sublist_Cons_right)

lemma trim_suffix_append [simp]: "trim_suffix (s @ p) p = s"
  by (auto simp: trim_suffix_def has_suffix_def)

lemma trim_suffix_id: "\<not> has_suffix s p \<Longrightarrow> trim_suffix s p = s"
  by (simp add: trim_suffix_def)

lemma trim_prefix_append [simp]: "trim_prefix (p @ s) p = s"
  by (simp add: trim_prefix_def)

lemma index_byte_ge: "-1 \<le> index_byte s c"
  by (induction s) (auto simp: Let_def)

lemma index_byte_neg [simp]: "index_byte s c < 0 \<longleftrightarrow> c \<notin> set s"
  by (induction s) (auto simp: Let_def)

lemma index_byte_append:
  "c \<notin> set s \<Longrightarrow> index_byte (s @ c # t) c = int (length s)"
  by (induction s) (auto simp: Let_def)

lemma index_byte_split:
  "c \<in> set s \<Longrightarrow> s = take (nat (index_byte s c)) s @ c # drop (Suc (nat (index_byte s c))) s
     \<and> c \<notin> set (take (nat (index_byte s c)) s)"
proof (induction s)
  case (Cons x s)
  show ?case
  proof (cases "x = c")
    case False
    with Cons have "0 \<le> index_byte s c" by (simp add: linorder_not_less [symmetric])
    with False Cons show ?thesis by (auto simp: Let_def nat_add_distrib)
  qed simp
qed simp

lemma split_byte_not_Nil [simp]: "split_byte s c \<noteq> []"
  by (induction s) (auto split: list.splits)

lemma split_byte_append:
  "c \<notin> set s \<Longrightarrow> split_byte (s @ c # t) c = s # split_byte t c"
  by (induction s) auto

lemma split_byte_none: "c \<notin> set s \<Longrightarrow> split_byte s c = [s]"
  by (induction s) auto

subsection \<open>Integers of 64 bits\<close>

definition wrap64 :: "int \<Rightarrow> int" where
  "wrap64 x = (x + 2 ^ 63) mod 2 ^ 64 - 2 ^ 63"

definition in_int64 :: "int \<Rightarrow> bool" where
  "in_int64 x \<longleftrightarrow> - (2 ^ 63) \<le> x \<and> x < 2 ^ 63"

lemma wrap64_id: "in_int64 x \<Longrightarrow> wrap64 x = x"
  by (auto simp: wrap64_def in_int64_def)

lemma wrap64_bounds: "in_int64 (wrap64 x)"
  by (simp add: wrap64_def in_int64_def)

text \<open>\<open>wrap64\<close> is the two's complement reading of the 64-bit word.\<close>

lemma wrap64_word: "wrap64 x = sint (word_of_int x :: 64 word)"
  by (simp add: wrap64_def sint_uint uint_word_of_int signed_take_bit_eq_take_bit_shift take_bit_eq_mod mod_simps)

subsection \<open>Floating-point numbers\<close>

text \<open>
  A finite \<^verbatim>\<open>float64\<close> is a rational number. Only comparisons of floats and the conversion of
  an integer occur in the sources.
\<close>

datatype float64 = Fin rat | PosInf | NegInf | NaN

instantiation float64 :: ord
begin

fun less_float64 :: "float64 \<Rightarrow> float64 \<Rightarrow> bool" where
  "less_float64 (Fin a) (Fin b) = (a < b)"
| "less_float64 (Fin _) PosInf = True"
| "less_float64 NegInf (Fin _) = True"
| "less_float64 NegInf PosInf = True"
| "less_float64 _ _ = False"

definition less_eq_float64 :: "float64 \<Rightarrow> float64 \<Rightarrow> bool" where
  "less_eq_float64 a b \<longleftrightarrow> a < b \<or> (a = b \<and> a \<noteq> NaN)"

instance ..

end

lemma float64_not_less:
  "a \<noteq> NaN \<Longrightarrow> b \<noteq> NaN \<Longrightarrow> \<not> a < b \<longleftrightarrow> b \<le> (a :: float64)"
  by (cases a; cases b) (auto simp: less_eq_float64_def)

lemma float64_le_trans: "a \<le> b \<Longrightarrow> b \<le> c \<Longrightarrow> a \<le> (c :: float64)"
  by (cases a; cases b; cases c) (auto simp: less_eq_float64_def)

lemma float64_less_le_trans: "a < b \<Longrightarrow> b \<le> c \<Longrightarrow> a < (c :: float64)"
  by (cases a; cases b; cases c) (auto simp: less_eq_float64_def)

lemma float64_le_less_trans: "a \<le> b \<Longrightarrow> b < c \<Longrightarrow> a < (c :: float64)"
  by (cases a; cases b; cases c) (auto simp: less_eq_float64_def)

lemma float64_le_refl [simp]: "a \<le> a \<longleftrightarrow> a \<noteq> (NaN :: float64)"
  by (auto simp: less_eq_float64_def elim: less_float64.elims)

lemma float64_NaN_cmp [simp]:
  "\<not> (NaN < a)" "\<not> (a < NaN)" "\<not> (NaN \<le> a)" "\<not> (a \<le> NaN)"
  by (cases a; simp add: less_eq_float64_def)+

text \<open>
  \<^verbatim>\<open>float64(i)\<close> of an \<^verbatim>\<open>int\<close>: round to nearest, ties to even, on 53 significant bits. For a
  64-bit integer at most 11 bits are rounded away.
\<close>

definition round53 :: "int \<Rightarrow> int" where
  "round53 m =
     (let k = length (takeWhile (\<lambda>k. 2 ^ (53 + k) \<le> m) [0..<11]);
          s = 2 ^ k; q = m div s; r = m mod s
      in if s < 2 * r \<or> (2 * r = s \<and> odd q) then (q + 1) * s else q * s)"

definition float64_of_int :: "int \<Rightarrow> float64" where
  "float64_of_int i = Fin (of_int (if i < 0 then - round53 (- i) else round53 i))"

lemma round53_exact: "0 \<le> m \<Longrightarrow> m < 2 ^ 53 \<Longrightarrow> round53 m = m"
  by (simp add: round53_def takeWhile_eq_Nil_iff upt_rec)

lemma float64_of_int_finite [simp]: "float64_of_int i \<noteq> NaN"
  by (simp add: float64_of_int_def)

subsection \<open>Maps\<close>

type_synonym 'v gomap = "(string \<times> 'v) list"

abbreviation (input) lookup :: "'v gomap \<Rightarrow> string \<Rightarrow> 'v option" where
  "lookup m k \<equiv> map_of m k"

text \<open>A map value has one entry for each key.\<close>

definition wf_map :: "'v gomap \<Rightarrow> bool" where
  "wf_map m \<longleftrightarrow> distinct (map fst m)"

lemma wf_map_update: "wf_map m \<Longrightarrow> wf_map (AList.update k v m)"
  by (simp add: wf_map_def distinct_update)

text \<open>
  Overwriting one entry of a map under a loop over all entries: the loop's condition after the
  update is its condition before, and the new part.
\<close>

lemma list_all_update_Some:
  assumes "map_of m k = Some p" and "P (k, v) \<longleftrightarrow> P (k, p) \<and> Q"
  shows "list_all P (AList.update k v m) \<longleftrightarrow> list_all P m \<and> Q"
  using assms by (induction m) (auto split: if_splits)

lemma list_all_update_None:
  "map_of m k = None \<Longrightarrow> list_all P (AList.update k v m) \<longleftrightarrow> list_all P m \<and> P (k, v)"
  by (induction m) (auto split: if_splits)

subsection \<open>Time\<close>

type_synonym time = int
type_synonym duration = int

definition second :: duration where "second = 10 ^ 9"

definition minute :: duration where "minute = 60 * second"

text \<open>\<^verbatim>\<open>Time.Unix()\<close> and \<^verbatim>\<open>time.Unix(sec, 0)\<close>; the zero \<^verbatim>\<open>Time\<close> is the start of the year 1.\<close>

definition unix :: "time \<Rightarrow> int" where
  "unix t = t div second"

definition time_unix :: "int \<Rightarrow> time" where
  "time_unix s = s * second"

definition zero_time :: time where
  "zero_time = time_unix (-62135596800)"

text \<open>\<^verbatim>\<open>Time.UTC().Hour()\<close>.\<close>

definition hour_utc :: "time \<Rightarrow> int" where
  "hour_utc t = (unix t div 3600) mod 24"

lemma unix_time_unix [simp]: "unix (time_unix s) = s"
  by (simp add: unix_def time_unix_def second_def)

lemma unix_mono: "a \<le> b \<Longrightarrow> unix a \<le> unix b"
  by (simp add: unix_def second_def zdiv_mono1)

lemma unix_le_time_unix: "t \<le> time_unix s \<Longrightarrow> unix t \<le> s"
  using unix_mono [of t "time_unix s"] by simp

lemma time_unix_le: "unix t < s \<Longrightarrow> t < time_unix s"
  by (metis linorder_not_less unix_mono unix_time_unix)

lemma hour_utc_range: "0 \<le> hour_utc t \<and> hour_utc t < 24"
  by (simp add: hour_utc_def)

end
