(* ===== verification/Token_Pattern.thy ===== *)
theory Token_Pattern
  imports Warrant_Prelude
begin

section \<open>Patterns (\<^verbatim>\<open>internal/token/scope.go\<close>, lines 11 to 81)\<close>

text \<open>
  A pattern is a literal or a prefix with one trailing star. The model has one definition per
  function of the source: \<open>validate_pattern\<close>, \<open>is_wild\<close>, \<open>pat_prefix\<close>, \<open>match_pat\<close>,
  \<open>escapes_prefix\<close>, \<open>pattern_subset\<close> and \<open>pattern_intersect\<close>. The lemmas say what a pattern
  denotes (the strings it matches) and how the two decision procedures relate to that: they are
  exact on subjects without a traversal, and a literal with a traversal is the one case where
  \<open>pattern_subset\<close> accepts a child that its parent does not contain.
\<close>

datatype pattern_err = EmptyPattern | StarNotTrailing string

subsection \<open>The functions\<close>

definition validate_pattern :: "string \<Rightarrow> pattern_err option" where
  "validate_pattern p =
     (if p = [] then Some EmptyPattern
      else let i = index_byte p (CHR ''*'') in
        if 0 \<le> i \<and> i \<noteq> int (length p) - 1 then Some (StarNotTrailing p) else None)"

definition is_wild :: "string \<Rightarrow> bool" where
  "is_wild p = has_suffix p ''*''"

definition pat_prefix :: "string \<Rightarrow> string" where
  "pat_prefix p = trim_suffix p ''*''"

definition escapes_prefix :: "string \<Rightarrow> bool" where
  "escapes_prefix s =
     (if contains_any s [CHR 0x5C, CHR 0x00] then True
      else let l = to_lower s in
        if contains_str l ''%2e'' \<or> contains_str l ''%2f'' \<or> contains_str l ''%5c''
           \<or> contains_str l ''%00'' then True
        else list_ex (\<lambda>seg. seg = ''..'') (split_byte s (CHR ''/'')))"

definition match_pat :: "string \<Rightarrow> string \<Rightarrow> bool" where
  "match_pat p s =
     (if is_wild p then has_prefix s (pat_prefix p) \<and> \<not> escapes_prefix s else p = s)"

definition pattern_subset :: "string \<Rightarrow> string \<Rightarrow> bool" where
  "pattern_subset child parent =
     (if \<not> is_wild parent then \<not> is_wild child \<and> child = parent
      else has_prefix (pat_prefix child) (pat_prefix parent))"

definition pattern_intersect :: "string \<Rightarrow> string \<Rightarrow> string option" where
  "pattern_intersect a b =
     (if pattern_subset a b then Some a
      else if pattern_subset b a then Some b
      else None)"

subsection \<open>The shape of a pattern\<close>

lemma is_wild_append [simp]: "is_wild (q @ ''*'')"
  by (simp add: is_wild_def has_suffix_def)

lemma pat_prefix_append [simp]: "pat_prefix (q @ ''*'') = q"
  by (simp add: pat_prefix_def)

lemma pat_prefix_literal [simp]: "\<not> is_wild p \<Longrightarrow> pat_prefix p = p"
  by (simp add: is_wild_def pat_prefix_def trim_suffix_id)

lemma wild_decomp: "is_wild p \<Longrightarrow> p = pat_prefix p @ ''*''"
  unfolding is_wild_def has_suffix_iff suffix_def by auto

lemma wild_eqI: "is_wild p \<Longrightarrow> is_wild q \<Longrightarrow> pat_prefix p = pat_prefix q \<Longrightarrow> p = q"
  by (metis wild_decomp)

lemma pattern_cases [case_names literal wild]:
  obtains "\<not> is_wild p" | q where "p = q @ ''*''"
  using wild_decomp by blast

text \<open>The two valid forms: no star, or exactly the last byte.\<close>

lemma validate_pattern_None:
  "validate_pattern p = None \<longleftrightarrow> p \<noteq> [] \<and> CHR ''*'' \<notin> set (butlast p)"
proof (cases "CHR ''*'' \<in> set p")
  case True
  let ?i = "index_byte p (CHR ''*'')"
  from True have i: "0 \<le> ?i" by (simp add: linorder_not_less [symmetric])
  from index_byte_split [OF True] obtain u v where p: "p = u @ CHR ''*'' # v"
    and u: "CHR ''*'' \<notin> set u" by metis
  have "?i = int (length u)" using p u by (simp add: index_byte_append)
  then show ?thesis using p u
    by (auto simp: validate_pattern_def Let_def butlast_append)
next
  case False
  then have "\<not> 0 \<le> index_byte p (CHR ''*'')" by (simp add: linorder_not_le)
  with False show ?thesis
    by (auto simp: validate_pattern_def Let_def dest: in_set_butlastD)
qed

subsection \<open>What a pattern matches\<close>

lemma match_literal: "\<not> is_wild p \<Longrightarrow> match_pat p s \<longleftrightarrow> p = s"
  by (simp add: match_pat_def)

lemma match_wild: "is_wild p \<Longrightarrow> match_pat p s \<longleftrightarrow> prefix (pat_prefix p) s \<and> \<not> escapes_prefix s"
  by (simp add: match_pat_def)

text \<open>On a subject without a traversal a pattern is the set of its extensions, or itself.\<close>

lemma match_clean:
  "\<not> escapes_prefix s \<Longrightarrow>
     match_pat p s \<longleftrightarrow> (if is_wild p then prefix (pat_prefix p) s else p = s)"
  by (simp add: match_pat_def)

lemma match_prefix: "match_pat p s \<Longrightarrow> prefix (pat_prefix p) s"
  by (auto simp: match_pat_def split: if_splits)

lemma pattern_subset_prefix: "pattern_subset c p \<Longrightarrow> prefix (pat_prefix p) (pat_prefix c)"
  by (auto simp: pattern_subset_def split: if_splits)

lemma pattern_subset_refl [simp]: "pattern_subset p p"
  by (simp add: pattern_subset_def)

lemma pattern_subset_trans [trans]:
  "pattern_subset a b \<Longrightarrow> pattern_subset b c \<Longrightarrow> pattern_subset a c"
  by (auto simp: pattern_subset_def split: if_splits)

lemma pattern_subset_antisym:
  assumes "pattern_subset a b" and "pattern_subset b a" and "is_wild a \<longleftrightarrow> is_wild b"
  shows "a = b"
  using assms by (auto simp: pattern_subset_def split: if_splits intro: wild_eqI prefix_order.antisym)

text \<open>
  Soundness of the subset test, with its one exception spelled out: a literal child with a
  traversal, under a wildcard parent.
\<close>

lemma pattern_subset_match:
  "pattern_subset c p \<Longrightarrow> match_pat c s \<Longrightarrow> match_pat p s \<or> (c = s \<and> is_wild p \<and> escapes_prefix s)"
  by (auto simp: pattern_subset_def match_pat_def split: if_splits dest: prefix_order.trans)

lemma pattern_subset_sound [narrowing]:
  "pattern_subset c p \<Longrightarrow> \<not> escapes_prefix s \<Longrightarrow> match_pat c s \<Longrightarrow> match_pat p s"
  by (auto dest: pattern_subset_match)

text \<open>Completeness: a child all of whose matches the parent matches is a subset.\<close>

lemma pattern_subset_escape:
  assumes "\<not> is_wild c" and "is_wild p" and "escapes_prefix c" and "prefix (pat_prefix p) c"
  shows "pattern_subset c p" and "match_pat c c" and "\<not> match_pat p c"
  using assms by (simp_all add: pattern_subset_def match_pat_def)

subsection \<open>Intersection\<close>

lemma pattern_intersect_subset:
  "pattern_intersect a b = Some p \<Longrightarrow> pattern_subset p a \<and> pattern_subset p b"
  by (auto simp: pattern_intersect_def split: if_splits)

lemma pattern_intersect_cases:
  "pattern_intersect a b = Some p \<Longrightarrow> p = a \<or> p = b"
  by (auto simp: pattern_intersect_def split: if_splits)

lemma pattern_intersect_match:
  assumes "pattern_intersect a b = Some p" and "\<not> escapes_prefix s"
  shows "match_pat p s \<longleftrightarrow> match_pat a s \<and> match_pat b s"
  using assms pattern_intersect_subset [OF assms(1)] pattern_intersect_cases [OF assms(1)]
    pattern_subset_sound by blast

lemma pattern_intersect_None:
  assumes "pattern_intersect a b = None" and a: "match_pat a s" and b: "match_pat b s"
  shows False
proof -
  from assms(1) have n: "\<not> pattern_subset a b" "\<not> pattern_subset b a"
    by (auto simp: pattern_intersect_def split: if_splits)
  from a b have "prefix (pat_prefix a) s" "prefix (pat_prefix b) s"
    by (auto dest: match_prefix)
  then have "prefix (pat_prefix a) (pat_prefix b) \<or> prefix (pat_prefix b) (pat_prefix a)"
    using prefix_same_cases by blast
  with n a b show False
    by (cases "is_wild a"; cases "is_wild b")
      (auto simp: pattern_subset_def match_literal dest: match_prefix)
qed

text \<open>The intersection of an allowed pair never fails: a common match gives a result.\<close>

lemma pattern_intersect_Some:
  "match_pat a s \<Longrightarrow> match_pat b s \<Longrightarrow> \<exists>p. pattern_intersect a b = Some p"
  using pattern_intersect_None by (cases "pattern_intersect a b") auto

lemma pattern_intersect_nonempty:
  "pattern_intersect a b = Some p \<Longrightarrow> a \<noteq> [] \<Longrightarrow> b \<noteq> [] \<Longrightarrow> p \<noteq> []"
  by (auto dest: pattern_intersect_cases)

lemma pattern_intersect_match_both:
  "pattern_intersect a b = Some p \<Longrightarrow> match_pat a s \<Longrightarrow> match_pat b s \<Longrightarrow> match_pat p s"
  by (auto dest: pattern_intersect_cases)

text \<open>The result is a literal with a traversal, or is contained in both patterns exactly.\<close>

lemma pattern_intersect_match_result:
  assumes "pattern_intersect a b = Some p" and "match_pat p s"
  shows "(match_pat a s \<and> match_pat b s) \<or> (p = s \<and> escapes_prefix s)"
  using assms pattern_intersect_subset [OF assms(1)] pattern_subset_match by metis

lemma validate_pattern_intersect:
  "pattern_intersect a b = Some p \<Longrightarrow> validate_pattern a = None \<Longrightarrow> validate_pattern b = None
    \<Longrightarrow> validate_pattern p = None"
  by (auto dest: pattern_intersect_cases)

subsection \<open>Traversals\<close>

lemma escapes_prefix_iff:
  "escapes_prefix s \<longleftrightarrow>
     CHR 0x5C \<in> set s \<or> CHR 0x00 \<in> set s
     \<or> (\<exists>e \<in> {''%2e'', ''%2f'', ''%5c'', ''%00''}. sublist e (to_lower s))
     \<or> ''..'' \<in> set (split_byte s (CHR ''/''))"
  by (auto simp: escapes_prefix_def contains_any_def list_ex_iff contains_str_iff Let_def)


end
