(* ===== verification/Token_Scope.thy ===== *)
theory Token_Scope
  imports Token_Pattern
begin

section \<open>Scopes (\<^verbatim>\<open>internal/token/scope.go\<close>, lines 83 to 459)\<close>

text \<open>
  The records \<open>arg_constraint\<close>, \<open>scope\<close> and \<open>call\<close> are the structs of the source, and each
  operation of the file is one definition: \<open>validate_scope\<close>, \<open>allows_arg\<close>, \<open>scope_allows\<close>,
  \<open>arg_subset\<close>, \<open>scope_subset\<close>, \<open>intersect_arg\<close>, \<open>scope_intersect\<close>, \<open>attenuate\<close>,
  \<open>scopes_subset\<close> and \<open>first_match\<close>.

  A nil slice and an empty one differ for \<^verbatim>\<open>Enum\<close>, which the code tests against nil, so that
  field is an option. Argument values are Go's \<^verbatim>\<open>any\<close>: the JSON shapes, the \<^verbatim>\<open>int\<close> that an
  in-process caller may pass, and \<open>VOther\<close> for any other dynamic type.
\<close>

subsection \<open>Data\<close>

datatype any =
    VNull
  | VBool bool
  | VFloat float64
  | VInt int
  | VStr string
  | VArr "any list"
  | VObj "(string \<times> any) list"
  | VOther string

record arg_constraint =
  ac_Enum :: "string list option"
  ac_Pattern :: string
  ac_Min :: "float64 option"
  ac_Max :: "float64 option"
  ac_EnumSet :: bool

definition zero_constraint :: arg_constraint where
  "zero_constraint =
     \<lparr>ac_Enum = None, ac_Pattern = [], ac_Min = None, ac_Max = None, ac_EnumSet = False\<rparr>"

record scope =
  sc_Tool :: string
  sc_Resources :: "string list"
  sc_Args :: "arg_constraint gomap"
  sc_MaxCalls :: int
  sc_RequireApproval :: bool

record call =
  cl_Tool :: string
  cl_Resource :: string
  cl_Args :: "any gomap"

datatype scope_err = BadPattern pattern_err | NoResources | MaxCallsNotPositive

text \<open>\<open>has_enum\<close> is the source's test \<^verbatim>\<open>c.Enum != nil || c.EnumSet\<close>; a nil slice ranges over nothing.\<close>

definition has_enum :: "arg_constraint \<Rightarrow> bool" where
  "has_enum c \<longleftrightarrow> ac_Enum c \<noteq> None \<or> ac_EnumSet c"

definition enum_list :: "arg_constraint \<Rightarrow> string list" where
  "enum_list c = (case ac_Enum c of None \<Rightarrow> [] | Some es \<Rightarrow> es)"

subsection \<open>Validation\<close>

definition validate_scope :: "scope \<Rightarrow> scope_err option" where
  "validate_scope s =
     (case validate_pattern (sc_Tool s) of
        Some e \<Rightarrow> Some (BadPattern e)
      | None \<Rightarrow>
          if length (sc_Resources s) = 0 then Some NoResources
          else
            (case first_err validate_pattern (sc_Resources s) of
               Some e \<Rightarrow> Some (BadPattern e)
             | None \<Rightarrow>
                 (case first_err
                     (\<lambda>(_, c). if ac_Pattern c \<noteq> [] then validate_pattern (ac_Pattern c) else None)
                     (sc_Args s) of
                    Some e \<Rightarrow> Some (BadPattern e)
                  | None \<Rightarrow> if sc_MaxCalls s \<le> 0 then Some MaxCallsNotPositive else None)))"

subsection \<open>Whether a call is allowed\<close>

definition as_string :: "any \<Rightarrow> string option" where
  "as_string v = (case v of VStr s \<Rightarrow> Some s | _ \<Rightarrow> None)"

text \<open>The type assertions of lines 169 to 174.\<close>

definition as_float :: "any \<Rightarrow> float64 option" where
  "as_float v = (case v of VFloat f \<Rightarrow> Some f | VInt i \<Rightarrow> Some (float64_of_int i) | _ \<Rightarrow> None)"

definition allows_enum :: "arg_constraint \<Rightarrow> any \<Rightarrow> bool" where
  "allows_enum c v =
     (if has_enum c then
        (case as_string v of None \<Rightarrow> False | Some s \<Rightarrow> contains (enum_list c) s)
      else True)"

definition allows_pattern :: "arg_constraint \<Rightarrow> any \<Rightarrow> bool" where
  "allows_pattern c v =
     (if ac_Pattern c \<noteq> [] then
        (case as_string v of None \<Rightarrow> False | Some s \<Rightarrow> match_pat (ac_Pattern c) s)
      else True)"

definition allows_bounds :: "arg_constraint \<Rightarrow> any \<Rightarrow> bool" where
  "allows_bounds c v =
     (if ac_Min c \<noteq> None \<or> ac_Max c \<noteq> None then
        (case as_float v of
           None \<Rightarrow> False
         | Some f \<Rightarrow>
             if (case ac_Min c of None \<Rightarrow> False | Some m \<Rightarrow> f < m) then False
             else if (case ac_Max c of None \<Rightarrow> False | Some m \<Rightarrow> m < f) then False
             else True)
      else True)"

text \<open>The value and the presence flag of the source are one option.\<close>

definition allows_arg :: "arg_constraint \<Rightarrow> any option \<Rightarrow> bool" where
  "allows_arg c v =
     (case v of
        None \<Rightarrow> False
      | Some x \<Rightarrow>
          if \<not> allows_enum c x then False
          else if \<not> allows_pattern c x then False
          else allows_bounds c x)"

definition scope_allows :: "scope \<Rightarrow> call \<Rightarrow> bool" where
  "scope_allows s c =
     (if \<not> match_pat (sc_Tool s) (cl_Tool c) then False
      else if \<not> list_ex (\<lambda>r. match_pat r (cl_Resource c)) (sc_Resources s) then False
      else list_all (\<lambda>(name, con). allows_arg con (lookup (cl_Args c) name)) (sc_Args s))"

text \<open>The index of the first scope that allows the call, or -1.\<close>

fun first_match :: "scope list \<Rightarrow> call \<Rightarrow> int" where
  "first_match [] c = -1"
| "first_match (s # ss) c =
     (if scope_allows s c then 0
      else let i = first_match ss c in if i < 0 then -1 else i + 1)"

subsection \<open>The subset test\<close>

definition arg_subset :: "arg_constraint \<Rightarrow> arg_constraint \<Rightarrow> bool" where
  "arg_subset child parent =
     (if has_enum parent \<and>
         (\<not> has_enum child \<or> \<not> list_all (\<lambda>e. contains (enum_list parent) e) (enum_list child))
      then False
      else if ac_Pattern parent \<noteq> [] \<and>
         (if ac_Pattern child = [] then
            \<not> has_enum child \<or> \<not> list_all (\<lambda>e. match_pat (ac_Pattern parent) e) (enum_list child)
          else \<not> pattern_subset (ac_Pattern child) (ac_Pattern parent))
      then False
      else if (case ac_Min parent of None \<Rightarrow> False
         | Some pm \<Rightarrow> (case ac_Min child of None \<Rightarrow> True | Some cm \<Rightarrow> cm < pm))
      then False
      else if (case ac_Max parent of None \<Rightarrow> False
         | Some pm \<Rightarrow> (case ac_Max child of None \<Rightarrow> True | Some cm \<Rightarrow> pm < cm))
      then False
      else True)"

definition scope_subset :: "scope \<Rightarrow> scope \<Rightarrow> bool" where
  "scope_subset child parent =
     (if \<not> pattern_subset (sc_Tool child) (sc_Tool parent) then False
      else if \<not> list_all (\<lambda>cr. list_ex (\<lambda>pr. pattern_subset cr pr) (sc_Resources parent))
                 (sc_Resources child) then False
      else if \<not> list_all (\<lambda>(name, pc).
                 case lookup (sc_Args child) name of None \<Rightarrow> False | Some cc \<Rightarrow> arg_subset cc pc)
                 (sc_Args parent) then False
      else if sc_MaxCalls parent < sc_MaxCalls child then False
      else if sc_RequireApproval parent \<and> \<not> sc_RequireApproval child then False
      else True)"

definition scopes_subset :: "scope list \<Rightarrow> scope list \<Rightarrow> bool" where
  "scopes_subset child parent = list_all (\<lambda>c. list_ex (\<lambda>p. scope_subset c p) parent) child"

subsection \<open>Intersection\<close>

definition max_ptr :: "float64 option \<Rightarrow> float64 option \<Rightarrow> float64 option" where
  "max_ptr a b =
     (case a of None \<Rightarrow> b
      | Some x \<Rightarrow> (case b of None \<Rightarrow> a | Some y \<Rightarrow> if y \<le> x then a else b))"

definition min_ptr :: "float64 option \<Rightarrow> float64 option \<Rightarrow> float64 option" where
  "min_ptr a b =
     (case a of None \<Rightarrow> b
      | Some x \<Rightarrow> (case b of None \<Rightarrow> a | Some y \<Rightarrow> if x \<le> y then a else b))"

text \<open>Lines 295 to 308: the enum of the result.\<close>

definition intersect_enum :: "arg_constraint \<Rightarrow> arg_constraint \<Rightarrow> arg_constraint" where
  "intersect_enum a b =
     (if has_enum a \<and> has_enum b then
        zero_constraint\<lparr>ac_Enum := Some (filter (contains (enum_list b)) (enum_list a)), ac_EnumSet := True\<rparr>
      else if has_enum a then
        zero_constraint\<lparr>ac_Enum := Some (enum_list a), ac_EnumSet := True\<rparr>
      else if has_enum b then
        zero_constraint\<lparr>ac_Enum := Some (enum_list b), ac_EnumSet := True\<rparr>
      else zero_constraint)"

text \<open>Lines 309 to 320: its pattern; disjoint patterns empty the enum.\<close>

definition intersect_pattern :: "arg_constraint \<Rightarrow> arg_constraint \<Rightarrow> arg_constraint \<Rightarrow> arg_constraint" where
  "intersect_pattern a b out =
     (if ac_Pattern a \<noteq> [] \<and> ac_Pattern b \<noteq> [] then
        (case pattern_intersect (ac_Pattern a) (ac_Pattern b) of
           Some p \<Rightarrow> out\<lparr>ac_Pattern := p\<rparr>
         | None \<Rightarrow> out\<lparr>ac_Enum := Some [], ac_EnumSet := True\<rparr>)
      else if ac_Pattern a \<noteq> [] then out\<lparr>ac_Pattern := ac_Pattern a\<rparr>
      else if ac_Pattern b \<noteq> [] then out\<lparr>ac_Pattern := ac_Pattern b\<rparr>
      else out)"

text \<open>Lines 321 to 330: a pattern beside an enum is folded into the enum.\<close>

definition fold_pattern :: "arg_constraint \<Rightarrow> arg_constraint" where
  "fold_pattern out =
     (if ac_EnumSet out \<and> ac_Pattern out \<noteq> [] then
        out\<lparr>ac_Enum := Some (filter (match_pat (ac_Pattern out)) (enum_list out)), ac_Pattern := []\<rparr>
      else out)"

definition intersect_arg :: "arg_constraint \<Rightarrow> arg_constraint \<Rightarrow> arg_constraint" where
  "intersect_arg a b =
     (fold_pattern (intersect_pattern a b (intersect_enum a b)))
       \<lparr>ac_Min := max_ptr (ac_Min a) (ac_Min b), ac_Max := min_ptr (ac_Max a) (ac_Max b)\<rparr>"

text \<open>Lines 371 to 380: every pair of patterns, without repetitions.\<close>

definition intersect_resources :: "string list \<Rightarrow> string list \<Rightarrow> string list" where
  "intersect_resources as bs =
     fold (\<lambda>(ra, rb) res.
         case pattern_intersect ra rb of
           None \<Rightarrow> res
         | Some r \<Rightarrow> if r \<in> set res then res else res @ [r])
       (List.product as bs) []"

definition merge_arg :: "string \<times> arg_constraint \<Rightarrow> arg_constraint gomap \<Rightarrow> arg_constraint gomap" where
  "merge_arg nc args =
     (case lookup args (fst nc) of
        Some prev \<Rightarrow> AList.update (fst nc) (intersect_arg prev (snd nc)) args
      | None \<Rightarrow> AList.update (fst nc) (snd nc) args)"

definition merge_args :: "arg_constraint gomap \<Rightarrow> arg_constraint gomap \<Rightarrow> arg_constraint gomap" where
  "merge_args a b = fold merge_arg b a"

text \<open>The test of lines 396 to 403: a constraint that admits no value.\<close>

definition empty_constraint :: "arg_constraint \<Rightarrow> bool" where
  "empty_constraint c =
     (if ac_EnumSet c \<and> length (enum_list c) = 0 then True
      else (case ac_Min c of None \<Rightarrow> False
            | Some mn \<Rightarrow> (case ac_Max c of None \<Rightarrow> False | Some mx \<Rightarrow> mx < mn)))"

definition scope_intersect :: "scope \<Rightarrow> scope \<Rightarrow> scope option" where
  "scope_intersect a b =
     (case pattern_intersect (sc_Tool a) (sc_Tool b) of
        None \<Rightarrow> None
      | Some tool \<Rightarrow>
          let res = intersect_resources (sc_Resources a) (sc_Resources b) in
          if length res = 0 then None
          else
            let args = merge_args (sc_Args a) (sc_Args b) in
            if list_ex (\<lambda>(_, c). empty_constraint c) args then None
            else
              let mc = (if sc_MaxCalls b < sc_MaxCalls a then sc_MaxCalls b else sc_MaxCalls a) in
              if mc \<le> 0 then None
              else Some \<lparr>sc_Tool = tool, sc_Resources = sort res, sc_Args = args, sc_MaxCalls = mc,
                         sc_RequireApproval = (sc_RequireApproval a \<or> sc_RequireApproval b)\<rparr>)"

text \<open>Every requested scope against every parent scope; the non-empty intersections survive.\<close>

definition attenuate :: "scope list \<Rightarrow> scope list \<Rightarrow> scope list" where
  "attenuate parent requested =
     concat (map (\<lambda>r. List.map_filter (\<lambda>p. scope_intersect r p) parent) requested)"

end
