(* ===== verification/Scope_Narrowing.thy ===== *)
theory Scope_Narrowing
  imports Token_Scope
begin

section \<open>What scopes, subsets and intersections mean\<close>

text \<open>
  The correctness of \<^verbatim>\<open>internal/token/scope.go\<close>. A scope denotes the calls it allows. The
  source claims that \<^verbatim>\<open>Subset\<close> is contained in that order and that \<^verbatim>\<open>Intersect\<close> is exact. Both
  hold for \<open>clean_call\<close>s, those none of whose strings is a traversal (\<open>escapes_prefix\<close>), and for
  bounds that are numbers (\<open>scope_numeric\<close>; JSON has no NaN). The excluded calls are a real
  exception of the code: \<open>attenuation_admits_traversal\<close> states it.
\<close>

subsection \<open>Clean calls and numeric bounds\<close>

definition clean_value :: "any \<Rightarrow> bool" where
  "clean_value v = (case v of VStr s \<Rightarrow> \<not> escapes_prefix s | _ \<Rightarrow> True)"

definition clean_call :: "call \<Rightarrow> bool" where
  "clean_call c \<longleftrightarrow> \<not> escapes_prefix (cl_Tool c) \<and> \<not> escapes_prefix (cl_Resource c)
     \<and> list_all (\<lambda>(_, v). clean_value v) (cl_Args c)"

definition no_nan_call :: "call \<Rightarrow> bool" where
  "no_nan_call c \<longleftrightarrow> list_all (\<lambda>(_, v). v \<noteq> VFloat NaN) (cl_Args c)"

definition arg_numeric :: "arg_constraint \<Rightarrow> bool" where
  "arg_numeric c \<longleftrightarrow> ac_Min c \<noteq> Some NaN \<and> ac_Max c \<noteq> Some NaN"

definition scope_numeric :: "scope \<Rightarrow> bool" where
  "scope_numeric s \<longleftrightarrow> list_all (\<lambda>nc. arg_numeric (snd nc)) (sc_Args s)"

lemma clean_call_lookup: "clean_call c \<Longrightarrow> lookup (cl_Args c) n = Some v \<Longrightarrow> clean_value v"
  by (auto simp: clean_call_def list_all_iff dest: map_of_SomeD)

lemma no_nan_call_lookup: "no_nan_call c \<Longrightarrow> lookup (cl_Args c) n = Some v \<Longrightarrow> v \<noteq> VFloat NaN"
  by (auto simp: no_nan_call_def list_all_iff dest: map_of_SomeD)

lemma as_string_Some [simp]: "as_string v = Some s \<longleftrightarrow> v = VStr s"
  by (auto simp: as_string_def split: any.splits)

lemma as_float_numeric: "v \<noteq> VFloat NaN \<Longrightarrow> as_float v = Some f \<Longrightarrow> f \<noteq> NaN"
  by (auto simp: as_float_def split: any.splits)

lemma max_ptr_numeric: "a \<noteq> Some NaN \<Longrightarrow> b \<noteq> Some NaN \<Longrightarrow> max_ptr a b \<noteq> Some NaN"
  by (auto simp: max_ptr_def split: option.splits)

lemma min_ptr_numeric: "a \<noteq> Some NaN \<Longrightarrow> b \<noteq> Some NaN \<Longrightarrow> min_ptr a b \<noteq> Some NaN"
  by (auto simp: min_ptr_def split: option.splits)

lemma arg_numeric_intersect: "arg_numeric a \<Longrightarrow> arg_numeric b \<Longrightarrow> arg_numeric (intersect_arg a b)"
  by (simp add: arg_numeric_def intersect_arg_def max_ptr_numeric min_ptr_numeric)

subsection \<open>The three conditions of a constraint\<close>

lemma allows_enum_iff:
  "allows_enum c v \<longleftrightarrow> (has_enum c \<longrightarrow> (\<exists>s. v = VStr s \<and> s \<in> set (enum_list c)))"
  by (auto simp: allows_enum_def split: option.splits) (auto simp: as_string_def split: any.splits)

lemma allows_pattern_iff:
  "allows_pattern c v \<longleftrightarrow> (ac_Pattern c \<noteq> [] \<longrightarrow> (\<exists>s. v = VStr s \<and> match_pat (ac_Pattern c) s))"
  by (auto simp: allows_pattern_def split: option.splits) (auto simp: as_string_def split: any.splits)

lemma allows_bounds_iff:
  "allows_bounds c v \<longleftrightarrow>
     (ac_Min c \<noteq> None \<or> ac_Max c \<noteq> None \<longrightarrow>
       (\<exists>f. as_float v = Some f \<and> (\<forall>m. ac_Min c = Some m \<longrightarrow> \<not> f < m)
          \<and> (\<forall>m. ac_Max c = Some m \<longrightarrow> \<not> m < f)))"
  by (auto simp: allows_bounds_def split: option.splits)

lemma allows_arg_None [simp]: "\<not> allows_arg c None"
  by (simp add: allows_arg_def)

lemma allows_arg_Some [simp]:
  "allows_arg c (Some v) \<longleftrightarrow> allows_enum c v \<and> allows_pattern c v \<and> allows_bounds c v"
  by (simp add: allows_arg_def)

lemma enum_list_simps [simp]:
  "enum_list (c\<lparr>ac_Pattern := p\<rparr>) = enum_list c"
  "enum_list (c\<lparr>ac_Min := m\<rparr>) = enum_list c"
  "enum_list (c\<lparr>ac_Max := m\<rparr>) = enum_list c"
  "enum_list (c\<lparr>ac_EnumSet := b\<rparr>) = enum_list c"
  "enum_list (c\<lparr>ac_Enum := Some es\<rparr>) = es"
  "enum_list zero_constraint = []"
  by (simp_all add: enum_list_def zero_constraint_def)

lemma has_enum_simps [simp]:
  "has_enum (c\<lparr>ac_Pattern := p\<rparr>) = has_enum c"
  "has_enum (c\<lparr>ac_Min := m\<rparr>) = has_enum c"
  "has_enum (c\<lparr>ac_Max := m\<rparr>) = has_enum c"
  "has_enum (c\<lparr>ac_Enum := Some es\<rparr>)"
  "has_enum (c\<lparr>ac_EnumSet := True\<rparr>)"
  "\<not> has_enum zero_constraint"
  by (simp_all add: has_enum_def zero_constraint_def)

lemma zero_constraint_simps [simp]:
  "ac_Pattern zero_constraint = []" "ac_Min zero_constraint = None" "ac_Max zero_constraint = None"
  "ac_EnumSet zero_constraint = False"
  by (simp_all add: zero_constraint_def)

lemma allows_update [simp]:
  "allows_enum (c\<lparr>ac_Min := m, ac_Max := n\<rparr>) v = allows_enum c v"
  "allows_pattern (c\<lparr>ac_Min := m, ac_Max := n\<rparr>) v = allows_pattern c v"
  by (simp_all add: allows_enum_iff allows_pattern_iff)

subsection \<open>Intersection of constraints\<close>

lemma allows_intersect_enum:
  "allows_enum (intersect_enum a b) v \<longleftrightarrow> allows_enum a v \<and> allows_enum b v"
  by (auto simp: allows_enum_iff intersect_enum_def)

lemma intersect_enum_pattern [simp]: "ac_Pattern (intersect_enum a b) = []"
  by (simp add: intersect_enum_def)

lemma fold_pattern_allows:
  "allows_enum (fold_pattern c) v \<and> allows_pattern (fold_pattern c) v
     \<longleftrightarrow> allows_enum c v \<and> allows_pattern c v"
  by (auto simp: fold_pattern_def allows_enum_iff allows_pattern_iff has_enum_def)

lemma intersect_pattern_allows:
  assumes "clean_value v" and "ac_Pattern out = []"
  shows "allows_enum (intersect_pattern a b out) v \<and> allows_pattern (intersect_pattern a b out) v
     \<longleftrightarrow> allows_enum out v \<and> allows_pattern a v \<and> allows_pattern b v"
proof (cases "ac_Pattern a \<noteq> [] \<and> ac_Pattern b \<noteq> []")
  case True
  show ?thesis
  proof (cases "pattern_intersect (ac_Pattern a) (ac_Pattern b)")
    case None
    with True show ?thesis
      by (auto simp: intersect_pattern_def allows_enum_iff allows_pattern_iff
          dest: pattern_intersect_None)
  next
    case (Some p)
    with True have "p \<noteq> []" using pattern_intersect_nonempty by blast
    moreover have "match_pat p s \<longleftrightarrow> match_pat (ac_Pattern a) s \<and> match_pat (ac_Pattern b) s"
      if "v = VStr s" for s
      using pattern_intersect_match [OF Some] assms(1) that by (simp add: clean_value_def)
    ultimately show ?thesis using True Some
      by (auto simp: intersect_pattern_def allows_enum_iff allows_pattern_iff)
  qed
next
  case False
  with assms(2) show ?thesis
    by (auto simp: intersect_pattern_def allows_enum_iff allows_pattern_iff)
qed

lemma max_ptr_above:
  assumes "a \<noteq> Some NaN" and "b \<noteq> Some NaN"
  shows "(\<forall>m. max_ptr a b = Some m \<longrightarrow> \<not> f < m)
     \<longleftrightarrow> (\<forall>m. a = Some m \<longrightarrow> \<not> f < m) \<and> (\<forall>m. b = Some m \<longrightarrow> \<not> f < m)"
proof (cases a; cases b)
  fix x y assume "a = Some x" and "b = Some y"
  moreover from this assms have "y \<le> x \<or> x \<le> y"
    using float64_not_less [of x y] by (auto simp: less_eq_float64_def)
  ultimately show ?thesis
    by (auto simp: max_ptr_def dest: float64_less_le_trans)
qed (simp_all add: max_ptr_def)

lemma min_ptr_below:
  assumes "a \<noteq> Some NaN" and "b \<noteq> Some NaN"
  shows "(\<forall>m. min_ptr a b = Some m \<longrightarrow> \<not> m < f)
     \<longleftrightarrow> (\<forall>m. a = Some m \<longrightarrow> \<not> m < f) \<and> (\<forall>m. b = Some m \<longrightarrow> \<not> m < f)"
proof (cases a; cases b)
  fix x y assume "a = Some x" and "b = Some y"
  moreover from this assms have "y \<le> x \<or> x \<le> y"
    using float64_not_less [of x y] by (auto simp: less_eq_float64_def)
  ultimately show ?thesis
    by (auto simp: min_ptr_def dest: float64_le_less_trans)
qed (simp_all add: min_ptr_def)

lemma ptr_None_iff [simp]:
  "max_ptr a b = None \<longleftrightarrow> a = None \<and> b = None" "min_ptr a b = None \<longleftrightarrow> a = None \<and> b = None"
  by (auto simp: max_ptr_def min_ptr_def split: option.splits)

lemma allows_bounds_intersect:
  assumes "arg_numeric a" and "arg_numeric b"
  shows "allows_bounds (intersect_arg a b) v \<longleftrightarrow> allows_bounds a v \<and> allows_bounds b v"
  using assms max_ptr_above [of "ac_Min a" "ac_Min b"] min_ptr_below [of "ac_Max a" "ac_Max b"]
  unfolding allows_bounds_iff arg_numeric_def intersect_arg_def
  by (auto simp del: not_None_eq)

lemma allows_arg_intersect:
  assumes "arg_numeric a" and "arg_numeric b" and "\<forall>x. v = Some x \<longrightarrow> clean_value x"
  shows "allows_arg (intersect_arg a b) v \<longleftrightarrow> allows_arg a v \<and> allows_arg b v"
proof (cases v)
  case (Some x)
  let ?o = "intersect_pattern a b (intersect_enum a b)"
  have "allows_enum (intersect_arg a b) x \<and> allows_pattern (intersect_arg a b) x
     \<longleftrightarrow> allows_enum (fold_pattern ?o) x \<and> allows_pattern (fold_pattern ?o) x"
    by (simp add: intersect_arg_def)
  also have "\<dots> \<longleftrightarrow> allows_enum ?o x \<and> allows_pattern ?o x"
    by (rule fold_pattern_allows)
  also have "\<dots> \<longleftrightarrow> allows_enum a x \<and> allows_enum b x \<and> allows_pattern a x \<and> allows_pattern b x"
    using intersect_pattern_allows [of x "intersect_enum a b" a b] assms(3) Some
    by (simp add: allows_intersect_enum)
  finally show ?thesis
    using Some allows_bounds_intersect [OF assms(1,2), of x] by auto
qed simp

subsection \<open>Intersection of argument maps\<close>

abbreviation (input) args_allow :: "any gomap \<Rightarrow> arg_constraint gomap \<Rightarrow> bool" where
  "args_allow m \<equiv> list_all (\<lambda>nc. allows_arg (snd nc) (lookup m (fst nc)))"

abbreviation (input) args_numeric :: "arg_constraint gomap \<Rightarrow> bool" where
  "args_numeric \<equiv> list_all (\<lambda>nc. arg_numeric (snd nc))"

lemma lookup_numeric: "args_numeric args \<Longrightarrow> lookup args n = Some p \<Longrightarrow> arg_numeric p"
  by (auto simp: list_all_iff dest!: map_of_SomeD)

lemma list_all_merge_arg:
  assumes "args_numeric args" and "arg_numeric (snd nc)"
    and "\<forall>n x. lookup m n = Some x \<longrightarrow> clean_value x"
  shows "args_allow m (merge_arg nc args)
     \<longleftrightarrow> args_allow m args \<and> allows_arg (snd nc) (lookup m (fst nc))"
proof (cases "lookup args (fst nc)")
  case None
  then show ?thesis by (simp add: merge_arg_def list_all_update_None)
next
  case (Some p)
  then have "arg_numeric p" using assms(1) by (rule lookup_numeric [rotated])
  then have "allows_arg (intersect_arg p (snd nc)) (lookup m (fst nc))
      \<longleftrightarrow> allows_arg p (lookup m (fst nc)) \<and> allows_arg (snd nc) (lookup m (fst nc))"
    using assms by (intro allows_arg_intersect) auto
  with Some show ?thesis
    by (simp add: merge_arg_def list_all_update_Some [where p = p and Q = "allows_arg (snd nc) (lookup m (fst nc))"])
qed

lemma merge_arg_numeric:
  assumes "args_numeric args" and "arg_numeric (snd nc)"
  shows "args_numeric (merge_arg nc args)"
proof (cases "lookup args (fst nc)")
  case (Some p)
  then have "arg_numeric p" using assms(1) by (rule lookup_numeric [rotated])
  with Some assms show ?thesis
    by (simp add: merge_arg_def list_all_update_Some [where p = p and Q = True] arg_numeric_intersect)
qed (use assms in \<open>simp add: merge_arg_def list_all_update_None\<close>)

lemma merge_args_allows:
  assumes "args_numeric a" and "args_numeric b"
    and "\<forall>n x. lookup m n = Some x \<longrightarrow> clean_value x"
  shows "args_allow m (merge_args a b)
     \<longleftrightarrow> args_allow m a \<and> args_allow m b"
  unfolding merge_args_def using assms(1,2)
proof (induction b arbitrary: a)
  case (Cons nc b)
  from Cons.prems have nc: "arg_numeric (snd nc)" and b: "args_numeric b"
    by auto
  show ?case
    using Cons.IH [OF merge_arg_numeric [OF Cons.prems(1) nc] b]
      list_all_merge_arg [OF Cons.prems(1) nc assms(3)]
    by auto
qed simp

lemma merge_args_numeric:
  "args_numeric a \<Longrightarrow> args_numeric b
     \<Longrightarrow> args_numeric (merge_args a b)"
  unfolding merge_args_def
  by (induction b arbitrary: a) (auto intro!: merge_arg_numeric)

lemma wf_map_merge_args: "wf_map a \<Longrightarrow> wf_map (merge_args a b)"
  unfolding merge_args_def
proof (induction b arbitrary: a)
  case (Cons nc b)
  then show ?case
    by (cases "lookup a (fst nc)") (auto simp: merge_arg_def intro!: Cons.IH wf_map_update)
qed simp

lemma lookup_merge_arg:
  "lookup (merge_arg nc a) n =
     (if n = fst nc then Some (case lookup a n of None \<Rightarrow> snd nc | Some p \<Rightarrow> intersect_arg p (snd nc))
      else lookup a n)"
  by (auto simp: merge_arg_def update_conv' split: option.splits)

lemma lookup_merge_args:
  "wf_map b \<Longrightarrow> lookup (merge_args a b) n =
     (case lookup b n of
        None \<Rightarrow> lookup a n
      | Some c \<Rightarrow> Some (case lookup a n of None \<Rightarrow> c | Some p \<Rightarrow> intersect_arg p c))"
  unfolding merge_args_def
proof (induction b arbitrary: a)
  case (Cons nc b)
  then have "wf_map b" and "fst nc \<notin> fst ` set b" by (auto simp: wf_map_def)
  with Cons.IH [of "merge_arg nc a"] show ?case
    by (cases nc) (auto simp: lookup_merge_arg map_of_eq_None_iff [symmetric] split: option.splits)
qed simp

subsection \<open>Intersection of resource lists\<close>

lemma fold_collect_set:
  "set (fold (\<lambda>(ra, rb) res. case f ra rb of None \<Rightarrow> res
       | Some r \<Rightarrow> if r \<in> set res then res else res @ [r]) ps acc)
     = set acc \<union> {r. \<exists>(ra, rb) \<in> set ps. f ra rb = Some r}"
  by (induction ps arbitrary: acc) (auto split: option.splits if_splits)

lemma fold_collect_distinct:
  "distinct acc \<Longrightarrow> distinct (fold (\<lambda>(ra, rb) res. case f ra rb of None \<Rightarrow> res
       | Some r \<Rightarrow> if r \<in> set res then res else res @ [r]) ps acc)"
proof (induction ps arbitrary: acc)
  case (Cons p ps)
  then show ?case by (cases "f (fst p) (snd p)") (simp_all add: split_beta)
qed simp

lemma set_intersect_resources:
  "set (intersect_resources as bs) = {r. \<exists>ra \<in> set as. \<exists>rb \<in> set bs. pattern_intersect ra rb = Some r}"
  by (auto simp: intersect_resources_def fold_collect_set)

lemma distinct_intersect_resources: "distinct (intersect_resources as bs)"
  by (simp add: intersect_resources_def fold_collect_distinct)

lemma intersect_resources_match:
  "\<not> escapes_prefix s \<Longrightarrow>
     (\<exists>r \<in> set (intersect_resources as bs). match_pat r s)
       \<longleftrightarrow> (\<exists>r \<in> set as. match_pat r s) \<and> (\<exists>r \<in> set bs. match_pat r s)"
  unfolding set_intersect_resources
  using pattern_intersect_match pattern_intersect_Some by blast

subsection \<open>Intersection of scopes\<close>

lemma scope_allows_iff:
  "scope_allows s c \<longleftrightarrow> match_pat (sc_Tool s) (cl_Tool c)
     \<and> (\<exists>r \<in> set (sc_Resources s). match_pat r (cl_Resource c))
     \<and> args_allow (cl_Args c) (sc_Args s)"
  by (auto simp: scope_allows_def list_ex_iff case_prod_unfold)

lemma scope_intersect_SomeD:
  assumes "scope_intersect a b = Some s"
  shows "pattern_intersect (sc_Tool a) (sc_Tool b) = Some (sc_Tool s)"
    and "set (sc_Resources s) = set (intersect_resources (sc_Resources a) (sc_Resources b))"
    and "sc_Resources s \<noteq> []"
    and "sc_Args s = merge_args (sc_Args a) (sc_Args b)"
    and "\<not> list_ex (\<lambda>(_, c). empty_constraint c) (sc_Args s)"
    and "sc_MaxCalls s = min (sc_MaxCalls a) (sc_MaxCalls b)"
    and "0 < sc_MaxCalls s"
    and "sc_RequireApproval s \<longleftrightarrow> sc_RequireApproval a \<or> sc_RequireApproval b"
    and "sorted (sc_Resources s)" and "distinct (sc_Resources s)"
  using assms
  by (auto simp: scope_intersect_def Let_def distinct_intersect_resources sorted_sort
      split: option.splits if_splits)

lemma scope_intersect_allows [narrowing]:
  assumes "scope_intersect a b = Some s" and "clean_call c"
    and "scope_numeric a" and "scope_numeric b"
  shows "scope_allows s c \<longleftrightarrow> scope_allows a c \<and> scope_allows b c"
proof -
  note s = scope_intersect_SomeD [OF assms(1)]
  have "match_pat (sc_Tool s) (cl_Tool c)
      \<longleftrightarrow> match_pat (sc_Tool a) (cl_Tool c) \<and> match_pat (sc_Tool b) (cl_Tool c)"
    using pattern_intersect_match [OF s(1)] assms(2) by (simp add: clean_call_def)
  moreover have "(\<exists>r \<in> set (sc_Resources s). match_pat r (cl_Resource c))
      \<longleftrightarrow> (\<exists>r \<in> set (sc_Resources a). match_pat r (cl_Resource c))
        \<and> (\<exists>r \<in> set (sc_Resources b). match_pat r (cl_Resource c))"
    using assms(2) unfolding s(2) by (intro intersect_resources_match) (simp add: clean_call_def)
  moreover have "args_allow (cl_Args c) (sc_Args s)
      \<longleftrightarrow> args_allow (cl_Args c) (sc_Args a)
        \<and> args_allow (cl_Args c) (sc_Args b)"
    using assms(3,4) clean_call_lookup [OF assms(2)] unfolding s(4) scope_numeric_def
    by (intro merge_args_allows) auto
  ultimately show ?thesis by (auto simp: scope_allows_iff)
qed

lemma scope_intersect_numeric:
  "scope_intersect a b = Some s \<Longrightarrow> scope_numeric a \<Longrightarrow> scope_numeric b \<Longrightarrow> scope_numeric s"
  by (simp add: scope_numeric_def scope_intersect_SomeD(4) merge_args_numeric)

text \<open>A constraint the code calls empty admits no value of a JSON call.\<close>

lemma empty_constraint_allows:
  assumes "empty_constraint c" and "allows_arg c v" and "\<And>x. v = Some x \<Longrightarrow> x \<noteq> VFloat NaN"
    and "arg_numeric c"
  shows False
proof -
  from assms(2) obtain x where x: "v = Some x" and "allows_enum c x" "allows_bounds c x"
    by (cases v) auto
  show False
  proof (cases "ac_EnumSet c \<and> enum_list c = []")
    case True
    with \<open>allows_enum c x\<close> show False by (auto simp: allows_enum_iff has_enum_def)
  next
    case False
    with assms(1) obtain mn mx where m: "ac_Min c = Some mn" "ac_Max c = Some mx" "mx < mn"
      by (auto simp: empty_constraint_def split: option.splits if_splits)
    with \<open>allows_bounds c x\<close> obtain f where f: "as_float x = Some f" "\<not> f < mn" "\<not> mx < f"
      by (auto simp: allows_bounds_iff)
    have "f \<noteq> NaN" using as_float_numeric [OF assms(3) [OF x] f(1)] .
    with f m assms(4) have "mn \<le> f" "f \<le> mx"
      by (auto simp: arg_numeric_def float64_not_less)
    with m(3) show False
      by (metis float64_le_less_trans float64_le_trans float64_not_less float64_NaN_cmp(1) float64_NaN_cmp(2))
  qed
qed

lemma scope_intersect_Some:
  assumes "clean_call c" and "no_nan_call c" and "scope_numeric a" and "scope_numeric b"
    and "0 < sc_MaxCalls a" and "0 < sc_MaxCalls b"
    and a: "scope_allows a c" and b: "scope_allows b c"
  shows "\<exists>s. scope_intersect a b = Some s"
proof -
  let ?args = "merge_args (sc_Args a) (sc_Args b)"
  obtain tool where tool: "pattern_intersect (sc_Tool a) (sc_Tool b) = Some tool"
    using a b pattern_intersect_Some [of "sc_Tool a" "cl_Tool c" "sc_Tool b"]
    by (auto simp: scope_allows_iff)
  have res: "intersect_resources (sc_Resources a) (sc_Resources b) \<noteq> []"
    using a b intersect_resources_match [of "cl_Resource c" "sc_Resources a" "sc_Resources b"] assms(1)
    by (auto simp: scope_allows_iff clean_call_def)
  have num: "args_numeric ?args"
    using assms(3,4) by (simp add: scope_numeric_def merge_args_numeric)
  have all: "args_allow (cl_Args c) ?args"
    using a b assms(3,4) clean_call_lookup [OF assms(1)]
    by (subst merge_args_allows) (auto simp: scope_allows_iff scope_numeric_def)
  have "\<not> empty_constraint con" if "(n, con) \<in> set ?args" for n con
  proof -
    have "arg_numeric con" and "allows_arg con (lookup (cl_Args c) n)"
      using that num all by (fastforce simp: list_all_iff)+
    then show ?thesis
      using empty_constraint_allows no_nan_call_lookup [OF assms(2)] by blast
  qed
  then show ?thesis
    using tool res assms(5,6) by (auto simp: scope_intersect_def Let_def list_ex_iff)
qed

subsection \<open>The subset test is sound\<close>

lemma arg_subset_iff:
  "arg_subset c p \<longleftrightarrow>
     (has_enum p \<longrightarrow> has_enum c \<and> set (enum_list c) \<subseteq> set (enum_list p))
     \<and> (ac_Pattern p \<noteq> [] \<longrightarrow>
          (if ac_Pattern c = [] then has_enum c \<and> (\<forall>e \<in> set (enum_list c). match_pat (ac_Pattern p) e)
           else pattern_subset (ac_Pattern c) (ac_Pattern p)))
     \<and> (\<forall>pm. ac_Min p = Some pm \<longrightarrow> (\<exists>cm. ac_Min c = Some cm \<and> \<not> cm < pm))
     \<and> (\<forall>pm. ac_Max p = Some pm \<longrightarrow> (\<exists>cm. ac_Max c = Some cm \<and> \<not> pm < cm))"
  unfolding arg_subset_def
  by (simp add: list_all_iff subset_iff split: option.split) blast

lemma arg_subset_refl [simp]: "arg_subset c c"
  by (auto simp: arg_subset_iff) (metis float64_NaN_cmp(1) float64_le_refl float64_not_less)+

lemma arg_subset_allows:
  assumes "arg_subset c p" and "arg_numeric c" and "arg_numeric p" and "clean_value v"
    and "allows_arg c (Some v)"
  shows "allows_arg p (Some v)"
proof -
  have "allows_enum p v"
    using assms(1,5) by (auto simp: arg_subset_iff allows_enum_iff)
  moreover have "allows_pattern p v"
    using assms(1,4,5) pattern_subset_sound
    by (auto simp: arg_subset_iff allows_enum_iff allows_pattern_iff clean_value_def split: if_splits)
  moreover have "allows_bounds p v"
    unfolding allows_bounds_iff
  proof (intro impI)
    assume bounded: "ac_Min p \<noteq> None \<or> ac_Max p \<noteq> None"
    then have "ac_Min c \<noteq> None \<or> ac_Max c \<noteq> None"
      using assms(1) by (auto simp: arg_subset_iff)
    with assms(5) obtain f where f: "as_float v = Some f"
      "\<forall>m. ac_Min c = Some m \<longrightarrow> \<not> f < m" "\<forall>m. ac_Max c = Some m \<longrightarrow> \<not> m < f"
      by (auto simp: allows_bounds_iff)
    have "\<not> f < pm" if pm: "ac_Min p = Some pm" for pm
    proof -
      obtain cm where cm: "ac_Min c = Some cm" "\<not> cm < pm"
        using assms(1) pm by (auto simp: arg_subset_iff)
      then have "pm \<le> cm" using assms(2,3) pm by (simp add: arg_numeric_def float64_not_less)
      with f(2) cm(1) show ?thesis by (metis float64_less_le_trans)
    qed
    moreover have "\<not> pm < f" if pm: "ac_Max p = Some pm" for pm
    proof -
      obtain cm where cm: "ac_Max c = Some cm" "\<not> pm < cm"
        using assms(1) pm by (auto simp: arg_subset_iff)
      then have "cm \<le> pm" using assms(2,3) pm by (simp add: arg_numeric_def float64_not_less)
      with f(3) cm(1) show ?thesis by (metis float64_le_less_trans)
    qed
    ultimately show "\<exists>f. as_float v = Some f \<and> (\<forall>m. ac_Min p = Some m \<longrightarrow> \<not> f < m)
        \<and> (\<forall>m. ac_Max p = Some m \<longrightarrow> \<not> m < f)"
      using f(1) by blast
  qed
  ultimately show ?thesis by simp
qed

lemma scope_subset_iff:
  "scope_subset c p \<longleftrightarrow>
     pattern_subset (sc_Tool c) (sc_Tool p)
     \<and> (\<forall>cr \<in> set (sc_Resources c). \<exists>pr \<in> set (sc_Resources p). pattern_subset cr pr)
     \<and> (\<forall>(n, pc) \<in> set (sc_Args p). \<exists>cc. lookup (sc_Args c) n = Some cc \<and> arg_subset cc pc)
     \<and> sc_MaxCalls c \<le> sc_MaxCalls p
     \<and> (sc_RequireApproval p \<longrightarrow> sc_RequireApproval c)"
  unfolding scope_subset_def list_all_iff list_ex_iff
  by (simp add: linorder_not_less case_prod_unfold split: option.split) metis

lemma scope_subset_allows [narrowing]:
  assumes sub: "scope_subset s p" and "scope_numeric s" and "scope_numeric p"
    and clean: "clean_call c" and allow: "scope_allows s c"
  shows "scope_allows p c"
proof -
  have "match_pat (sc_Tool p) (cl_Tool c)"
    using sub allow clean pattern_subset_sound
    by (auto simp: scope_subset_iff scope_allows_iff clean_call_def)
  moreover have "\<exists>r \<in> set (sc_Resources p). match_pat r (cl_Resource c)"
    using sub allow clean pattern_subset_sound
    unfolding scope_subset_iff scope_allows_iff clean_call_def by blast
  moreover have "allows_arg pc (lookup (cl_Args c) n)" if pc: "(n, pc) \<in> set (sc_Args p)" for n pc
  proof -
    obtain cc where cc: "lookup (sc_Args s) n = Some cc" "arg_subset cc pc"
      using sub pc by (auto simp: scope_subset_iff)
    then have "(n, cc) \<in> set (sc_Args s)" by (simp add: map_of_SomeD)
    then have "allows_arg cc (lookup (cl_Args c) n)" "arg_numeric cc"
      using allow assms(2) by (fastforce simp: scope_allows_iff scope_numeric_def list_all_iff)+
    moreover have "arg_numeric pc"
      using assms(3) pc by (fastforce simp: scope_numeric_def list_all_iff)
    ultimately show ?thesis
      using arg_subset_allows [OF cc(2)] clean_call_lookup [OF clean, of n]
      by (cases "lookup (cl_Args c) n") auto
  qed
  ultimately show ?thesis by (auto simp: scope_allows_iff list_all_iff)
qed

subsection \<open>An intersection is a subset of both sides\<close>

text \<open>
  A literal argument pattern with a traversal is excluded: folded into an enum, it is a value
  that the wildcard it came from does not match.
\<close>

definition clean_pattern :: "string \<Rightarrow> bool" where
  "clean_pattern p \<longleftrightarrow> is_wild p \<or> \<not> escapes_prefix p"

definition scope_clean_args :: "scope \<Rightarrow> bool" where
  "scope_clean_args s \<longleftrightarrow> list_all (\<lambda>nc. clean_pattern (ac_Pattern (snd nc))) (sc_Args s)"

lemma clean_pattern_match: "clean_pattern p \<Longrightarrow> match_pat p e \<Longrightarrow> \<not> escapes_prefix e"
  by (auto simp: clean_pattern_def match_pat_def split: if_splits)

lemma max_ptr_ge:
  "arg_numeric a \<Longrightarrow> arg_numeric b \<Longrightarrow> ac_Min a = Some m \<or> ac_Min b = Some m
     \<Longrightarrow> \<exists>x. max_ptr (ac_Min a) (ac_Min b) = Some x \<and> \<not> x < m"
  by (auto simp: max_ptr_def arg_numeric_def less_eq_float64_def split: option.splits)
    (metis float64_not_less float64_le_refl less_eq_float64_def)+

lemma min_ptr_le:
  "arg_numeric a \<Longrightarrow> arg_numeric b \<Longrightarrow> ac_Max a = Some m \<or> ac_Max b = Some m
     \<Longrightarrow> \<exists>x. min_ptr (ac_Max a) (ac_Max b) = Some x \<and> \<not> m < x"
  by (auto simp: min_ptr_def arg_numeric_def less_eq_float64_def split: option.splits)
    (metis float64_not_less float64_le_refl less_eq_float64_def)+

text \<open>What the enum and the pattern of the intersection are, before the bounds are set.\<close>

lemma intersect_arg_enum:
  "has_enum a \<or> has_enum b \<Longrightarrow> has_enum (intersect_arg a b)"
  "has_enum a \<Longrightarrow> set (enum_list (intersect_arg a b)) \<subseteq> set (enum_list a)"
  "has_enum b \<Longrightarrow> set (enum_list (intersect_arg a b)) \<subseteq> set (enum_list b)"
  by (auto simp: intersect_arg_def fold_pattern_def intersect_pattern_def intersect_enum_def
      split: option.splits if_splits)

lemma intersect_arg_pattern_cases:
  assumes "ac_Pattern a \<noteq> [] \<or> ac_Pattern b \<noteq> []"
  obtains p where "ac_Pattern (intersect_arg a b) = p" and "p \<noteq> []"
      and "p = ac_Pattern a \<or> p = ac_Pattern b"
      and "ac_Pattern a \<noteq> [] \<longrightarrow> pattern_subset p (ac_Pattern a)"
      and "ac_Pattern b \<noteq> [] \<longrightarrow> pattern_subset p (ac_Pattern b)"
  | p where "ac_Pattern (intersect_arg a b) = []" and "has_enum (intersect_arg a b)"
      and "p = ac_Pattern a \<or> p = ac_Pattern b"
      and "\<forall>e \<in> set (enum_list (intersect_arg a b)). match_pat p e"
      and "ac_Pattern a \<noteq> [] \<longrightarrow> pattern_subset p (ac_Pattern a) \<or> enum_list (intersect_arg a b) = []"
      and "ac_Pattern b \<noteq> [] \<longrightarrow> pattern_subset p (ac_Pattern b) \<or> enum_list (intersect_arg a b) = []"
proof (cases "ac_Pattern a \<noteq> [] \<and> ac_Pattern b \<noteq> []")
  case True
  show ?thesis
  proof (cases "pattern_intersect (ac_Pattern a) (ac_Pattern b)")
    case None
    with True show ?thesis
      by (intro that(2) [of "ac_Pattern a"]) (simp_all add: intersect_arg_def fold_pattern_def intersect_pattern_def)
  next
    case (Some p)
    note p = pattern_intersect_subset [OF Some] pattern_intersect_cases [OF Some]
    have "p \<noteq> []" using True pattern_intersect_nonempty [OF Some] by blast
    show ?thesis
    proof (cases "ac_EnumSet (intersect_enum a b)")
      case True
      then show ?thesis
        using \<open>p \<noteq> []\<close> p Some \<open>ac_Pattern a \<noteq> [] \<and> ac_Pattern b \<noteq> []\<close>
        by (intro that(2) [of p]) (auto simp: intersect_arg_def fold_pattern_def intersect_pattern_def)
    next
      case False
      then show ?thesis
        using \<open>p \<noteq> []\<close> p Some \<open>ac_Pattern a \<noteq> [] \<and> ac_Pattern b \<noteq> []\<close>
        by (intro that(1) [of p]) (auto simp: intersect_arg_def fold_pattern_def intersect_pattern_def)
    qed
  qed
next
  case False
  let ?p = "if ac_Pattern a \<noteq> [] then ac_Pattern a else ac_Pattern b"
  show ?thesis
  proof (cases "ac_EnumSet (intersect_enum a b)")
    case True
    with False assms show ?thesis
      by (intro that(2) [of ?p]) (auto simp: intersect_arg_def fold_pattern_def intersect_pattern_def)
  next
    case no_enum: False
    with False assms show ?thesis
      by (intro that(1) [of ?p]) (auto simp: intersect_arg_def fold_pattern_def intersect_pattern_def)
  qed
qed

lemma intersect_arg_subset:
  assumes num: "arg_numeric a" "arg_numeric b"
    and clean: "clean_pattern (ac_Pattern a)" "clean_pattern (ac_Pattern b)"
    and d: "d = a \<or> d = b"
  shows "arg_subset (intersect_arg a b) d"
  unfolding arg_subset_iff
proof (intro conjI allI impI)
  assume "has_enum d"
  with d show "has_enum (intersect_arg a b)"
    and "set (enum_list (intersect_arg a b)) \<subseteq> set (enum_list d)"
    using intersect_arg_enum(1,2) [of a b] intersect_arg_enum(3) [where a = a and b = b] by auto
next
  assume pd: "ac_Pattern d \<noteq> []"
  then have ab: "ac_Pattern a \<noteq> [] \<or> ac_Pattern b \<noteq> []" using d by auto
  show "if ac_Pattern (intersect_arg a b) = []
    then has_enum (intersect_arg a b) \<and> (\<forall>e \<in> set (enum_list (intersect_arg a b)). match_pat (ac_Pattern d) e)
    else pattern_subset (ac_Pattern (intersect_arg a b)) (ac_Pattern d)"
    using ab
  proof (cases rule: intersect_arg_pattern_cases)
    case (1 p)
    with d pd show ?thesis by auto
  next
    case (2 p)
    have "match_pat (ac_Pattern d) e" if e: "e \<in> set (enum_list (intersect_arg a b))" for e
    proof -
      have "match_pat p e" and "\<not> escapes_prefix e"
        using 2(3,4) e clean clean_pattern_match by auto
      moreover have "pattern_subset p (ac_Pattern d)" using 2(5,6) d pd e by auto
      ultimately show ?thesis using pattern_subset_sound by blast
    qed
    with 2 show ?thesis by simp
  qed
next
  fix pm assume "ac_Min d = Some pm"
  then show "\<exists>cm. ac_Min (intersect_arg a b) = Some cm \<and> \<not> cm < pm"
    using d max_ptr_ge [OF num] by (auto simp: intersect_arg_def)
next
  fix pm assume "ac_Max d = Some pm"
  then show "\<exists>cm. ac_Max (intersect_arg a b) = Some cm \<and> \<not> pm < cm"
    using d min_ptr_le [OF num] by (auto simp: intersect_arg_def)
qed

lemma scope_intersect_subset [narrowing]:
  assumes i: "scope_intersect a b = Some s"
    and num: "scope_numeric a" "scope_numeric b"
    and clean: "scope_clean_args a" "scope_clean_args b"
    and wf: "wf_map (sc_Args a)" "wf_map (sc_Args b)" and d: "d = a \<or> d = b"
  shows "scope_subset s d"
proof -
  note s = scope_intersect_SomeD [OF i]
  have args: "\<exists>cc. lookup (sc_Args s) n = Some cc \<and> arg_subset cc c"
    if nc: "(n, c) \<in> set (sc_Args d)" for n c
  proof -
    have *: "arg_numeric x \<and> clean_pattern (ac_Pattern x)"
      if "lookup (sc_Args a) n = Some x \<or> lookup (sc_Args b) n = Some x" for x
      using that num clean
      by (fastforce simp: scope_numeric_def scope_clean_args_def list_all_iff dest: map_of_SomeD)
    have "lookup (sc_Args d) n = Some c"
      using nc d wf by (auto simp: wf_map_def)
    then show ?thesis
      using d * intersect_arg_subset unfolding s(4) lookup_merge_args [OF wf(2)]
      by (auto split: option.splits)
  qed
  show ?thesis
    unfolding scope_subset_iff
  proof (intro conjI ballI impI)
    show "pattern_subset (sc_Tool s) (sc_Tool d)"
      using pattern_intersect_subset [OF s(1)] d by auto
    show "sc_MaxCalls s \<le> sc_MaxCalls d" and "sc_RequireApproval d \<Longrightarrow> sc_RequireApproval s"
      using s(6,8) d by auto
    show "\<exists>pr \<in> set (sc_Resources d). pattern_subset cr pr" if "cr \<in> set (sc_Resources s)" for cr
      using that d pattern_intersect_subset unfolding s(2) set_intersect_resources by blast
    show "case nc of (n, pc) \<Rightarrow> \<exists>cc. lookup (sc_Args s) n = Some cc \<and> arg_subset cc pc"
      if "nc \<in> set (sc_Args d)" for nc
      using args that by auto
  qed
qed

subsection \<open>Narrowing as an interface\<close>

text \<open>
  Delegation at the broker and the holder's offline blocks both intersect a list of granted scopes
  with a list of requested ones. The locale states what they rely on; its lemmas are about such
  lists and about any number of successive intersections.
\<close>

definition meets :: "('s \<Rightarrow> 's \<Rightarrow> 's option) \<Rightarrow> 's list \<Rightarrow> 's list \<Rightarrow> 's list" where
  "meets meet parent requested = concat (map (\<lambda>r. List.map_filter (\<lambda>p. meet r p) parent) requested)"

lemma set_map_filter: "set (List.map_filter f xs) = {y. \<exists>x \<in> set xs. f x = Some y}"
  by (force simp: List.map_filter_def)

lemma set_meets: "set (meets meet ps rs) = {s. \<exists>r \<in> set rs. \<exists>p \<in> set ps. meet r p = Some s}"
  by (auto simp: meets_def set_map_filter)

lemma attenuate_meets: "attenuate ps rs = meets scope_intersect ps rs"
  by (simp add: attenuate_def meets_def)

locale authority_meet =
  fixes allows :: "'s \<Rightarrow> 'c \<Rightarrow> bool"
    and meet :: "'s \<Rightarrow> 's \<Rightarrow> 's option"
    and ok :: "'s \<Rightarrow> bool"
    and safe :: "'c \<Rightarrow> bool"
    and below :: "'s \<Rightarrow> 's \<Rightarrow> bool"
  assumes meet_allows:
      "meet r p = Some s \<Longrightarrow> ok r \<Longrightarrow> ok p \<Longrightarrow> safe c \<Longrightarrow> allows s c \<longleftrightarrow> allows r c \<and> allows p c"
    and meet_ok: "meet r p = Some s \<Longrightarrow> ok r \<Longrightarrow> ok p \<Longrightarrow> ok s"
    and meet_below: "meet r p = Some s \<Longrightarrow> below s r \<and> below s p"
    and below_refl: "below s s"
    and below_trans: "below s t \<Longrightarrow> below t u \<Longrightarrow> below s u"
begin

definition narrower :: "'s \<Rightarrow> 's \<Rightarrow> bool" where
  "narrower s p \<longleftrightarrow> below s p \<and> (\<forall>c. safe c \<longrightarrow> allows s c \<longrightarrow> allows p c)"

lemma narrower_refl: "narrower s s"
  by (simp add: narrower_def below_refl)

lemma narrower_trans: "narrower s t \<Longrightarrow> narrower t u \<Longrightarrow> narrower s u"
  by (auto simp: narrower_def intro: below_trans)

lemma meet_narrower:
  "meet r p = Some s \<Longrightarrow> ok r \<Longrightarrow> ok p \<Longrightarrow> narrower s r \<and> narrower s p"
  by (auto simp: narrower_def meet_allows dest: meet_below)

lemma meets_ok: "list_all ok ps \<Longrightarrow> list_all ok rs \<Longrightarrow> list_all ok (meets meet ps rs)"
  by (auto simp: list_all_iff set_meets intro: meet_ok)

lemma meets_narrower:
  assumes "s \<in> set (meets meet ps rs)" and "list_all ok ps" and "list_all ok rs"
  shows "\<exists>p \<in> set ps. narrower s p" and "\<exists>r \<in> set rs. narrower s r"
  using assms meet_narrower by (auto simp: set_meets list_all_iff) blast+

lemma meets_allows:
  assumes "list_all ok ps" and "list_all ok rs" and "safe c"
    and "\<exists>s \<in> set (meets meet ps rs). allows s c"
  shows "(\<exists>p \<in> set ps. allows p c) \<and> (\<exists>r \<in> set rs. allows r c)"
  using assms by (auto simp: set_meets list_all_iff meet_allows)

text \<open>Any number of successive intersections: whatever is left descends from the first list.\<close>

lemma foldl_meets_narrower:
  assumes "s \<in> set (foldl (meets meet) ps blocks)" and "list_all ok ps"
    and "\<forall>rs \<in> set blocks. list_all ok rs"
  shows "\<exists>p \<in> set ps. narrower s p"
  using assms
proof (induction blocks arbitrary: ps)
  case Nil
  then show ?case using narrower_refl by auto
next
  case (Cons rs blocks)
  then have "list_all ok (meets meet ps rs)" by (simp add: meets_ok)
  with Cons obtain q where q: "q \<in> set (meets meet ps rs)" "narrower s q" by auto
  then obtain p where "p \<in> set ps" "narrower q p"
    using meets_narrower(1) Cons.prems by (metis list.set_intros(1))
  with q show ?case using narrower_trans by blast
qed

end

text \<open>The order on what is not a set of calls: the budget and the approval flag.\<close>

definition budget_below :: "scope \<Rightarrow> scope \<Rightarrow> bool" where
  "budget_below s p \<longleftrightarrow> sc_MaxCalls s \<le> sc_MaxCalls p \<and> (sc_RequireApproval p \<longrightarrow> sc_RequireApproval s)"

interpretation scope_meet: authority_meet scope_allows scope_intersect scope_numeric clean_call budget_below
proof unfold_locales
  show "scope_allows s c \<longleftrightarrow> scope_allows r c \<and> scope_allows p c"
    if "scope_intersect r p = Some s" "scope_numeric r" "scope_numeric p" "clean_call c" for r p s c
    using scope_intersect_allows [OF that(1,4,2,3)] .
qed (auto simp: budget_below_def scope_intersect_SomeD(6,8) intro: scope_intersect_numeric)

subsection \<open>First match\<close>

lemma first_match_ge: "-1 \<le> first_match ss c"
  by (induction ss) (auto simp: Let_def)

lemma first_match_neg: "first_match ss c < 0 \<longleftrightarrow> (\<forall>s \<in> set ss. \<not> scope_allows s c)"
  by (induction ss) (auto simp: Let_def)

lemma first_match_nth:
  "0 \<le> first_match ss c \<Longrightarrow> nat (first_match ss c) < length ss \<and> scope_allows (ss ! nat (first_match ss c)) c
     \<and> (\<forall>j < nat (first_match ss c). \<not> scope_allows (ss ! j) c)"
proof (induction ss)
  case (Cons s ss)
  show ?case
  proof (cases "scope_allows s c \<or> first_match ss c < 0")
    case False
    with Cons have "0 \<le> first_match ss c" by simp
    with False Cons show ?thesis
      by (auto simp: Let_def nat_add_distrib less_Suc_eq_0_disj)
  qed (use Cons.prems in \<open>auto simp: Let_def split: if_splits\<close>)
qed simp

end
