(* ===== verification/Scope_Properties.thy ===== *)
theory Scope_Properties
  imports Scope_Narrowing
begin

section \<open>The properties of patterns, scopes and attenuation\<close>

text \<open>
  The claims about \<^verbatim>\<open>internal/token/scope.go\<close>, each a few lines over the lemmas of
  \<open>Token_Pattern\<close> and \<open>Scope_Narrowing\<close>, and the sample data of their witnesses.
\<close>

subsection \<open>Sample data\<close>

definition ex_root :: scope where
  "ex_root = \<lparr>sc_Tool = ''fs.*'', sc_Resources = [''repo/a/*''],
     sc_Args = [(''mode'', zero_constraint\<lparr>ac_Enum := Some [''r'', ''w'']\<rparr>),
                (''n'', zero_constraint\<lparr>ac_Max := Some (Fin 100)\<rparr>)],
     sc_MaxCalls = 20, sc_RequireApproval = False\<rparr>"

definition ex_request :: scope where
  "ex_request = \<lparr>sc_Tool = ''fs.read'', sc_Resources = [''repo/*'', ''db/x''],
     sc_Args = [(''mode'', zero_constraint\<lparr>ac_Pattern := ''r*''\<rparr>)],
     sc_MaxCalls = 5, sc_RequireApproval = True\<rparr>"

definition ex_call :: call where
  "ex_call = \<lparr>cl_Tool = ''fs.read'', cl_Resource = ''repo/a/x'',
     cl_Args = [(''mode'', VStr ''r''), (''n'', VFloat (Fin 7))]\<rparr>"

lemma ex_data:
  "clean_call ex_call" "no_nan_call ex_call" "scope_numeric ex_root" "scope_numeric ex_request"
  "0 < sc_MaxCalls ex_root" "0 < sc_MaxCalls ex_request"
  "scope_clean_args ex_root" "scope_clean_args ex_request"
  "wf_map (sc_Args ex_root)" "wf_map (sc_Args ex_request)"
  "scope_allows ex_root ex_call" "scope_allows ex_request ex_call"
  by code_simp+

lemma ex_attenuate:
  "attenuate [ex_root] [ex_request] =
     [\<lparr>sc_Tool = ''fs.read'', sc_Resources = [''repo/a/*''],
       sc_Args = [(''mode'', zero_constraint\<lparr>ac_Enum := Some [''r''], ac_EnumSet := True\<rparr>),
                  (''n'', zero_constraint\<lparr>ac_Max := Some (Fin 100)\<rparr>)],
       sc_MaxCalls = 5, sc_RequireApproval = True\<rparr>]"
  by code_simp

subsection \<open>Attenuation\<close>

lemma first_match_ex: "0 \<le> first_match ss c \<longleftrightarrow> (\<exists>s \<in> set ss. scope_allows s c)"
  using first_match_neg [of ss c] by (auto simp: linorder_not_less [symmetric])

lemma attenuate_memberE:
  assumes "s \<in> set (attenuate parent requested)"
  obtains r p where "r \<in> set requested" and "p \<in> set parent" and "scope_intersect r p = Some s"
  using assms by (auto simp: attenuate_meets set_meets)

lemma attenuate_complete:
  assumes "clean_call c" and "no_nan_call c" and "r \<in> set requested" and "p \<in> set parent"
    and "scope_numeric r \<and> 0 < sc_MaxCalls r" and "scope_numeric p \<and> 0 < sc_MaxCalls p"
    and "scope_allows r c" and "scope_allows p c"
  shows "\<exists>s \<in> set (attenuate parent requested). scope_allows s c"
proof -
  obtain s where s: "scope_intersect r p = Some s"
    using scope_intersect_Some assms by blast
  then have "scope_allows s c" using scope_intersect_allows assms by blast
  with s assms show ?thesis by (auto simp: attenuate_meets set_meets)
qed

lemma attenuate_allows:
  assumes "clean_call c" and "no_nan_call c"
    and "\<forall>s \<in> set parent \<union> set requested. scope_numeric s \<and> 0 < sc_MaxCalls s"
  shows "(\<exists>s \<in> set (attenuate parent requested). scope_allows s c)
     \<longleftrightarrow> (\<exists>p \<in> set parent. scope_allows p c) \<and> (\<exists>r \<in> set requested. scope_allows r c)"
proof
  assume "\<exists>s \<in> set (attenuate parent requested). scope_allows s c"
  then show "(\<exists>p \<in> set parent. scope_allows p c) \<and> (\<exists>r \<in> set requested. scope_allows r c)"
    using assms scope_meet.meets_allows [of parent requested c]
    by (auto simp: attenuate_meets list_all_iff)
next
  assume "(\<exists>p \<in> set parent. scope_allows p c) \<and> (\<exists>r \<in> set requested. scope_allows r c)"
  then obtain p r where "p \<in> set parent" "scope_allows p c" "r \<in> set requested" "scope_allows r c"
    by blast
  then show "\<exists>s \<in> set (attenuate parent requested). scope_allows s c"
    using assms(3) by (intro attenuate_complete [OF assms(1,2), of r requested p]) auto
qed

text \<open>
  \<^bold>\<open>C7.\<close> Attenuation is exact: for a clean JSON call, the scopes that \<^verbatim>\<open>Attenuate\<close> grants
  allow the call if and only if some parent scope and some requested scope allow it. So a
  delegate never gets a call its parent could not make, and loses none that was asked for and
  grantable.
\<close>

theorem attenuate_exact:
  assumes "clean_call c" and "no_nan_call c"
    and "\<forall>s \<in> set parent \<union> set requested. scope_numeric s \<and> 0 < sc_MaxCalls s"
  shows "0 \<le> first_match (attenuate parent requested) c
     \<longleftrightarrow> 0 \<le> first_match parent c \<and> 0 \<le> first_match requested c"
  unfolding first_match_ex by (rule attenuate_allows [OF assms])

theorem attenuate_exact_witness:
  "0 \<le> first_match (attenuate [ex_root] [ex_request]) ex_call
     \<longleftrightarrow> 0 \<le> first_match [ex_root] ex_call \<and> 0 \<le> first_match [ex_request] ex_call"
  using ex_data by (intro attenuate_exact) auto

text \<open>
  Every granted scope is a structural subset (\<^verbatim>\<open>Scope.Subset\<close>) of some parent scope and
  of some requested scope: its tool and resources are within theirs, every argument constraint
  is kept or tightened, its call budget is at most theirs and positive, and an approval
  requirement of either is kept.
\<close>

theorem attenuate_subset:
  assumes "\<forall>s \<in> set parent \<union> set requested.
      scope_numeric s \<and> scope_clean_args s \<and> wf_map (sc_Args s)"
    and "s \<in> set (attenuate parent requested)"
  shows "(\<exists>p \<in> set parent. scope_subset s p) \<and> (\<exists>r \<in> set requested. scope_subset s r)
     \<and> 0 < sc_MaxCalls s"
proof -
  obtain r p where rp: "r \<in> set requested" "p \<in> set parent" "scope_intersect r p = Some s"
    using assms(2) by (rule attenuate_memberE)
  with assms(1) have "scope_subset s r" "scope_subset s p"
    by (auto intro: scope_intersect_subset [OF rp(3)])
  with rp show ?thesis using scope_intersect_SomeD(7) by blast
qed

theorem attenuate_subset_witness:
  "attenuate [ex_root] [ex_request] \<noteq> [] \<and>
   (let s = hd (attenuate [ex_root] [ex_request]) in
     (\<exists>p \<in> set [ex_root]. scope_subset s p) \<and> (\<exists>r \<in> set [ex_request]. scope_subset s r)
     \<and> 0 < sc_MaxCalls s)"
  unfolding Let_def
  by (intro conjI [OF _ attenuate_subset]) (use ex_data in \<open>auto simp: ex_attenuate\<close>)

text \<open>
  The grant that lets a delegate make a call descends from a parent scope that allows the
  same call with at least its budget, and never without an approval the parent scope demands.
\<close>

theorem attenuate_keeps_approval:
  assumes "\<forall>s \<in> set parent \<union> set requested. scope_numeric s" and "clean_call c"
    and "first_match (attenuate parent requested) c = int i"
    and "attenuate parent requested ! i = s"
  shows "\<exists>p \<in> set parent. scope_allows p c \<and> sc_MaxCalls s \<le> sc_MaxCalls p
     \<and> (sc_RequireApproval p \<longrightarrow> sc_RequireApproval s)"
proof -
  have "s \<in> set (attenuate parent requested)" and "scope_allows s c"
    using first_match_nth [of "attenuate parent requested" c] assms(3,4) by auto
  moreover obtain p where "p \<in> set parent" "scope_meet.narrower s p"
    using scope_meet.meets_narrower(1) calculation(1) assms(1)
    by (auto simp: attenuate_meets list_all_iff) blast
  ultimately show ?thesis
    using assms(2) by (auto simp: scope_meet.narrower_def budget_below_def)
qed

theorem attenuate_keeps_approval_witness:
  "\<exists>p \<in> set [ex_root]. scope_allows p ex_call
     \<and> sc_MaxCalls (attenuate [ex_root] [ex_request] ! 0) \<le> sc_MaxCalls p
     \<and> (sc_RequireApproval p \<longrightarrow> sc_RequireApproval (attenuate [ex_root] [ex_request] ! 0))"
proof (rule attenuate_keeps_approval)
  show "first_match (attenuate [ex_root] [ex_request]) ex_call = int 0" by code_simp
qed (use ex_data in auto)

subsection \<open>Intersection and subset\<close>

text \<open>
  \<^verbatim>\<open>Intersect\<close> is exact. When it returns a scope, that scope allows exactly the clean calls
  both arguments allow; when it returns false, no clean JSON call is allowed by both (for
  positive budgets, which \<^verbatim>\<open>Validate\<close> demands).
\<close>

theorem scope_intersect_exact:
  assumes "clean_call c" and "no_nan_call c" and "scope_numeric a" and "scope_numeric b"
    and "0 < sc_MaxCalls a" and "0 < sc_MaxCalls b"
  shows "case scope_intersect a b of
      Some s \<Rightarrow> scope_allows s c \<longleftrightarrow> scope_allows a c \<and> scope_allows b c
    | None \<Rightarrow> \<not> (scope_allows a c \<and> scope_allows b c)"
  using scope_intersect_Some [OF assms] scope_intersect_allows [OF _ assms(1,3,4)]
  by (auto split: option.split)

theorem scope_intersect_exact_witness:
  "case scope_intersect ex_root ex_request of
      Some s \<Rightarrow> scope_allows s ex_call \<longleftrightarrow> scope_allows ex_root ex_call \<and> scope_allows ex_request ex_call
    | None \<Rightarrow> \<not> (scope_allows ex_root ex_call \<and> scope_allows ex_request ex_call)"
  by (rule scope_intersect_exact) (fact ex_data)+

text \<open>
  The structural subset test is sound: a clean call that a scope allows is allowed by every
  scope it is a \<^verbatim>\<open>Subset\<close> of.
\<close>

theorem scope_subset_sound:
  assumes "scopes_subset child parent" and "\<forall>s \<in> set child \<union> set parent. scope_numeric s"
    and "clean_call c" and "0 \<le> first_match child c"
  shows "0 \<le> first_match parent c"
  using assms scope_subset_allows
  by (fastforce simp: first_match_ex scopes_subset_def list_all_iff list_ex_iff)

theorem scope_subset_sound_witness: "0 \<le> first_match [ex_root] ex_call"
proof (rule scope_subset_sound [where child = "attenuate [ex_root] [ex_request]"])
  show "scopes_subset (attenuate [ex_root] [ex_request]) [ex_root]" by code_simp
  show "\<forall>s \<in> set (attenuate [ex_root] [ex_request]) \<union> set [ex_root]. scope_numeric s" by code_simp
  show "0 \<le> first_match (attenuate [ex_root] [ex_request]) ex_call" by code_simp
qed (fact ex_data)

subsection \<open>Patterns\<close>

text \<open>
  \<^verbatim>\<open>PatternIntersect\<close> is exact on subjects without a traversal: its result matches exactly
  the strings both patterns match, it fails only when there are none, and a valid pair gives a
  valid pattern.
\<close>

theorem pattern_intersect_exact:
  assumes "\<not> escapes_prefix s"
  shows "case pattern_intersect a b of
      Some p \<Rightarrow> (match_pat p s \<longleftrightarrow> match_pat a s \<and> match_pat b s)
        \<and> (validate_pattern a = None \<and> validate_pattern b = None \<longrightarrow> validate_pattern p = None)
    | None \<Rightarrow> \<not> (match_pat a s \<and> match_pat b s)"
  using pattern_intersect_match [OF _ assms, of a b] pattern_intersect_None [of a b s]
    validate_pattern_intersect [of a b]
  by (auto split: option.split)

theorem pattern_intersect_exact_witness:
  "case pattern_intersect ''repo/*'' ''repo/a*'' of
      Some p \<Rightarrow> (match_pat p ''repo/ab'' \<longleftrightarrow> match_pat ''repo/*'' ''repo/ab'' \<and> match_pat ''repo/a*'' ''repo/ab'')
        \<and> (validate_pattern ''repo/*'' = None \<and> validate_pattern ''repo/a*'' = None \<longrightarrow> validate_pattern p = None)
    | None \<Rightarrow> \<not> (match_pat ''repo/*'' ''repo/ab'' \<and> match_pat ''repo/a*'' ''repo/ab'')"
  by (rule pattern_intersect_exact) code_simp

text \<open>
  A wildcard never matches a subject with a traversal: whatever a wildcard matches starts
  with its prefix, has no backslash and no NUL, none of the four percent encodings in any letter
  case, and no \<^verbatim>\<open>..\<close> between slashes.
\<close>

theorem wildcard_never_escapes:
  assumes "is_wild p" and "match_pat p s"
  shows "prefix (pat_prefix p) s \<and> CHR 0x5C \<notin> set s \<and> CHR 0x00 \<notin> set s
     \<and> list_all (\<lambda>e. \<not> sublist e (to_lower s)) [''%2e'', ''%2f'', ''%5c'', ''%00'']
     \<and> ''..'' \<notin> set (split_byte s (CHR ''/''))"
  using assms by (auto simp: match_wild escapes_prefix_iff)

theorem wildcard_never_escapes_witness:
  "prefix (pat_prefix ''repo/*'') ''repo/ab'' \<and> CHR 0x5C \<notin> set ''repo/ab'' \<and> CHR 0x00 \<notin> set ''repo/ab''
     \<and> list_all (\<lambda>e. \<not> sublist e (to_lower ''repo/ab'')) [''%2e'', ''%2f'', ''%5c'', ''%00'']
     \<and> ''..'' \<notin> set (split_byte ''repo/ab'' (CHR ''/''))"
  by (rule wildcard_never_escapes) code_simp+

subsection \<open>The exception: a literal with a traversal\<close>

text \<open>
  The subset test accepts a literal under a wildcard without looking for a traversal. So a
  parent that holds the wildcard \<open>w\<close>, and may not use the resource \<open>r\<close> below it because \<open>r\<close> is a
  traversal, can be asked for the literal \<open>r\<close>: attenuation grants it, the structural check
  calls it a subset, and the delegate may make the call its parent may not.
\<close>

theorem attenuation_admits_traversal:
  fixes t w r :: string and n :: int and b :: bool
  defines "parent \<equiv> \<lparr>sc_Tool = t, sc_Resources = [w], sc_Args = [], sc_MaxCalls = n, sc_RequireApproval = b\<rparr>"
    and "request \<equiv> \<lparr>sc_Tool = t, sc_Resources = [r], sc_Args = [], sc_MaxCalls = n, sc_RequireApproval = b\<rparr>"
    and "attempt \<equiv> \<lparr>cl_Tool = t, cl_Resource = r, cl_Args = []\<rparr>"
  assumes "is_wild w" and "\<not> is_wild r" and "prefix (pat_prefix w) r" and "escapes_prefix r"
    and "\<not> is_wild t" and "0 < n"
  shows "attenuate [parent] [request] = [request] \<and> scopes_subset [request] [parent]
     \<and> first_match [parent] attempt = -1 \<and> first_match [request] attempt = 0"
proof -
  have "pattern_intersect r w = Some r"
    using assms pattern_subset_escape(1) by (simp add: pattern_intersect_def)
  then have "scope_intersect request parent = Some request"
    using assms(9)
    by (simp add: scope_intersect_def request_def parent_def intersect_resources_def merge_args_def
        pattern_intersect_def)
  moreover have "scope_subset request parent"
    using assms by (simp add: scope_subset_iff request_def parent_def pattern_subset_def)
  moreover have "\<not> scope_allows parent attempt" and "scope_allows request attempt"
    using assms by (auto simp: scope_allows_iff request_def parent_def attempt_def match_pat_def)
  ultimately show ?thesis
    by (simp add: attenuate_meets meets_def List.map_filter_simps scopes_subset_def)
qed

theorem attenuation_admits_traversal_witness:
  "let parent = \<lparr>sc_Tool = ''fs.read'', sc_Resources = [''repo/acme/docs/*''], sc_Args = [],
                  sc_MaxCalls = 5, sc_RequireApproval = False\<rparr>;
       request = \<lparr>sc_Tool = ''fs.read'', sc_Resources = [''repo/acme/docs/../secrets''], sc_Args = [],
                  sc_MaxCalls = 5, sc_RequireApproval = False\<rparr>;
       attempt = \<lparr>cl_Tool = ''fs.read'', cl_Resource = ''repo/acme/docs/../secrets'', cl_Args = []\<rparr>
   in attenuate [parent] [request] = [request] \<and> scopes_subset [request] [parent]
     \<and> first_match [parent] attempt = -1 \<and> first_match [request] attempt = 0"
  unfolding Let_def by (rule attenuation_admits_traversal) code_simp+

end
