(* ===== verification/Policy_Engine.thy ===== *)
theory Policy_Engine
  imports Scope_Narrowing "HOL-Library.Multiset"
begin

section \<open>The policy engine (\<^verbatim>\<open>internal/policy/policy.go\<close>)\<close>

text \<open>
  Rules, conditions and requests are the structs of the source; \<open>parse_policy\<close>, \<open>rule_matches\<close>,
  \<open>evaluate\<close> and \<open>forbids\<close> are its functions. A nil set is \<open>None\<close>. The JSON decoder is an
  argument of \<open>parse_policy\<close>. The lemmas give the specification of the evaluation loop: deny
  overrides, default deny, the permit with the largest depth, and independence of rule order.
\<close>

subsection \<open>Data\<close>

record cond =
  co_MaxDepth :: "int option"
  co_Args :: "arg_constraint gomap"
  co_HoursUTC :: "int list"

record rule =
  ru_ID :: string
  ru_Effect :: string
  ru_Action :: string
  ru_Principal :: string
  ru_Human :: string
  ru_Tool :: string
  ru_Resource :: string
  ru_When :: "cond option"
  ru_AllowDepth :: int

record policy_set =
  ps_Version :: string
  ps_Rules :: "rule list"

record policy_request =
  rq_Action :: string
  rq_Principal :: string
  rq_Human :: string
  rq_Depth :: int
  rq_Call :: call
  rq_HourUTC :: int

record policy_decision =
  pd_Allow :: bool
  pd_Reason :: string
  pd_RuleID :: string
  pd_AllowDepth :: int

definition ActionCall :: string where "ActionCall = ''call''"
definition ActionMint :: string where "ActionMint = ''mint''"
definition ActionDelegate :: string where "ActionDelegate = ''delegate''"

datatype policy_err = PolicyJSON | BadEffect int string | BadRulePattern string pattern_err

subsection \<open>Operations\<close>

fun check_rules :: "int \<Rightarrow> rule list \<Rightarrow> policy_err option" where
  "check_rules i [] = None"
| "check_rules i (r # rs) =
     (if ru_Effect r \<noteq> ''permit'' \<and> ru_Effect r \<noteq> ''forbid'' then Some (BadEffect i (ru_ID r))
      else
        (case first_err (\<lambda>p. if p \<noteq> [] then validate_pattern p else None)
                [ru_Principal r, ru_Human r, ru_Tool r, ru_Resource r] of
           Some e \<Rightarrow> Some (BadRulePattern (ru_ID r) e)
         | None \<Rightarrow> check_rules (i + 1) rs))"

definition parse_policy :: "(string \<Rightarrow> policy_set option) \<Rightarrow> string \<Rightarrow> policy_err + policy_set" where
  "parse_policy unmarshal b =
     (case unmarshal b of
        None \<Rightarrow> Inl PolicyJSON
      | Some s \<Rightarrow> (case check_rules 0 (ps_Rules s) of Some e \<Rightarrow> Inl e | None \<Rightarrow> Inr s))"

definition pol_m :: "string \<Rightarrow> string \<Rightarrow> bool" where
  "pol_m p s \<longleftrightarrow> p = [] \<or> match_pat p s"

definition cond_holds :: "cond \<Rightarrow> policy_request \<Rightarrow> bool" where
  "cond_holds c q =
     (if (case co_MaxDepth c of None \<Rightarrow> False | Some d \<Rightarrow> d < rq_Depth q) then False
      else if \<not> list_all (\<lambda>(n, con). allows_arg con (lookup (cl_Args (rq_Call q)) n)) (co_Args c) then False
      else if length (co_HoursUTC c) = 2
        \<and> (rq_HourUTC q < co_HoursUTC c ! 0 \<or> co_HoursUTC c ! 1 \<le> rq_HourUTC q) then False
      else True)"

definition rule_matches :: "rule \<Rightarrow> policy_request \<Rightarrow> bool" where
  "rule_matches r q =
     (if ru_Action r \<noteq> [] \<and> ru_Action r \<noteq> rq_Action q then False
      else if \<not> pol_m (ru_Principal r) (rq_Principal q) \<or> \<not> pol_m (ru_Human r) (rq_Human q)
        \<or> \<not> pol_m (ru_Tool r) (cl_Tool (rq_Call q)) \<or> \<not> pol_m (ru_Resource r) (cl_Resource (rq_Call q))
        then False
      else (case ru_When r of None \<Rightarrow> True | Some c \<Rightarrow> cond_holds c q))"

text \<open>The loop of \<^verbatim>\<open>Evaluate\<close>, with the permit found so far.\<close>

fun evaluate_rules :: "policy_request \<Rightarrow> rule list \<Rightarrow> rule option \<Rightarrow> policy_decision" where
  "evaluate_rules q [] permit =
     (case permit of
        None \<Rightarrow> \<lparr>pd_Allow = False, pd_Reason = ''no permit rule matched (default deny)'',
                 pd_RuleID = [], pd_AllowDepth = 0\<rparr>
      | Some p \<Rightarrow> \<lparr>pd_Allow = True, pd_Reason = ''permitted by rule '' @ ru_ID p,
                   pd_RuleID = ru_ID p, pd_AllowDepth = ru_AllowDepth p\<rparr>)"
| "evaluate_rules q (r # rs) permit =
     (if \<not> rule_matches r q then evaluate_rules q rs permit
      else if ru_Effect r = ''forbid'' then
        \<lparr>pd_Allow = False, pd_Reason = ''forbidden by rule '' @ ru_ID r,
         pd_RuleID = ru_ID r, pd_AllowDepth = 0\<rparr>
      else evaluate_rules q rs
        (case permit of None \<Rightarrow> Some r
         | Some p \<Rightarrow> if ru_AllowDepth p < ru_AllowDepth r then Some r else permit))"

definition evaluate :: "policy_set option \<Rightarrow> policy_request \<Rightarrow> policy_decision" where
  "evaluate s q =
     (case s of
        None \<Rightarrow> \<lparr>pd_Allow = False, pd_Reason = ''no policy loaded (default deny)'',
                 pd_RuleID = [], pd_AllowDepth = 0\<rparr>
      | Some p \<Rightarrow> evaluate_rules q (ps_Rules p) None)"

definition forbids :: "policy_set option \<Rightarrow> string \<Rightarrow> string \<Rightarrow> rule list" where
  "forbids s prin human =
     (case s of
        None \<Rightarrow> []
      | Some p \<Rightarrow> filter (\<lambda>r. ru_Effect r = ''forbid'' \<and> (ru_Action r = [] \<or> ru_Action r = ActionCall)
                      \<and> pol_m (ru_Principal r) prin \<and> pol_m (ru_Human r) human) (ps_Rules p))"

subsection \<open>The specification of the loop\<close>

definition forbidding :: "policy_request \<Rightarrow> rule \<Rightarrow> bool" where
  "forbidding q r \<longleftrightarrow> rule_matches r q \<and> ru_Effect r = ''forbid''"

definition permitting :: "policy_request \<Rightarrow> rule \<Rightarrow> bool" where
  "permitting q r \<longleftrightarrow> rule_matches r q \<and> ru_Effect r \<noteq> ''forbid''"

text \<open>The first of the permits with the largest \<^verbatim>\<open>allow_depth\<close>.\<close>

fun best_permit :: "rule option \<Rightarrow> rule list \<Rightarrow> rule option" where
  "best_permit p [] = p"
| "best_permit p (r # rs) =
     best_permit (case p of None \<Rightarrow> Some r | Some x \<Rightarrow> if ru_AllowDepth x < ru_AllowDepth r then Some r else p) rs"

lemma evaluate_rules_forbid:
  "\<exists>r \<in> set rs. forbidding q r \<Longrightarrow>
     \<exists>r. find (forbidding q) rs = Some r
       \<and> evaluate_rules q rs p = \<lparr>pd_Allow = False, pd_Reason = ''forbidden by rule '' @ ru_ID r,
            pd_RuleID = ru_ID r, pd_AllowDepth = 0\<rparr>"
  by (induction rs arbitrary: p) (auto simp: forbidding_def)

lemma evaluate_rules_permit:
  "\<forall>r \<in> set rs. \<not> forbidding q r \<Longrightarrow>
     evaluate_rules q rs p = evaluate_rules q [] (best_permit p (filter (permitting q) rs))"
proof (induction rs arbitrary: p)
  case (Cons r rs)
  then have "rule_matches r q \<Longrightarrow> ru_Effect r \<noteq> ''forbid''" by (auto simp: forbidding_def)
  with Cons show ?case by (simp add: permitting_def del: evaluate_rules.simps(1))
qed simp

lemma best_permit_None: "best_permit p rs = None \<longleftrightarrow> p = None \<and> rs = []"
  by (induction rs arbitrary: p) (auto split: option.splits)

lemma best_permit_Some:
  "best_permit p rs = Some x \<Longrightarrow>
     (p = Some x \<or> x \<in> set rs) \<and> (\<forall>y. p = Some y \<or> y \<in> set rs \<longrightarrow> ru_AllowDepth y \<le> ru_AllowDepth x)"
proof (induction rs arbitrary: p)
  case (Cons r rs)
  from Cons.IH [of "case p of None \<Rightarrow> Some r | Some x \<Rightarrow> if ru_AllowDepth x < ru_AllowDepth r then Some r else p"]
    Cons.prems
  show ?case by (cases p) (auto split: if_splits)
qed simp

lemma evaluate_no_forbid:
  "\<not> (\<exists>r \<in> set (ps_Rules s). forbidding q r) \<Longrightarrow>
     evaluate (Some s) q = evaluate_rules q [] (best_permit None (filter (permitting q) (ps_Rules s)))"
  unfolding evaluate_def option.case by (rule evaluate_rules_permit) blast

lemma evaluate_Allow_iff:
  "pd_Allow (evaluate (Some s) q) \<longleftrightarrow>
     \<not> (\<exists>r \<in> set (ps_Rules s). forbidding q r) \<and> (\<exists>r \<in> set (ps_Rules s). permitting q r)"
proof (cases "\<exists>r \<in> set (ps_Rules s). forbidding q r")
  case True
  then show ?thesis
    using evaluate_rules_forbid [OF True, of None] by (auto simp: evaluate_def)
next
  case False
  let ?ps = "filter (permitting q) (ps_Rules s)"
  have "pd_Allow (evaluate (Some s) q) \<longleftrightarrow> best_permit None ?ps \<noteq> None"
    unfolding evaluate_no_forbid [OF False] by (cases "best_permit None ?ps") simp_all
  also have "\<dots> \<longleftrightarrow> (\<exists>r \<in> set (ps_Rules s). permitting q r)"
    unfolding best_permit_None filter_empty_conv by blast
  finally show ?thesis using False by blast
qed

lemma evaluate_Allow_depth:
  assumes "pd_Allow (evaluate (Some s) q)"
  shows "\<exists>r \<in> set (ps_Rules s). permitting q r \<and> pd_RuleID (evaluate (Some s) q) = ru_ID r
     \<and> pd_AllowDepth (evaluate (Some s) q) = ru_AllowDepth r
     \<and> (\<forall>t \<in> set (ps_Rules s). permitting q t \<longrightarrow> ru_AllowDepth t \<le> ru_AllowDepth r)"
proof -
  let ?ps = "filter (permitting q) (ps_Rules s)"
  have e: "evaluate (Some s) q = evaluate_rules q [] (best_permit None ?ps)"
    using assms evaluate_Allow_iff by (intro evaluate_no_forbid) blast
  with assms obtain x where x: "best_permit None ?ps = Some x"
    by (cases "best_permit None ?ps") simp_all
  have "x \<in> set ?ps" and "\<forall>y \<in> set ?ps. ru_AllowDepth y \<le> ru_AllowDepth x"
    using best_permit_Some [OF x] by simp_all
  then show ?thesis unfolding e x by auto
qed

lemma evaluate_denied_depth: "\<not> pd_Allow (evaluate s q) \<Longrightarrow> pd_AllowDepth (evaluate s q) = 0"
proof -
  have "\<not> pd_Allow (evaluate_rules q rs p) \<Longrightarrow> pd_AllowDepth (evaluate_rules q rs p) = 0" for rs p
    by (induction rs arbitrary: p) (auto split: option.splits)
  then show "\<not> pd_Allow (evaluate s q) \<Longrightarrow> pd_AllowDepth (evaluate s q) = 0"
    by (auto simp: evaluate_def split: option.splits)
qed

lemma check_rules_None:
  "check_rules i rs = None \<longleftrightarrow>
     (\<forall>r \<in> set rs. ru_Effect r \<in> {''permit'', ''forbid''}
        \<and> (\<forall>p \<in> {ru_Principal r, ru_Human r, ru_Tool r, ru_Resource r}. p = [] \<or> validate_pattern p = None))"
proof (induction rs arbitrary: i)
  case (Cons r rs)
  let ?ps = "[ru_Principal r, ru_Human r, ru_Tool r, ru_Resource r]"
  have opt: "(if p \<noteq> [] then validate_pattern p else None) = None \<longleftrightarrow> p = [] \<or> validate_pattern p = None" for p by simp
  have step: "(if c then Some x else (case z of Some e \<Rightarrow> Some (f e) | None \<Rightarrow> y)) = None \<longleftrightarrow> \<not> c \<and> z = None \<and> y = None"
    for c x z y and f :: "pattern_err \<Rightarrow> policy_err" by (simp split: option.split)
  show ?case
    unfolding check_rules.simps step Cons first_err_None opt
    by (simp only: list.set ball_simps de_Morgan_conj not_not insert_iff empty_iff conj_assoc simp_thms)
qed simp

subsection \<open>Properties\<close>

text \<open>
  \<^bold>\<open>C21.\<close> Deny overrides, and the default is to deny: a request is allowed exactly when a policy is
  loaded, some rule that is not a forbid matches it, and no forbid rule matches it, wherever
  these rules stand in the list.
\<close>

theorem evaluate_deny_overrides:
  "pd_Allow (evaluate s q) \<longleftrightarrow>
     (\<exists>p. s = Some p
        \<and> (\<exists>r \<in> set (ps_Rules p). rule_matches r q \<and> ru_Effect r \<noteq> ''forbid'')
        \<and> \<not> (\<exists>r \<in> set (ps_Rules p). rule_matches r q \<and> ru_Effect r = ''forbid''))"
proof (cases s)
  case None
  then show ?thesis by (simp add: evaluate_def)
next
  case (Some p)
  then show ?thesis
    using evaluate_Allow_iff [of p q] by (auto simp: permitting_def forbidding_def)
qed

text \<open>
  A policy that \<^verbatim>\<open>Parse\<close> accepts allows a request only through a rule whose effect is
  literally \<^verbatim>\<open>permit\<close>; every pattern of its rules is empty or well formed, and the verdict does
  not depend on the order of the rules.
\<close>

theorem parse_policy_sound:
  assumes "parse_policy unmarshal b = Inr s"
  shows "(\<forall>r \<in> set (ps_Rules s). ru_Effect r \<in> {''permit'', ''forbid''}
        \<and> (\<forall>p \<in> {ru_Principal r, ru_Human r, ru_Tool r, ru_Resource r}. p = [] \<or> validate_pattern p = None))
     \<and> (pd_Allow (evaluate (Some s) q) \<longleftrightarrow>
        (\<exists>r \<in> set (ps_Rules s). rule_matches r q \<and> ru_Effect r = ''permit'')
        \<and> \<not> (\<exists>r \<in> set (ps_Rules s). rule_matches r q \<and> ru_Effect r = ''forbid''))"
proof
  have "check_rules 0 (ps_Rules s) = None"
    using assms by (auto simp: parse_policy_def split: option.splits)
  then show v: "\<forall>r \<in> set (ps_Rules s). ru_Effect r \<in> {''permit'', ''forbid''}
      \<and> (\<forall>p \<in> {ru_Principal r, ru_Human r, ru_Tool r, ru_Resource r}. p = [] \<or> validate_pattern p = None)"
    by (simp only: check_rules_None)
  have "ru_Effect r \<noteq> ''forbid'' \<longleftrightarrow> ru_Effect r = ''permit''" if "r \<in> set (ps_Rules s)" for r
    using v that by fastforce
  then show "pd_Allow (evaluate (Some s) q) \<longleftrightarrow>
        (\<exists>r \<in> set (ps_Rules s). rule_matches r q \<and> ru_Effect r = ''permit'')
        \<and> \<not> (\<exists>r \<in> set (ps_Rules s). rule_matches r q \<and> ru_Effect r = ''forbid'')"
    unfolding evaluate_Allow_iff permitting_def forbidding_def by blast
qed

definition ex_rule :: rule where
  "ex_rule = \<lparr>ru_ID = ''p1'', ru_Effect = ''permit'', ru_Action = ActionCall, ru_Principal = [],
     ru_Human = ''alice*'', ru_Tool = ''fs.*'', ru_Resource = [],
     ru_When = Some \<lparr>co_MaxDepth = Some 1, co_Args = [], co_HoursUTC = [9, 17]\<rparr>, ru_AllowDepth = 2\<rparr>"

definition ex_forbid :: rule where
  "ex_forbid = \<lparr>ru_ID = ''f1'', ru_Effect = ''forbid'', ru_Action = [], ru_Principal = [], ru_Human = [],
     ru_Tool = ''fs.delete'', ru_Resource = [], ru_When = None, ru_AllowDepth = 0\<rparr>"

definition ex_policy :: policy_set where
  "ex_policy = \<lparr>ps_Version = ''v1'', ps_Rules = [ex_rule, ex_forbid]\<rparr>"

definition ex_policy_request :: policy_request where
  "ex_policy_request = \<lparr>rq_Action = ActionCall, rq_Principal = ''w'', rq_Human = ''alice@x'', rq_Depth = 1,
     rq_Call = \<lparr>cl_Tool = ''fs.read'', cl_Resource = ''r'', cl_Args = []\<rparr>, rq_HourUTC = 10\<rparr>"

theorem parse_policy_sound_witness:
  "parse_policy (\<lambda>_. Some ex_policy) ''{}'' = Inr ex_policy
     \<and> pd_Allow (evaluate (Some ex_policy) ex_policy_request)
     \<and> (\<exists>r \<in> set (ps_Rules ex_policy). rule_matches r ex_policy_request \<and> ru_Effect r = ''permit'')"
proof -
  have p: "parse_policy (\<lambda>_. Some ex_policy) ''{}'' = Inr ex_policy" by code_simp
  have "pd_Allow (evaluate (Some ex_policy) ex_policy_request)" by code_simp
  with p parse_policy_sound [OF p, of ex_policy_request] show ?thesis by blast
qed

text \<open>
  The verdict and the granted depth depend on the rules as a bag, not on their order.
\<close>

theorem evaluate_order_independent:
  assumes "mset (ps_Rules s) = mset (ps_Rules t)"
  shows "pd_Allow (evaluate (Some s) q) = pd_Allow (evaluate (Some t) q)
     \<and> pd_AllowDepth (evaluate (Some s) q) = pd_AllowDepth (evaluate (Some t) q)"
proof -
  have rules: "set (ps_Rules s) = set (ps_Rules t)"
    using assms by (rule mset_eq_setD)
  then have allow: "pd_Allow (evaluate (Some s) q) = pd_Allow (evaluate (Some t) q)"
    by (simp only: evaluate_Allow_iff)
  moreover have "pd_AllowDepth (evaluate (Some s) q) = pd_AllowDepth (evaluate (Some t) q)"
  proof (cases "pd_Allow (evaluate (Some s) q)")
    case True
    then obtain r where r: "r \<in> set (ps_Rules s)" "permitting q r"
      "pd_AllowDepth (evaluate (Some s) q) = ru_AllowDepth r"
      "\<forall>t \<in> set (ps_Rules s). permitting q t \<longrightarrow> ru_AllowDepth t \<le> ru_AllowDepth r"
      using evaluate_Allow_depth by blast
    obtain r' where r': "r' \<in> set (ps_Rules t)" "permitting q r'"
      "pd_AllowDepth (evaluate (Some t) q) = ru_AllowDepth r'"
      "\<forall>u \<in> set (ps_Rules t). permitting q u \<longrightarrow> ru_AllowDepth u \<le> ru_AllowDepth r'"
      using True allow evaluate_Allow_depth by blast
    show ?thesis using r r' rules by (metis order_antisym)
  next
    case False
    with allow show ?thesis by (simp add: evaluate_denied_depth)
  qed
  ultimately show ?thesis ..
qed

theorem evaluate_order_independent_witness:
  "pd_Allow (evaluate (Some (ex_policy\<lparr>ps_Rules := [ex_forbid, ex_rule]\<rparr>)) ex_policy_request)
     = pd_Allow (evaluate (Some ex_policy) ex_policy_request)
   \<and> pd_AllowDepth (evaluate (Some (ex_policy\<lparr>ps_Rules := [ex_forbid, ex_rule]\<rparr>)) ex_policy_request)
     = pd_AllowDepth (evaluate (Some ex_policy) ex_policy_request)"
  by (rule evaluate_order_independent) (simp add: ex_policy_def)

text \<open>
  An allowed request carries the id of a rule that permits it, and the depth it grants is the
  largest \<^verbatim>\<open>allow_depth\<close> of all the rules that permit it.
\<close>

theorem evaluate_grants_max_depth:
  assumes "pd_Allow (evaluate s q)"
  shows "\<exists>p r. s = Some p \<and> r \<in> set (ps_Rules p) \<and> rule_matches r q \<and> ru_Effect r \<noteq> ''forbid''
     \<and> pd_RuleID (evaluate s q) = ru_ID r \<and> pd_AllowDepth (evaluate s q) = ru_AllowDepth r
     \<and> (\<forall>t \<in> set (ps_Rules p). rule_matches t q \<and> ru_Effect t \<noteq> ''forbid''
            \<longrightarrow> ru_AllowDepth t \<le> ru_AllowDepth r)"
proof (cases s)
  case None
  with assms show ?thesis by (simp add: evaluate_def)
next
  case (Some p)
  with assms evaluate_Allow_depth [of p q] show ?thesis
    unfolding permitting_def by blast
qed

theorem evaluate_grants_max_depth_witness:
  "pd_RuleID (evaluate (Some ex_policy) ex_policy_request) = ''p1''
     \<and> pd_AllowDepth (evaluate (Some ex_policy) ex_policy_request) = 2"
proof -
  have "pd_Allow (evaluate (Some ex_policy) ex_policy_request)" by code_simp
  then obtain p r where "Some ex_policy = Some p" "r \<in> set (ps_Rules p)" "ru_Effect r \<noteq> ''forbid''"
    "pd_RuleID (evaluate (Some ex_policy) ex_policy_request) = ru_ID r"
    "pd_AllowDepth (evaluate (Some ex_policy) ex_policy_request) = ru_AllowDepth r"
    using evaluate_grants_max_depth by meson
  then show ?thesis by (auto simp: ex_policy_def ex_rule_def ex_forbid_def)
qed

text \<open>
  The forbid rules listed by \<^verbatim>\<open>Forbids\<close> for a principal and a human are enough to predict
  every forbidden call: a call is denied by a forbid rule exactly when one of the listed rules
  matches it.
\<close>

theorem forbids_complete:
  assumes "rq_Action q = ActionCall"
  shows "pd_Allow (evaluate (Some p) q) \<longleftrightarrow>
     (\<exists>r \<in> set (ps_Rules p). rule_matches r q \<and> ru_Effect r \<noteq> ''forbid'')
     \<and> \<not> (\<exists>r \<in> set (forbids (Some p) (rq_Principal q) (rq_Human q)). rule_matches r q)"
proof -
  have "(\<exists>r \<in> set (ps_Rules p). forbidding q r)
      \<longleftrightarrow> (\<exists>r \<in> set (forbids (Some p) (rq_Principal q) (rq_Human q)). rule_matches r q)"
    using assms by (auto simp: forbids_def forbidding_def rule_matches_def split: if_splits)
  then show ?thesis unfolding evaluate_Allow_iff permitting_def by blast
qed

theorem forbids_complete_witness:
  "pd_Allow (evaluate (Some ex_policy) ex_policy_request) \<longleftrightarrow>
     (\<exists>r \<in> set (ps_Rules ex_policy). rule_matches r ex_policy_request \<and> ru_Effect r \<noteq> ''forbid'')
     \<and> \<not> (\<exists>r \<in> set (forbids (Some ex_policy) (rq_Principal ex_policy_request) (rq_Human ex_policy_request)).
           rule_matches r ex_policy_request)"
  by (rule forbids_complete) (simp add: ex_policy_request_def)

end
