(* ===== verification/Go_Base64.thy ===== *)
theory Go_Base64
  imports Warrant_Prelude
begin

section \<open>Packages encoding/base64, encoding/hex and strconv as the sources use them\<close>

text \<open>
  Three of Go's encodings occur: \<^verbatim>\<open>RawURLEncoding\<close> (tokens, thumbprints, proofs), the same with
  \<^verbatim>\<open>Strict()\<close> (license keys), and \<^verbatim>\<open>StdEncoding\<close> with padding (receipts, key files). Decoding
  skips carriage returns and line feeds wherever they stand, also in strict mode, and rejects
  every other character outside the alphabet. Strict mode also rejects non-zero trailing bits.
\<close>

definition url_alphabet :: string where
  "url_alphabet = ''ABCDEFGHIJKLMNOPQRSTUVWXYZabcdefghijklmnopqrstuvwxyz0123456789-_''"

definition std_alphabet :: string where
  "std_alphabet = ''ABCDEFGHIJKLMNOPQRSTUVWXYZabcdefghijklmnopqrstuvwxyz0123456789+/''"

subsection \<open>Bytes and sextets\<close>

fun to_sextets :: "nat list \<Rightarrow> nat list" where
  "to_sextets [] = []"
| "to_sextets [a] = [a div 4, (a mod 4) * 16]"
| "to_sextets [a, b] = [a div 4, (a mod 4) * 16 + b div 16, (b mod 16) * 4]"
| "to_sextets (a # b # c # bs) =
     a div 4 # ((a mod 4) * 16 + b div 16) # ((b mod 16) * 4 + c div 64) # c mod 64 # to_sextets bs"

text \<open>A last group of two or three sextets leaves four or two bits over, which strict mode checks.\<close>

fun of_sextets :: "bool \<Rightarrow> nat list \<Rightarrow> nat list option" where
  "of_sextets strict [] = Some []"
| "of_sextets strict [x] = None"
| "of_sextets strict [x, y] =
     (if strict \<and> y mod 16 \<noteq> 0 then None else Some [x * 4 + y div 16])"
| "of_sextets strict [x, y, z] =
     (if strict \<and> z mod 4 \<noteq> 0 then None else Some [x * 4 + y div 16, (y mod 16) * 16 + z div 4])"
| "of_sextets strict (x # y # z # w # ss) =
     map_option (\<lambda>bs. (x * 4 + y div 16) # ((y mod 16) * 16 + z div 4) # ((z mod 4) * 64 + w) # bs)
       (of_sextets strict ss)"

definition bytes_of :: "string \<Rightarrow> nat list" where
  "bytes_of s = map of_char s"

definition string_of :: "nat list \<Rightarrow> string" where
  "string_of bs = map char_of bs"

subsection \<open>Characters\<close>

fun position :: "'a list \<Rightarrow> 'a \<Rightarrow> nat option" where
  "position [] c = None"
| "position (x # xs) c = (if x = c then Some 0 else map_option Suc (position xs c))"

fun sextets_of :: "string \<Rightarrow> string \<Rightarrow> nat list option" where
  "sextets_of alphabet [] = Some []"
| "sextets_of alphabet (c # s) =
     (case position alphabet c of
        None \<Rightarrow> None
      | Some i \<Rightarrow> map_option (\<lambda>is. i # is) (sextets_of alphabet s))"

definition skip_newlines :: "string \<Rightarrow> string" where
  "skip_newlines s = filter (\<lambda>c. c \<noteq> CHR 0x0A \<and> c \<noteq> CHR 0x0D) s"

subsection \<open>The encodings\<close>

definition raw_url_encode :: "string \<Rightarrow> string" where
  "raw_url_encode s = map (\<lambda>i. url_alphabet ! i) (to_sextets (bytes_of s))"

definition raw_url_decode :: "bool \<Rightarrow> string \<Rightarrow> string option" where
  "raw_url_decode strict s =
     (case sextets_of url_alphabet (skip_newlines s) of
        None \<Rightarrow> None
      | Some is \<Rightarrow> map_option string_of (of_sextets strict is))"

definition std_encode :: "string \<Rightarrow> string" where
  "std_encode s =
     (let r = length s mod 3 in
      map (\<lambda>i. std_alphabet ! i) (to_sextets (bytes_of s))
        @ (if r = 1 then ''=='' else if r = 2 then ''='' else []))"

text \<open>The padding that ends the input: at most two \<^verbatim>\<open>=\<close>, which must fill the last group of four.\<close>

definition strip_padding :: "string \<Rightarrow> string" where
  "strip_padding s =
     (if has_suffix s ''=='' then take (length s - 2) s
      else if has_suffix s ''='' then take (length s - 1) s else s)"

definition std_decode :: "string \<Rightarrow> string option" where
  "std_decode s =
     (let t = skip_newlines s in
      if length t mod 4 \<noteq> 0 then None
      else
        (case sextets_of std_alphabet (strip_padding t) of
           None \<Rightarrow> None
         | Some is \<Rightarrow> map_option string_of (of_sextets False is)))"

subsection \<open>Round trips\<close>

lemma of_to_sextets:
  "\<forall>b \<in> set bs. b < 256 \<Longrightarrow> of_sextets strict (to_sextets bs) = Some bs"
  by (induction bs rule: to_sextets.induct) (auto simp: div_mult2_eq [symmetric])

lemma to_sextets_less: "\<forall>b \<in> set bs. b < 256 \<Longrightarrow> \<forall>i \<in> set (to_sextets bs). i < 64"
  by (induction bs rule: to_sextets.induct) auto

lemma bytes_less: "\<forall>b \<in> set (bytes_of s). b < 256"
  by (auto simp: bytes_of_def)

lemma string_of_bytes_of [simp]: "string_of (bytes_of s) = s"
  by (simp add: string_of_def bytes_of_def comp_def)

lemma position_nth: "distinct xs \<Longrightarrow> i < length xs \<Longrightarrow> position xs (xs ! i) = Some i"
  by (induction xs arbitrary: i) (auto simp: nth_Cons split: nat.splits)

lemma position_Some: "position xs c = Some i \<Longrightarrow> i < length xs \<and> xs ! i = c"
  by (induction xs arbitrary: i) (auto split: if_splits)

lemma sextets_of_map:
  "distinct alphabet \<Longrightarrow> \<forall>i \<in> set is. i < length alphabet \<Longrightarrow>
     sextets_of alphabet (map (\<lambda>i. alphabet ! i) is) = Some is"
  by (induction "is") (auto simp: position_nth)

lemma sextets_of_Some:
  "sextets_of alphabet s = Some is \<Longrightarrow>
     s = map (\<lambda>i. alphabet ! i) is \<and> (\<forall>i \<in> set is. i < length alphabet)"
  by (induction s arbitrary: "is") (auto split: option.splits dest: position_Some)

lemma alphabets:
  "distinct url_alphabet" "length url_alphabet = 64"
  "distinct std_alphabet" "length std_alphabet = 64"
  "CHR 0x0A \<notin> set url_alphabet" "CHR 0x0D \<notin> set url_alphabet" "CHR ''.'' \<notin> set url_alphabet"
  "CHR 0x0A \<notin> set std_alphabet" "CHR 0x0D \<notin> set std_alphabet" "CHR ''='' \<notin> set std_alphabet"
  by code_simp+

lemma raw_url_encode_chars: "set (raw_url_encode s) \<subseteq> set url_alphabet"
  using to_sextets_less [OF bytes_less] by (auto simp: raw_url_encode_def alphabets)

lemma raw_url_encode_no_dot [simp]: "CHR ''.'' \<notin> set (raw_url_encode s)"
  using raw_url_encode_chars alphabets(7) by blast

lemma skip_newlines_id: "CHR 0x0A \<notin> set s \<Longrightarrow> CHR 0x0D \<notin> set s \<Longrightarrow> skip_newlines s = s"
  unfolding skip_newlines_def by (rule filter_True) blast

lemma raw_url_roundtrip [simp]: "raw_url_decode strict (raw_url_encode s) = Some s"
proof -
  have "skip_newlines (raw_url_encode s) = raw_url_encode s"
    using raw_url_encode_chars alphabets by (intro skip_newlines_id) blast+
  moreover have "sextets_of url_alphabet (raw_url_encode s) = Some (to_sextets (bytes_of s))"
    unfolding raw_url_encode_def using to_sextets_less [OF bytes_less] alphabets
    by (intro sextets_of_map) auto
  ultimately show ?thesis
    by (simp add: raw_url_decode_def of_to_sextets bytes_less)
qed

lemma to_of_sextets:
  "of_sextets True is = Some bs \<Longrightarrow> \<forall>i \<in> set is. i < 64 \<Longrightarrow>
     to_sextets bs = is \<and> (\<forall>b \<in> set bs. b < 256)"
proof (induction True "is" arbitrary: bs rule: of_sextets.induct)
  case (3 x y)
  then show ?case by (auto split: if_splits elim!: dvdE simp: mod_eq_0_iff_dvd)
next
  case (4 x y z)
  then show ?case by (auto split: if_splits elim!: dvdE simp: mod_eq_0_iff_dvd)
next
  case (5 x y z w ss)
  then show ?case by auto
qed auto

text \<open>
  Strict decoding has one preimage up to the newlines it skips: a text decodes to \<open>b\<close> exactly
  when it is the encoding of \<open>b\<close> with carriage returns and line feeds interspersed.
\<close>

lemma raw_url_decode_strict:
  "raw_url_decode True s = Some b \<longleftrightarrow> skip_newlines s = raw_url_encode b"
proof
  assume "raw_url_decode True s = Some b"
  then obtain "is" bs where i: "sextets_of url_alphabet (skip_newlines s) = Some is"
    "of_sextets True is = Some bs" "b = string_of bs"
    by (auto simp: raw_url_decode_def split: option.splits)
  from sextets_of_Some [OF i(1)] have s: "skip_newlines s = map (\<lambda>i. url_alphabet ! i) is" "\<forall>i \<in> set is. i < 64"
    by (simp_all add: alphabets)
  from to_of_sextets [OF i(2) s(2)] have bs: "to_sextets bs = is" "\<forall>b \<in> set bs. b < 256" by simp_all
  then have "bytes_of b = bs"
    unfolding i(3) bytes_of_def string_of_def map_map
    by (intro map_idI) (simp add: of_char_of)
  with s(1) bs(1) show "skip_newlines s = raw_url_encode b"
    by (simp add: raw_url_encode_def)
next
  assume "skip_newlines s = raw_url_encode b"
  moreover have "skip_newlines (skip_newlines s) = skip_newlines s"
    by (simp add: skip_newlines_def)
  ultimately show "raw_url_decode True s = Some b"
    using raw_url_roundtrip [of True b] by (simp add: raw_url_decode_def)
qed

lemma raw_url_encode_inject [simp]: "raw_url_encode a = raw_url_encode b \<longleftrightarrow> a = b"
  by (metis option.inject raw_url_roundtrip)

lemma length_to_sextets:
  "length (to_sextets bs) mod 4 = (if length bs mod 3 = 0 then 0 else length bs mod 3 + 1)"
  by (induction bs rule: to_sextets.induct) auto

lemma strip_padding_append:
  "CHR ''='' \<notin> set s \<Longrightarrow> p \<in> {[], ''='', ''==''} \<Longrightarrow> strip_padding (s @ p) = s"
  by (cases s rule: rev_cases) (auto simp: strip_padding_def has_suffix_iff suffix_def)

lemma std_roundtrip [simp]: "std_decode (std_encode s) = Some s"
proof -
  let ?is = "to_sextets (bytes_of s)" and ?r = "length s mod 3"
  let ?p = "if ?r = 1 then ''=='' else if ?r = 2 then ''='' else []"
  let ?b = "map (\<lambda>i. std_alphabet ! i) ?is"
  have less: "\<forall>i \<in> set ?is. i < 64" using to_sextets_less [OF bytes_less] .
  then have chars: "set ?b \<subseteq> set std_alphabet" by (auto simp: alphabets)
  then have eq: "CHR ''='' \<notin> set ?b" "CHR 0x0A \<notin> set ?b" "CHR 0x0D \<notin> set ?b"
    using alphabets(8-10) by blast+
  then have skip: "skip_newlines (?b @ ?p) = ?b @ ?p"
    by (intro skip_newlines_id) auto
  have "length (?b @ ?p) mod 4 = 0"
    using length_to_sextets [of "bytes_of s"] by (auto simp: bytes_of_def mod_Suc mod_simps)
  moreover have "strip_padding (?b @ ?p) = ?b" by (intro strip_padding_append eq) auto
  moreover have "sextets_of std_alphabet ?b = Some ?is"
    using less by (intro sextets_of_map) (auto simp: alphabets)
  moreover have "std_encode s = ?b @ ?p" by (simp add: std_encode_def Let_def)
  ultimately show ?thesis
    using skip by (simp add: std_decode_def of_to_sextets bytes_less del: append_assoc)
qed

subsection \<open>Hexadecimal\<close>

definition hex_digits :: string where
  "hex_digits = ''0123456789abcdef''"

definition hex_encode :: "string \<Rightarrow> string" where
  "hex_encode s = concat (map (\<lambda>b. [hex_digits ! (b div 16), hex_digits ! (b mod 16)]) (bytes_of s))"

lemma length_hex_encode [simp]: "length (hex_encode s) = 2 * length s"
  by (induction s) (auto simp: hex_encode_def bytes_of_def)

lemma set_hex_encode: "set (hex_encode s) \<subseteq> set hex_digits"
proof -
  have "hex_digits ! (b div 16) \<in> set hex_digits \<and> hex_digits ! (b mod 16) \<in> set hex_digits"
    if "b < 256" for b
    using that by (intro conjI nth_mem) (simp_all add: hex_digits_def less_mult_imp_div_less)
  then show ?thesis using bytes_less [of s] by (auto simp: hex_encode_def)
qed

subsection \<open>Decimal integers\<close>

text \<open>\<^verbatim>\<open>strconv.Itoa\<close>.\<close>

definition digits :: string where
  "digits = ''0123456789''"

fun nat_text :: "nat \<Rightarrow> string" where
  "nat_text n = (if n < 10 then [digits ! n] else nat_text (n div 10) @ [digits ! (n mod 10)])"

declare nat_text.simps [simp del]

definition int_text :: "int \<Rightarrow> string" where
  "int_text i = (if i < 0 then CHR ''-'' # nat_text (nat (- i)) else nat_text (nat i))"

fun nat_of_text :: "string \<Rightarrow> nat \<Rightarrow> nat" where
  "nat_of_text [] n = n"
| "nat_of_text (c # s) n = nat_of_text s (n * 10 + the (position digits c))"

lemma digits_props: "distinct digits" "length digits = 10" "CHR ''-'' \<notin> set digits"
  by code_simp+

lemma nat_of_text_append: "nat_of_text (s @ t) n = nat_of_text t (nat_of_text s n)"
  by (induction s arbitrary: n) auto

lemma nat_of_nat_text [simp]: "nat_of_text (nat_text n) 0 = n"
  by (induction n rule: nat_text.induct)
    (subst nat_text.simps, auto simp: nat_of_text_append position_nth digits_props)

lemma nat_text_not_Nil [simp]: "nat_text n \<noteq> []"
  by (subst nat_text.simps) auto

lemma set_nat_text: "set (nat_text n) \<subseteq> set digits"
  by (induction n rule: nat_text.induct) (subst nat_text.simps, auto simp: digits_props)

lemma nat_text_inject [simp]: "nat_text m = nat_text n \<longleftrightarrow> m = n"
  by (metis nat_of_nat_text)

lemma nat_text_minus [simp]: "nat_text n \<noteq> CHR ''-'' # s" "CHR ''-'' # s \<noteq> nat_text n"
  using set_nat_text [of n] digits_props(3) by (metis list.set_intros(1) subset_iff)+

lemma int_text_inject [simp]: "int_text i = int_text j \<longleftrightarrow> i = j"
  by (auto simp: int_text_def)

lemma set_int_text: "set (int_text i) \<subseteq> insert (CHR ''-'') (set digits)" and int_text_not_Nil [simp]: "int_text i \<noteq> []"
  using set_nat_text by (auto simp: int_text_def)

end
