(* ===== verification/Token_Jwt.thy ===== *)
theory Token_Jwt
  imports Policy_Engine Go_Base64
begin

section \<open>Capability tokens (\<^verbatim>\<open>internal/token/jwt.go\<close>)\<close>

text \<open>
  The claims of a token, its signer, and the compact EdDSA JWT: \<open>jwt_sign\<close> and \<open>jwt_verify\<close>.
  Ed25519, SHA-256 and the JSON codec of the claims are arguments, the fields of \<open>env\<close>;
  \<open>env_ok\<close> states the documented behaviour of the first, and \<open>codec_ok\<close> that of the codec on
  given claims: decoding what was encoded gives the claims in the form the struct tags leave,
  \<open>wire_claims\<close>.

  Like the code, \<open>jwt_verify\<close> returns claims and an error together: callers use the claims of an
  expired token for their records.
\<close>

subsection \<open>Data\<close>

text \<open>A decoded JSON document, its numbers kept as text (\<^verbatim>\<open>json.Decoder.UseNumber\<close>).\<close>

datatype json = JNull | JBool bool | JNum string | JStr string | JArr "json list" | JObj "(string \<times> json) list"

record cnf =
  cn_JKT :: string

record claims =
  cm_ID :: string
  cm_Issuer :: string
  cm_Subject :: string
  cm_Human :: string
  cm_IssuedAt :: int
  cm_Expires :: int
  cm_Parent :: string
  cm_ParentActor :: string
  cm_GoalID :: string
  cm_Cnf :: "cnf option"
  cm_Chain :: "string list"
  cm_Depth :: int
  cm_MaxDepth :: int
  cm_MaxCalls :: int
  cm_Scopes :: "scope list"
  cm_Kind :: string
  cm_ActionHash :: string
  cm_Token :: string
  cm_ScopeOrigins :: "int list"

definition zero_claims :: claims where
  "zero_claims = \<lparr>cm_ID = [], cm_Issuer = [], cm_Subject = [], cm_Human = [], cm_IssuedAt = 0,
     cm_Expires = 0, cm_Parent = [], cm_ParentActor = [], cm_GoalID = [], cm_Cnf = None, cm_Chain = [],
     cm_Depth = 0, cm_MaxDepth = 0, cm_MaxCalls = 0, cm_Scopes = [], cm_Kind = [],
     cm_ActionHash = [], cm_Token = [], cm_ScopeOrigins = []\<rparr>"

definition lineage :: "claims \<Rightarrow> string list" where
  "lineage c = cm_Chain c @ [cm_ID c]"

text \<open>The standard library functions that are arguments of the model.\<close>

record env =
  en_sign :: "string \<Rightarrow> string \<Rightarrow> string"
  en_public :: "string \<Rightarrow> string"
  en_verify :: "string \<Rightarrow> string \<Rightarrow> string \<Rightarrow> bool"
  en_from_seed :: "string \<Rightarrow> string"
  en_sha256 :: "string \<Rightarrow> string"
  en_marshal_header :: "string \<Rightarrow> string"
  en_unmarshal_alg :: "string \<Rightarrow> string option"
  en_marshal_claims :: "claims \<Rightarrow> string option"
  en_unmarshal_claims :: "string \<Rightarrow> claims \<times> bool"
  en_float_text :: "float64 \<Rightarrow> string"
  en_norm_number :: "string \<Rightarrow> string"
  en_other_json :: "string \<Rightarrow> json option"
  en_time_text :: "time \<Rightarrow> string"

definition env_ok :: "'z env_scheme \<Rightarrow> bool" where
  "env_ok E \<longleftrightarrow>
     (\<forall>k m. en_verify E (en_public E k) m (en_sign E k m)) \<and>
     (\<forall>k m. en_sign E k m \<noteq> []) \<and>
     (\<forall>kid. en_unmarshal_alg E (en_marshal_header E kid) = Some ''EdDSA'')"

subsection \<open>The form of claims on the wire\<close>

text \<open>
  The tag \<^verbatim>\<open>omitempty\<close> on \<^verbatim>\<open>Enum\<close> drops an empty list, which comes back as nil;
  \<^verbatim>\<open>ScopeOrigins\<close> is never encoded. The other omitted fields come back as the zero they were.
\<close>

definition wire_constraint :: "arg_constraint \<Rightarrow> arg_constraint" where
  "wire_constraint c = (if ac_Enum c = Some [] then c\<lparr>ac_Enum := None\<rparr> else c)"

definition wire_scope :: "scope \<Rightarrow> scope" where
  "wire_scope s = s\<lparr>sc_Args := map (\<lambda>(n, c). (n, wire_constraint c)) (sc_Args s)\<rparr>"

definition wire_claims :: "claims \<Rightarrow> claims" where
  "wire_claims c = c\<lparr>cm_Scopes := map wire_scope (cm_Scopes c), cm_ScopeOrigins := []\<rparr>"

definition codec_ok :: "'z env_scheme \<Rightarrow> claims \<Rightarrow> bool" where
  "codec_ok E c \<longleftrightarrow>
     (\<forall>b. en_marshal_claims E c = Some b \<longrightarrow> en_unmarshal_claims E b = (wire_claims c, True))"

subsection \<open>Signing\<close>

record signer =
  sg_Priv :: string
  sg_Pub :: string
  sg_KID :: string

definition thumbprint :: "'z env_scheme \<Rightarrow> string \<Rightarrow> string" where
  "thumbprint E pub = raw_url_encode (en_sha256 E pub)"

text \<open>
  The fresh key of \<^verbatim>\<open>ed25519.GenerateKey\<close> is an argument: \<open>None\<close> when the random source fails.
\<close>

datatype seed_err = RandomFailed | BadSeedLength

definition new_signer :: "'z env_scheme \<Rightarrow> string option \<Rightarrow> string option \<Rightarrow> seed_err + signer" where
  "new_signer E seed fresh =
     (let build = (\<lambda>priv. let pub = en_public E priv in
            \<lparr>sg_Priv = priv, sg_Pub = pub, sg_KID = hex_encode (take 8 (en_sha256 E pub))\<rparr>) in
      case seed of
        None \<Rightarrow> (case fresh of None \<Rightarrow> Inl RandomFailed | Some p \<Rightarrow> Inr (build p))
      | Some s \<Rightarrow> if length s \<noteq> 32 then Inl BadSeedLength else Inr (build (en_from_seed E s)))"

text \<open>The only error is that of the encoder.\<close>

definition jwt_sign :: "'z env_scheme \<Rightarrow> signer \<Rightarrow> claims \<Rightarrow> string option" where
  "jwt_sign E s c =
     (case en_marshal_claims E c of
        None \<Rightarrow> None
      | Some body \<Rightarrow>
          let inp = raw_url_encode (en_marshal_header E (sg_KID s)) @ ''.'' @ raw_url_encode body;
              sig = en_sign E (sg_Priv s) inp
          in Some (inp @ ''.'' @ raw_url_encode sig))"

subsection \<open>Verification\<close>

datatype jwt_err = JwtMalformed | JwtSignature | JwtExpired

text \<open>The three segments of a compact token, and the span that is signed.\<close>

definition split_compact :: "string \<Rightarrow> (string \<times> string \<times> string \<times> string) option" where
  "split_compact tok =
     (let i = index_byte tok (CHR ''.'') in
      if i < 0 then None
      else
        let j0 = index_byte (drop (nat (i + 1)) tok) (CHR ''.'') in
        if j0 < 0 then None
        else
          let j = j0 + i + 1;
              hdr = take (nat i) tok;
              body = take (nat (j - (i + 1))) (drop (nat (i + 1)) tok);
              sig = drop (nat (j + 1)) tok
          in if index_byte sig (CHR ''.'') \<ge> 0 then None
             else Some (hdr, body, sig, take (nat j) tok))"

definition jwt_verify :: "'z env_scheme \<Rightarrow> string \<Rightarrow> string \<Rightarrow> time \<Rightarrow> claims \<times> jwt_err option" where
  "jwt_verify E pub tok now =
     (case split_compact tok of
        None \<Rightarrow> (zero_claims, Some JwtMalformed)
      | Some (hdr, body, sig, inp) \<Rightarrow>
          (case raw_url_decode False hdr of
             None \<Rightarrow> (zero_claims, Some JwtMalformed)
           | Some hb \<Rightarrow>
               if en_unmarshal_alg E hb \<noteq> Some ''EdDSA'' then (zero_claims, Some JwtMalformed)
               else
                 (case raw_url_decode False sig of
                    None \<Rightarrow> (zero_claims, Some JwtMalformed)
                  | Some sg \<Rightarrow>
                      if \<not> en_verify E pub inp sg then (zero_claims, Some JwtSignature)
                      else
                        (case raw_url_decode False body of
                           None \<Rightarrow> (zero_claims, Some JwtMalformed)
                         | Some bb \<Rightarrow>
                             let (c, ok) = en_unmarshal_claims E bb in
                             if \<not> ok then (c, Some JwtMalformed)
                             else if cm_Expires c \<le> unix now then (c, Some JwtExpired)
                             else (c, None)))))"

subsection \<open>Lemmas\<close>

lemma split_compact_cases:
  assumes "CHR ''.'' \<notin> set h" and "CHR ''.'' \<notin> set b"
  shows "split_compact (h @ CHR ''.'' # b @ CHR ''.'' # s) =
     (if CHR ''.'' \<in> set s then None else Some (h, b, s, h @ CHR ''.'' # b))"
proof -
  have i: "index_byte (h @ CHR ''.'' # b @ CHR ''.'' # s) (CHR ''.'') = int (length h)"
    using assms(1) by (rule index_byte_append)
  have d: "drop (nat (int (length h) + 1)) (h @ CHR ''.'' # b @ CHR ''.'' # s) = b @ CHR ''.'' # s"
    by (simp add: nat_add_distrib)
  have j: "index_byte (b @ CHR ''.'' # s) (CHR ''.'') = int (length b)"
    using assms(2) by (rule index_byte_append)
  show ?thesis
    by (simp add: split_compact_def i d j nat_add_distrib Let_def linorder_not_le linorder_not_less [symmetric])
qed

lemma split_compact_append [simp]:
  "CHR ''.'' \<notin> set h \<Longrightarrow> CHR ''.'' \<notin> set b \<Longrightarrow> CHR ''.'' \<notin> set s \<Longrightarrow>
     split_compact (h @ CHR ''.'' # b @ CHR ''.'' # s) = Some (h, b, s, h @ CHR ''.'' # b)"
  by (simp add: split_compact_cases)

lemma split_compact_one:
  "CHR ''.'' \<notin> set h \<Longrightarrow> CHR ''.'' \<notin> set t \<Longrightarrow> split_compact (h @ CHR ''.'' # t) = None"
  by (simp add: split_compact_def index_byte_append nat_add_distrib)

lemma split_compact_SomeD:
  assumes "split_compact tok = Some (h, b, s, inp)"
  shows "tok = h @ CHR ''.'' # b @ CHR ''.'' # s \<and> inp = h @ CHR ''.'' # b
     \<and> CHR ''.'' \<notin> set h \<and> CHR ''.'' \<notin> set b \<and> CHR ''.'' \<notin> set s"
proof -
  have "CHR ''.'' \<in> set tok"
    using assms by (auto simp: split_compact_def Let_def split: if_splits)
  then obtain h' t where h: "tok = h' @ CHR ''.'' # t" "CHR ''.'' \<notin> set h'"
    by (meson split_list_first)
  have "CHR ''.'' \<in> set t" using assms h split_compact_one by fastforce
  then obtain b' s' where b: "t = b' @ CHR ''.'' # s'" "CHR ''.'' \<notin> set b'"
    by (meson split_list_first)
  from assms have "split_compact (h' @ CHR ''.'' # b' @ CHR ''.'' # s') = Some (h, b, s, inp)"
    by (simp add: h b)
  then show ?thesis
    using h b by (auto simp: split_compact_cases split: if_splits)
qed

lemma jwt_sign_Some:
  "jwt_sign E s c = Some tok \<longleftrightarrow>
     (\<exists>body. en_marshal_claims E c = Some body
        \<and> (let h = raw_url_encode (en_marshal_header E (sg_KID s)); b = raw_url_encode body
           in tok = h @ CHR ''.'' # b @ CHR ''.'' # raw_url_encode (en_sign E (sg_Priv s) (h @ CHR ''.'' # b))))"
  by (auto simp: jwt_sign_def Let_def split: option.splits)

text \<open>Everything that must hold of a token for \<open>jwt_verify\<close> to return claims, expired or not.\<close>

definition well_signed :: "'z env_scheme \<Rightarrow> string \<Rightarrow> string \<Rightarrow> claims \<Rightarrow> bool" where
  "well_signed E pub tok c \<longleftrightarrow>
     (\<exists>h b s hb sg bb. tok = h @ CHR ''.'' # b @ CHR ''.'' # s
        \<and> CHR ''.'' \<notin> set h \<and> CHR ''.'' \<notin> set b \<and> CHR ''.'' \<notin> set s
        \<and> raw_url_decode False h = Some hb \<and> en_unmarshal_alg E hb = Some ''EdDSA''
        \<and> raw_url_decode False s = Some sg \<and> en_verify E pub (h @ CHR ''.'' # b) sg
        \<and> raw_url_decode False b = Some bb \<and> en_unmarshal_claims E bb = (c, True))"

lemma jwt_verify_parts:
  assumes "jwt_verify E pub tok now = (c, e)" and "e \<in> {None, Some JwtExpired}"
  shows "well_signed E pub tok c"
proof -
  obtain h b s inp where sp: "split_compact tok = Some (h, b, s, inp)"
    using assms by (cases "split_compact tok") (auto simp: jwt_verify_def)
  note parts = split_compact_SomeD [OF sp]
  obtain hb where hb: "raw_url_decode False h = Some hb"
    using assms sp by (cases "raw_url_decode False h") (auto simp: jwt_verify_def)
  have alg: "en_unmarshal_alg E hb = Some ''EdDSA''"
    using assms sp hb by (auto simp: jwt_verify_def split: if_splits)
  obtain sg where sg: "raw_url_decode False s = Some sg"
    using assms sp hb alg by (cases "raw_url_decode False s") (auto simp: jwt_verify_def)
  have v: "en_verify E pub inp sg"
    using assms sp hb alg sg by (auto simp: jwt_verify_def split: if_splits)
  obtain bb where bb: "raw_url_decode False b = Some bb"
    using assms sp hb alg sg v by (cases "raw_url_decode False b") (auto simp: jwt_verify_def)
  have "en_unmarshal_claims E bb = (c, True)"
    using assms sp hb alg sg v bb
    by (cases "en_unmarshal_claims E bb") (auto simp: jwt_verify_def split: if_splits)
  with parts hb alg sg v bb show ?thesis unfolding well_signed_def by blast
qed

lemma jwt_verify_iff:
  "(\<exists>e. jwt_verify E pub tok now = (c, e) \<and> e \<in> {None, Some JwtExpired}) \<longleftrightarrow> well_signed E pub tok c"
proof
  assume "\<exists>e. jwt_verify E pub tok now = (c, e) \<and> e \<in> {None, Some JwtExpired}"
  then show "well_signed E pub tok c"
    using jwt_verify_parts by blast
next
  assume "well_signed E pub tok c"
  then show "\<exists>e. jwt_verify E pub tok now = (c, e) \<and> e \<in> {None, Some JwtExpired}"
    unfolding well_signed_def by (elim exE conjE) (simp add: jwt_verify_def)
qed

lemma jwt_verify_err:
  "jwt_verify E pub tok now = (c, e) \<Longrightarrow> e \<in> {None, Some JwtExpired} \<Longrightarrow>
     e = (if cm_Expires c \<le> unix now then Some JwtExpired else None)"
  by (auto simp: jwt_verify_def split: option.splits prod.splits if_splits)

lemma well_signed_unique: "well_signed E pub tok c \<Longrightarrow> well_signed E pub tok c' \<Longrightarrow> c = c'"
  unfolding jwt_verify_iff [symmetric, of _ _ _ _ 0] by auto

lemma jwt_verify_well_signed:
  "well_signed E pub tok c \<Longrightarrow>
     jwt_verify E pub tok now = (c, if cm_Expires c \<le> unix now then Some JwtExpired else None)"
  using jwt_verify_iff [THEN iffD2, of E pub tok c now] jwt_verify_err [of E pub tok now c] by auto

lemma jwt_verify_ok_iff:
  "jwt_verify E pub tok now = (c, None) \<longleftrightarrow> well_signed E pub tok c \<and> unix now < cm_Expires c"
  using jwt_verify_iff [of E pub tok now c] jwt_verify_err [of E pub tok now c None]
    jwt_verify_well_signed [of E pub tok c now]
  by (auto simp: linorder_not_less split: if_splits)

lemma jwt_sign_well_signed:
  assumes "env_ok E" and "codec_ok E c" and "jwt_sign E s c = Some tok" and "sg_Pub s = en_public E (sg_Priv s)"
  shows "well_signed E (sg_Pub s) tok (wire_claims c)"
proof -
  obtain body where b: "en_marshal_claims E c = Some body"
    using assms(3) by (auto simp: jwt_sign_Some)
  let ?h = "raw_url_encode (en_marshal_header E (sg_KID s))" and ?b = "raw_url_encode body"
  have "tok = ?h @ CHR ''.'' # ?b @ CHR ''.'' # raw_url_encode (en_sign E (sg_Priv s) (?h @ CHR ''.'' # ?b))"
    using assms(3) b by (auto simp: jwt_sign_Some Let_def)
  moreover have "en_unmarshal_claims E body = (wire_claims c, True)"
    using assms(2) b by (simp add: codec_ok_def)
  ultimately show ?thesis
    using assms(1,4) b unfolding well_signed_def
    by (metis env_ok_def raw_url_encode_no_dot raw_url_roundtrip)
qed

lemma new_signer_Pub: "new_signer E seed fresh = Inr s \<Longrightarrow> sg_Pub s = en_public E (sg_Priv s)"
  by (auto simp: new_signer_def Let_def split: option.splits if_splits)

lemma wire_constraint_allows:
  "(ac_Enum c = Some [] \<Longrightarrow> ac_EnumSet c) \<Longrightarrow> allows_arg (wire_constraint c) v = allows_arg c v"
  by (cases v) (auto simp: wire_constraint_def allows_enum_iff has_enum_def enum_list_def)

lemma lookup_wire_scope:
  "lookup (sc_Args (wire_scope s)) n = map_option wire_constraint (lookup (sc_Args s) n)"
  by (simp add: wire_scope_def map_of_map)

lemma wire_scope_simps [simp]:
  "sc_Tool (wire_scope s) = sc_Tool s" "sc_Resources (wire_scope s) = sc_Resources s"
  "sc_MaxCalls (wire_scope s) = sc_MaxCalls s" "sc_RequireApproval (wire_scope s) = sc_RequireApproval s"
  by (simp_all add: wire_scope_def)

text \<open>An empty \<^verbatim>\<open>Enum\<close> that is marked by \<^verbatim>\<open>EnumSet\<close> survives the wire.\<close>

definition enum_marked :: "scope \<Rightarrow> bool" where
  "enum_marked s \<longleftrightarrow> list_all (\<lambda>(n, c). ac_Enum c = Some [] \<longrightarrow> ac_EnumSet c) (sc_Args s)"

lemma wire_scope_allows: "enum_marked s \<Longrightarrow> scope_allows (wire_scope s) a = scope_allows s a"
  by (auto simp: scope_allows_def wire_scope_def enum_marked_def list_all_iff wire_constraint_allows
      split_beta)

lemma first_match_wire:
  "\<forall>s \<in> set ss. enum_marked s \<Longrightarrow> first_match (map wire_scope ss) a = first_match ss a"
  by (induction ss) (auto simp: wire_scope_allows)

lemma wire_claims_simps [simp]:
  "cm_ID (wire_claims c) = cm_ID c" "cm_Subject (wire_claims c) = cm_Subject c"
  "cm_Human (wire_claims c) = cm_Human c" "cm_Expires (wire_claims c) = cm_Expires c"
  "cm_Kind (wire_claims c) = cm_Kind c" "cm_Chain (wire_claims c) = cm_Chain c"
  "cm_Scopes (wire_claims c) = map wire_scope (cm_Scopes c)" "cm_ScopeOrigins (wire_claims c) = []"
  "cm_Depth (wire_claims c) = cm_Depth c" "cm_MaxDepth (wire_claims c) = cm_MaxDepth c"
  "cm_MaxCalls (wire_claims c) = cm_MaxCalls c" "cm_Cnf (wire_claims c) = cm_Cnf c"
  "cm_ActionHash (wire_claims c) = cm_ActionHash c" "cm_Token (wire_claims c) = cm_Token c"
  "cm_GoalID (wire_claims c) = cm_GoalID c" "lineage (wire_claims c) = lineage c"
  by (simp_all add: wire_claims_def lineage_def)

subsection \<open>A concrete environment\<close>

text \<open>
  For the witnesses: a signature is the start of the key and the end of the message, and the codec knows the claims of
  a given list, writing each as its position. A rational number is written as numerator and
  denominator around an \<^verbatim>\<open>e\<close>.
\<close>

definition rat_text :: "rat \<Rightarrow> string" where
  "rat_text r = int_text (fst (quotient_of r)) @ CHR ''e'' # int_text (snd (quotient_of r))"

definition toy_env :: "claims list \<Rightarrow> env" where
  "toy_env cs =
     \<lparr>en_sign = (\<lambda>k m. CHR ''s'' # take 2 k @ drop (length m - 4) m), en_public = (\<lambda>k. k), en_verify = (\<lambda>p m s. s = CHR ''s'' # take 2 p @ drop (length m - 4) m),
      en_from_seed = (\<lambda>s. s), en_sha256 = (\<lambda>s. take 32 (s @ replicate 32 (CHR ''0''))),
      en_marshal_header = (\<lambda>kid. CHR ''{'' # kid), en_unmarshal_alg = (\<lambda>_. Some ''EdDSA''),
      en_marshal_claims = (\<lambda>c. map_option (\<lambda>i. replicate i (CHR ''i'')) (position cs c)),
      en_unmarshal_claims = (\<lambda>b. if length b < length cs then (wire_claims (cs ! length b), True)
                               else (zero_claims, False)),
      en_float_text = (\<lambda>f. case f of Fin r \<Rightarrow> rat_text r | _ \<Rightarrow> []), en_norm_number = (\<lambda>t. t),
      en_other_json = (\<lambda>_. None), en_time_text = int_text\<rparr>"

lemma toy_env_ok [simp]: "env_ok (toy_env cs)"
  by (simp add: env_ok_def toy_env_def)

lemma toy_codec_ok [simp]: "codec_ok (toy_env cs) c"
  by (auto simp: codec_ok_def toy_env_def dest: position_Some)

definition ex_signer :: signer where
  "ex_signer = \<lparr>sg_Priv = ''key'', sg_Pub = ''key'', sg_KID = ''k1''\<rparr>"

lemma ex_signer_Pub [simp]: "sg_Pub ex_signer = en_public (toy_env cs) (sg_Priv ex_signer)"
  by (simp add: ex_signer_def toy_env_def)

definition ex_scope :: scope where
  "ex_scope = \<lparr>sc_Tool = ''fs.*'', sc_Resources = [''repo/a/*''],
     sc_Args = [(''mode'', zero_constraint\<lparr>ac_Enum := Some []\<rparr>)], sc_MaxCalls = 3, sc_RequireApproval = False\<rparr>"

definition ex_claims :: claims where
  "ex_claims = zero_claims\<lparr>cm_ID := ''t1'', cm_Subject := ''spiffe://d/workload/w/i'', cm_Human := ''ann'',
     cm_Expires := 100, cm_MaxDepth := 1, cm_MaxCalls := 3, cm_Scopes := [ex_scope], cm_Kind := ''capability''\<rparr>"

definition ex_marked :: claims where
  "ex_marked = ex_claims\<lparr>cm_Scopes := [ex_scope\<lparr>sc_Args := [(''mode'', zero_constraint\<lparr>ac_Pattern := ''r*''\<rparr>)]\<rparr>]\<rparr>"

definition ex_attempt :: call where
  "ex_attempt = \<lparr>cl_Tool = ''fs.read'', cl_Resource = ''repo/a/x'', cl_Args = [(''mode'', VStr ''r'')]\<rparr>"

definition ex_tok :: string where
  "ex_tok = the (jwt_sign (toy_env [ex_claims]) ex_signer ex_claims)"

lemma ex_tok_signed: "jwt_sign (toy_env [ex_claims]) ex_signer ex_claims = Some ex_tok"
proof -
  have "jwt_sign (toy_env [ex_claims]) ex_signer ex_claims \<noteq> None"
    by (simp add: jwt_sign_def toy_env_def Let_def)
  then show ?thesis by (simp add: ex_tok_def)
qed

subsection \<open>Properties\<close>

text \<open>
  \<^bold>\<open>C22.\<close> \<^verbatim>\<open>Verify\<close> returns claims without an error exactly for a token of three dot-free segments
  whose header names EdDSA, whose signature verifies over the first two segments as they stand
  in the token, whose body decodes to these claims, and whose expiry is still in the future.
\<close>

theorem jwt_verify_exact:
  "jwt_verify E pub tok now = (c, None) \<longleftrightarrow>
     (\<exists>h b s hb sg bb. tok = h @ ''.'' @ b @ ''.'' @ s
        \<and> CHR ''.'' \<notin> set h \<and> CHR ''.'' \<notin> set b \<and> CHR ''.'' \<notin> set s
        \<and> raw_url_decode False h = Some hb \<and> en_unmarshal_alg E hb = Some ''EdDSA''
        \<and> raw_url_decode False s = Some sg \<and> en_verify E pub (h @ ''.'' @ b) sg
        \<and> raw_url_decode False b = Some bb \<and> en_unmarshal_claims E bb = (c, True))
     \<and> unix now < cm_Expires c"
  by (simp add: jwt_verify_ok_iff well_signed_def)

text \<open>
  \<^bold>\<open>C23.\<close> What the broker signs, it accepts: verifying a signed token under the signer's key gives
  the claims in their wire form, with the expiry error exactly from the second of expiry on.
\<close>

theorem jwt_roundtrip:
  assumes "env_ok E" and "codec_ok E c" and "new_signer E seed fresh = Inr s"
    and "jwt_sign E s c = Some tok"
  shows "jwt_verify E (sg_Pub s) tok now
     = (wire_claims c, if unix now < cm_Expires c then None else Some JwtExpired)"
  using jwt_verify_well_signed [OF jwt_sign_well_signed [OF assms(1,2,4) new_signer_Pub [OF assms(3)]]]
  by (simp add: linorder_not_less)

theorem jwt_roundtrip_witness:
  "\<exists>s tok. new_signer (toy_env [ex_claims]) None (Some ''key'') = Inr s
     \<and> jwt_sign (toy_env [ex_claims]) s ex_claims = Some tok
     \<and> jwt_verify (toy_env [ex_claims]) (sg_Pub s) tok (99 * second) = (wire_claims ex_claims, None)
     \<and> jwt_verify (toy_env [ex_claims]) (sg_Pub s) tok (100 * second) = (wire_claims ex_claims, Some JwtExpired)"
proof -
  let ?E = "toy_env [ex_claims]"
  obtain s where s: "new_signer ?E None (Some ''key'') = Inr s"
    by (simp add: new_signer_def Let_def)
  obtain tok where tok: "jwt_sign ?E s ex_claims = Some tok"
    by (simp add: jwt_sign_def toy_env_def Let_def)
  have "unix (99 * second) = 99" "unix (100 * second) = 100" "cm_Expires ex_claims = 100"
    by (simp_all add: unix_def second_def ex_claims_def)
  with s tok show ?thesis
    using jwt_roundtrip [OF toy_env_ok toy_codec_ok s tok, of "99 * second"]
      jwt_roundtrip [OF toy_env_ok toy_codec_ok s tok, of "100 * second"] by auto
qed

text \<open>
  A token carries the authority that was signed: when every empty enumeration is marked by
  \<^verbatim>\<open>enum_set\<close>, the verified scopes match the same call at the same index as the signed ones.
\<close>

theorem token_carries_authority:
  assumes "env_ok E" and "codec_ok E c" and "new_signer E seed fresh = Inr s"
    and "jwt_sign E s c = Some tok" and "\<forall>sc \<in> set (cm_Scopes c). enum_marked sc"
  shows "first_match (cm_Scopes (fst (jwt_verify E (sg_Pub s) tok now))) a = first_match (cm_Scopes c) a"
  using jwt_verify_well_signed [OF jwt_sign_well_signed [OF assms(1,2,4) new_signer_Pub [OF assms(3)]]]
  by (simp add: first_match_wire assms(5))

theorem token_carries_authority_witness:
  "\<exists>(s :: signer) tok. first_match (cm_Scopes (fst (jwt_verify (toy_env [ex_marked]) (sg_Pub s) tok 0))) ex_attempt = 0"
proof -
  let ?E = "toy_env [ex_marked]"
  obtain s where s: "new_signer ?E None (Some ''key'') = Inr s"
    by (simp add: new_signer_def Let_def)
  obtain tok where tok: "jwt_sign ?E s ex_marked = Some tok"
    by (simp add: jwt_sign_def toy_env_def Let_def)
  have "\<forall>sc \<in> set (cm_Scopes ex_marked). enum_marked sc"
    and "first_match (cm_Scopes ex_marked) ex_attempt = 0" by code_simp+
  then show ?thesis
    using token_carries_authority [OF toy_env_ok toy_codec_ok s tok, of 0 ex_attempt]
    by (intro exI [of _ s] exI [of _ tok]) simp
qed

text \<open>
  The exception: a scope whose constraint has an empty \<^verbatim>\<open>enum\<close> and no \<^verbatim>\<open>enum_set\<close> is valid
  and allows nothing, but the tag \<^verbatim>\<open>omitempty\<close> drops the empty list, and the signed token allows
  every value of that argument.
\<close>

theorem empty_enum_lost:
  assumes "env_ok E" and "codec_ok E c" and "new_signer E seed fresh = Inr s"
    and "jwt_sign E s c = Some tok"
    and "cm_Scopes c = [sc]" and "sc_Args sc = [(n, zero_constraint\<lparr>ac_Enum := Some []\<rparr>)]"
    and "match_pat (sc_Tool sc) (cl_Tool a)" and "\<exists>r \<in> set (sc_Resources sc). match_pat r (cl_Resource a)"
    and "lookup (cl_Args a) n = Some v"
  shows "first_match (cm_Scopes c) a = -1
     \<and> first_match (cm_Scopes (fst (jwt_verify E (sg_Pub s) tok now))) a = 0"
proof -
  have "fst (jwt_verify E (sg_Pub s) tok now) = wire_claims c"
    using jwt_verify_well_signed [OF jwt_sign_well_signed [OF assms(1,2,4) new_signer_Pub [OF assms(3)]]]
    by simp
  moreover have "\<not> scope_allows sc a"
    using assms(6,9) by (simp add: scope_allows_def allows_enum_iff)
  moreover have "scope_allows (wire_scope sc) a"
    using assms(6-9)
    by (auto simp: scope_allows_def wire_scope_def wire_constraint_def list_ex_iff allows_enum_def
        has_enum_def zero_constraint_def allows_pattern_def allows_bounds_def)
  ultimately show ?thesis by (simp add: assms(5))
qed

theorem empty_enum_lost_witness:
  "\<exists>(s :: signer) tok. validate_scope ex_scope = None
     \<and> first_match (cm_Scopes ex_claims) ex_attempt = -1
     \<and> first_match (cm_Scopes (fst (jwt_verify (toy_env [ex_claims]) (sg_Pub s) tok 0))) ex_attempt = 0"
proof -
  let ?E = "toy_env [ex_claims]"
  obtain s where s: "new_signer ?E None (Some ''key'') = Inr s"
    by (simp add: new_signer_def Let_def)
  obtain tok where tok: "jwt_sign ?E s ex_claims = Some tok"
    by (simp add: jwt_sign_def toy_env_def Let_def)
  have v: "validate_scope ex_scope = None" by code_simp
  have m: "match_pat (sc_Tool ex_scope) (cl_Tool ex_attempt)"
    "\<exists>r \<in> set (sc_Resources ex_scope). match_pat r (cl_Resource ex_attempt)"
    "lookup (cl_Args ex_attempt) ''mode'' = Some (VStr ''r'')" by code_simp+
  show ?thesis
    using v empty_enum_lost [OF toy_env_ok toy_codec_ok s tok, of ex_scope "''mode''" ex_attempt "VStr ''r''" 0] m
    by (auto simp: ex_claims_def ex_scope_def)
qed

end
