(* ===== verification/Canonical_Json.thy ===== *)
theory Canonical_Json
  imports Token_Jwt
begin

section \<open>Canonical JSON and the action hash (\<^verbatim>\<open>internal/token/canonical.go\<close>)\<close>

text \<open>
  \<open>write_json\<close> writes a decoded document with sorted keys, the common part of \<^verbatim>\<open>writeCanon\<close>,
  \<open>write_canon\<close> here, and of the encoder of the receipts; \<open>canonical_json\<close> and \<open>action_hash\<close> the
  two exported functions. Strings reach the writer from a JSON decoder and so are valid UTF-8;
  \<open>go_quote\<close> is \<^verbatim>\<open>json.Marshal\<close> of such a string. The text of a float and the normal form of a
  number are arguments of the model, with \<open>number_ok\<close> as what is used of them.

  The main lemma is that the encoding can be read back: two documents with the same encoding
  are equal up to the order of object keys and the spelling of numbers.
\<close>

subsection \<open>The writer\<close>

text \<open>
  A quoted string: backslash escapes, \<^verbatim>\<open>u\<close> escapes for the other control characters and for the
  HTML characters, and the two characters U+2028 and U+2029, three bytes each, as \<^verbatim>\<open>u\<close> escapes.
\<close>

definition short_escape :: "char \<Rightarrow> char option" where
  "short_escape = map_of [(CHR 0x22, CHR 0x22), (CHR 0x5C, CHR 0x5C), (CHR 0x08, CHR ''b''),
     (CHR 0x0C, CHR ''f''), (CHR 0x0A, CHR ''n''), (CHR 0x0D, CHR ''r''), (CHR 0x09, CHR ''t'')]"

definition u_escape :: "nat \<Rightarrow> string" where
  "u_escape n = [CHR 0x5C, CHR ''u'', CHR ''0'', CHR ''0'', hex_digits ! (n div 16), hex_digits ! (n mod 16)]"

definition escape_char :: "bool \<Rightarrow> char \<Rightarrow> string" where
  "escape_char html c =
     (case short_escape c of
        Some x \<Rightarrow> [CHR 0x5C, x]
      | None \<Rightarrow>
          let n = (of_char c :: nat) in
          if n < 32 \<or> html \<and> c \<in> set ''<>&'' then u_escape n else [c])"

definition line_sep :: string where "line_sep = [CHR 0xE2, CHR 0x80, CHR 0xA8]"
definition par_sep :: string where "par_sep = [CHR 0xE2, CHR 0x80, CHR 0xA9]"

definition escape_chunk :: "bool \<Rightarrow> string \<Rightarrow> string" where
  "escape_chunk html ch =
     (if ch = line_sep then CHR 0x5C # ''u2028''
      else if ch = par_sep then CHR 0x5C # ''u2029''
      else escape_char html (hd ch))"

fun chunks :: "string \<Rightarrow> string list" where
  "chunks [] = []"
| "chunks (c # s) =
     (if take 3 (c # s) \<in> {line_sep, par_sep} then take 3 (c # s) # chunks (drop 2 s)
      else [c] # chunks s)"

definition go_quote :: "bool \<Rightarrow> string \<Rightarrow> string" where
  "go_quote html s = CHR 0x22 # concat (map (escape_chunk html) (chunks s)) @ [CHR 0x22]"

text \<open>Elements separated by commas, the loop shared by the cases of objects and arrays.\<close>

fun commas :: "string list \<Rightarrow> string" where
  "commas [] = []"
| "commas [x] = x"
| "commas (x # y # ys) = x @ CHR '','' # commas (y # ys)"

fun write_json :: "bool \<Rightarrow> (string \<Rightarrow> string) \<Rightarrow> json \<Rightarrow> string" where
  "write_json html num JNull = ''null''"
| "write_json html num (JBool b) = (if b then ''true'' else ''false'')"
| "write_json html num (JNum t) = num t"
| "write_json html num (JStr s) = go_quote html s"
| "write_json html num (JArr vs) = CHR ''['' # commas (map (write_json html num) vs) @ '']''"
| "write_json html num (JObj kvs) =
     CHR ''{'' # commas (map (\<lambda>(k, t). go_quote html k @ CHR '':'' # t)
       (sort_key fst (map (map_prod id (write_json html num)) kvs))) @ ''}''"

definition write_canon :: "'z env_scheme \<Rightarrow> json \<Rightarrow> string" where
  "write_canon E = write_json True (en_norm_number E)"

text \<open>
  \<^verbatim>\<open>json.Marshal\<close> of a value and decoding with \<^verbatim>\<open>UseNumber\<close>: an infinity or NaN cannot be
  encoded, an integer keeps all its digits.
\<close>

fun to_json :: "'z env_scheme \<Rightarrow> any \<Rightarrow> json option" where
  "to_json E VNull = Some JNull"
| "to_json E (VBool b) = Some (JBool b)"
| "to_json E (VFloat f) = (case f of Fin _ \<Rightarrow> Some (JNum (en_float_text E f)) | _ \<Rightarrow> None)"
| "to_json E (VInt i) = Some (JNum (int_text i))"
| "to_json E (VStr s) = Some (JStr s)"
| "to_json E (VArr vs) = map_option JArr (those (map (to_json E) vs))"
| "to_json E (VObj kvs) =
     map_option JObj (those (map (\<lambda>(k, v). map_option (Pair k) v) (map (map_prod id (to_json E)) kvs)))"
| "to_json E (VOther s) = en_other_json E s"

definition canonical_json :: "'z env_scheme \<Rightarrow> any \<Rightarrow> string option" where
  "canonical_json E v = map_option (write_canon E) (to_json E v)"

definition call_object :: "call \<Rightarrow> any" where
  "call_object c =
     VObj [(''tool'', VStr (cl_Tool c)), (''resource'', VStr (cl_Resource c)), (''args'', VObj (cl_Args c))]"

text \<open>The error of \<^verbatim>\<open>CanonicalJSON\<close> is dropped: a call that cannot be encoded hashes the empty text.\<close>

definition action_hash :: "'z env_scheme \<Rightarrow> call \<Rightarrow> string" where
  "action_hash E c =
     hex_encode (en_sha256 E (case canonical_json E (call_object c) of None \<Rightarrow> [] | Some b \<Rightarrow> b))"

subsection \<open>Reading a quoted string back\<close>

lemma short_escape_inject: "short_escape c = Some x \<Longrightarrow> short_escape d = Some x \<Longrightarrow> c = d"
  by (auto simp: short_escape_def split: if_splits)

lemma short_escape_not_u: "short_escape c \<noteq> Some (CHR ''u'')"
  by (auto simp: short_escape_def)

lemma short_escape_None: "short_escape c = None \<Longrightarrow> c \<noteq> CHR 0x5C \<and> c \<noteq> CHR 0x22"
  by (auto simp: short_escape_def)

lemma hex_digits_inject: "i < 16 \<Longrightarrow> j < 16 \<Longrightarrow> hex_digits ! i = hex_digits ! j \<longleftrightarrow> i = j"
  by (intro nth_eq_iff_index_eq) (simp_all add: hex_digits_def)

lemma u_escape_inject: "m < 256 \<Longrightarrow> n < 256 \<Longrightarrow> u_escape m = u_escape n \<longleftrightarrow> m = n"
proof
  assume "m < 256" "n < 256" "u_escape m = u_escape n"
  then have "m div 16 = n div 16" "m mod 16 = n mod 16"
    by (auto simp: u_escape_def hex_digits_inject less_mult_imp_div_less)
  then show "m = n" by (metis div_mult_mod_eq)
qed simp

lemma of_char_less: "(of_char c :: nat) < 256"
  by simp

definition chunk_ok :: "string \<Rightarrow> bool" where
  "chunk_ok ch \<longleftrightarrow> length ch = 1 \<or> ch = line_sep \<or> ch = par_sep"

lemma chunks_ok: "\<forall>ch \<in> set (chunks s). chunk_ok ch"
  by (induction s rule: chunks.induct) (auto simp: chunk_ok_def)

lemma concat_chunks [simp]: "concat (chunks s) = s"
  by (induction s rule: chunks.induct) (auto simp: numeral_eq_Suc)

lemma escape_chunk_cases:
  assumes "chunk_ok ch"
  obtains c x where "ch = [c]" and "short_escape c = Some x" and "escape_chunk html ch = [CHR 0x5C, x]" and "x \<noteq> CHR ''u''"
  | c where "ch = [c]" and "escape_chunk html ch = u_escape (of_char c)"
  | c where "ch = [c]" and "escape_chunk html ch = [c]" and "c \<noteq> CHR 0x5C" and "c \<noteq> CHR 0x22"
  | "ch = line_sep" and "escape_chunk html ch = CHR 0x5C # ''u2028''"
  | "ch = par_sep" and "escape_chunk html ch = CHR 0x5C # ''u2029''"
proof -
  have sep: "line_sep \<noteq> par_sep" "[c] \<noteq> line_sep" "[c] \<noteq> par_sep" for c
    by (simp_all add: line_sep_def par_sep_def)
  from assms consider c where "ch = [c]" | "ch = line_sep" | "ch = par_sep"
    unfolding chunk_ok_def by (metis One_nat_def length_0_conv length_Suc_conv)
  then show thesis
  proof cases
    case (1 c)
    then have e: "escape_chunk html ch = escape_char html c" by (simp add: escape_chunk_def sep)
    show thesis
    proof (cases "short_escape c")
      case (Some x)
      with short_escape_not_u [of c] have "x \<noteq> CHR ''u''" by auto
      with Some 1 e that(1) show thesis by (simp add: escape_char_def)
    next
      case None
      with 1 e that(2) that(3) short_escape_None [OF None] show thesis
        by (auto simp: escape_char_def Let_def split: if_splits)
    qed
  qed (use that(4,5) sep in \<open>simp_all add: escape_chunk_def\<close>)
qed

lemma escape_chunk_prefix:
  assumes "chunk_ok a" and "chunk_ok b" and "escape_chunk html a @ r = escape_chunk html b @ u"
  shows "a = b \<and> r = u"
proof -
  have hex: "hex_digits ! 0 = CHR ''0''" by (simp add: hex_digits_def)
  from assms(1) show ?thesis
  proof (cases rule: escape_chunk_cases [where html = html])
    case (1 c x)
    from assms(2) show ?thesis
      by (cases rule: escape_chunk_cases [where html = html]) (use 1 assms(3) short_escape_inject in \<open>auto simp: u_escape_def\<close>)
  next
    case (2 c)
    from assms(2) show ?thesis
    proof (cases rule: escape_chunk_cases [where html = html])
      case (2 d)
      with \<open>a = [c]\<close> \<open>escape_chunk html a = u_escape (of_char c)\<close> assms(3)
      have "u_escape (of_char c) = u_escape (of_char d)" and "r = u"
        by (auto simp: u_escape_def)
      then show ?thesis using u_escape_inject [OF of_char_less of_char_less] 2 \<open>a = [c]\<close> by simp
    qed (use 2 assms(3) in \<open>auto simp: u_escape_def\<close>)
  next
    case (3 c)
    from assms(2) show ?thesis
      by (cases rule: escape_chunk_cases [where html = html]) (use 3 assms(3) in \<open>auto simp: u_escape_def\<close>)
  next
    case 4
    from assms(2) show ?thesis
      by (cases rule: escape_chunk_cases [where html = html]) (use 4 assms(3) in \<open>auto simp: u_escape_def\<close>)
  next
    case 5
    from assms(2) show ?thesis
      by (cases rule: escape_chunk_cases [where html = html]) (use 5 assms(3) in \<open>auto simp: u_escape_def\<close>)
  qed
qed

lemma escape_chunk_not_quote: "chunk_ok a \<Longrightarrow> escape_chunk html a \<noteq> [] \<and> hd (escape_chunk html a) \<noteq> CHR 0x22"
  by (erule escape_chunk_cases [where html = html]) (auto simp: u_escape_def)

lemma escaped_prefix:
  assumes "\<forall>a \<in> set as. chunk_ok a" and "\<forall>b \<in> set bs. chunk_ok b"
    and "concat (map (escape_chunk html) as) @ CHR 0x22 # r = concat (map (escape_chunk html) bs) @ CHR 0x22 # u"
  shows "as = bs \<and> r = u"
  using assms
proof (induction as arbitrary: bs)
  case Nil
  show ?case
  proof (cases bs)
    case (Cons b bs')
    with Nil escape_chunk_not_quote [of b html] show ?thesis by (cases "escape_chunk html b") auto
  qed (use Nil in simp)
next
  case (Cons a as)
  then obtain b bs' where bs: "bs = b # bs'"
    using escape_chunk_not_quote [of a html] by (cases bs; cases "escape_chunk html a") auto
  with Cons.prems have "a = b \<and> concat (map (escape_chunk html) as) @ CHR 0x22 # r = concat (map (escape_chunk html) bs') @ CHR 0x22 # u"
    by (intro escape_chunk_prefix) auto
  with Cons.IH [of bs'] Cons.prems(1,2) bs show ?case by simp
qed

lemma go_quote_prefix:
  assumes "go_quote html s @ r = go_quote html t @ u"
  shows "s = t \<and> r = u"
proof -
  have "chunks s = chunks t \<and> r = u"
    using assms by (intro escaped_prefix chunks_ok) (simp add: go_quote_def)
  then have "concat (chunks s) = concat (chunks t) \<and> r = u" by simp
  then show ?thesis by (simp only: concat_chunks)
qed

subsection \<open>Reading a document back\<close>

text \<open>The normal form: numbers normalised, the entries of an object sorted by key.\<close>

fun norm_json :: "(string \<Rightarrow> string) \<Rightarrow> json \<Rightarrow> json" where
  "norm_json num (JNum t) = JNum (num t)"
| "norm_json num (JArr vs) = JArr (map (norm_json num) vs)"
| "norm_json num (JObj kvs) = JObj (sort_key fst (map (map_prod id (norm_json num)) kvs))"
| "norm_json num v = v"

definition number_chars :: string where
  "number_chars = ''0123456789+-.eE''"

definition number_text :: "string \<Rightarrow> bool" where
  "number_text t \<longleftrightarrow> t \<noteq> [] \<and> set t \<subseteq> set number_chars"

fun numbers_ok :: "json \<Rightarrow> bool" where
  "numbers_ok (JNum t) = number_text t"
| "numbers_ok (JArr vs) = list_all (\<lambda>b. b) (map numbers_ok vs)"
| "numbers_ok (JObj kvs) = list_all snd (map (map_prod id numbers_ok) kvs)"
| "numbers_ok _ = True"

text \<open>
  What the model uses of number formatting: the text of a finite float and the normal form of a
  number are number texts, and the normal form keeps finite floats apart.
\<close>

definition norm_number_ok :: "(string \<Rightarrow> string) \<Rightarrow> bool" where
  "norm_number_ok num \<longleftrightarrow> (\<forall>t. number_text t \<longrightarrow> number_text (num t))"

definition number_ok :: "'z env_scheme \<Rightarrow> bool" where
  "number_ok E \<longleftrightarrow>
     norm_number_ok (en_norm_number E) \<and>
     (\<forall>q. number_text (en_float_text E (Fin q))) \<and>
     (\<forall>p q. en_norm_number E (en_float_text E (Fin p)) = en_norm_number E (en_float_text E (Fin q)) \<longrightarrow> p = q)"

definition delimited :: "string \<Rightarrow> bool" where
  "delimited r \<longleftrightarrow> r = [] \<or> hd r \<in> set '',]}''"

text \<open>The encodings of two elements followed by a delimiter determine the elements' normal forms.\<close>

definition reads :: "('a \<Rightarrow> string) \<Rightarrow> ('a \<Rightarrow> 'b) \<Rightarrow> 'a \<Rightarrow> 'a \<Rightarrow> bool" where
  "reads w n x y \<longleftrightarrow>
     (\<forall>r s. delimited r \<longrightarrow> delimited s \<longrightarrow> w x @ r = w y @ s \<longrightarrow> n x = n y \<and> r = s)"

lemma commas_reads:
  assumes "\<forall>x \<in> set xs. \<forall>y \<in> set ys. reads w n x y"
    and "\<forall>x \<in> set xs \<union> set ys. w x \<noteq> [] \<and> hd (w x) \<notin> set '',]}''"
    and "z \<in> set '']}''" and "commas (map w xs) @ z # r = commas (map w ys) @ z # s"
  shows "map n xs = map n ys \<and> r = s"
  using assms
proof (induction "map w xs" arbitrary: xs ys rule: commas.induct)
  case 1
  show ?case
  proof (cases ys)
    case (Cons y ys')
    with 1 have "hd (commas (map w ys) @ z # s) = hd (w y)" by (cases ys'; cases "w y") auto
    with 1 Cons show ?thesis by (auto dest: arg_cong [where f = hd])
  qed (use 1 in simp)
next
  case (2 t)
  from 2(1) obtain x where xs: "xs = [x]" "t = w x" by auto
  with 2(3) have w: "w x \<noteq> []" "hd (w x) \<notin> set '',]}''" by auto
  obtain y ys' where ys: "ys = y # ys'"
    using 2(4,5) xs(1) w by (cases ys; cases "w x") auto
  have "reads w n x y" using 2(2) xs ys by simp
  moreover obtain q where q: "commas (map w ys) @ z # s = w y @ q" "delimited q" "ys' = [] \<Longrightarrow> q = z # s"
    "ys' \<noteq> [] \<Longrightarrow> hd q = CHR '',''"
    using ys 2(4) by (cases ys') (auto simp: delimited_def)
  moreover have "delimited (z # r)" using 2(4) by (auto simp: delimited_def)
  moreover have "w x @ z # r = w y @ q" using 2(5) xs(1) q(1) by simp
  ultimately have "n x = n y \<and> z # r = q"
    unfolding reads_def by blast
  with q ys xs 2(4) show ?case by (cases ys') auto
next
  case (3 t t' ts)
  from 3(2) obtain x x' xs' where xs: "xs = x # x' # xs'" "t = w x" "t' # ts = map w (x' # xs')" by auto
  with 3(4) have w: "w x \<noteq> []" "hd (w x) \<notin> set '',]}''" by auto
  obtain y ys' where ys: "ys = y # ys'"
    using 3(5,6) xs(1) w by (cases ys; cases "w x") auto
  have "reads w n x y" using 3(3) xs ys by simp
  moreover obtain q where q: "commas (map w ys) @ z # s = w y @ q" "delimited q" "ys' = [] \<Longrightarrow> q = z # s"
    "ys' \<noteq> [] \<Longrightarrow> q = CHR '','' # commas (map w ys') @ z # s"
    using ys 3(5) by (cases ys') (auto simp: delimited_def)
  moreover have "delimited (CHR '','' # commas (map w (x' # xs')) @ z # r)" by (simp add: delimited_def)
  moreover have "w x @ CHR '','' # commas (map w (x' # xs')) @ z # r = w y @ q"
    using 3(6) xs(1) q(1) by simp
  ultimately have e: "n x = n y \<and> CHR '','' # commas (map w (x' # xs')) @ z # r = q"
    using q(2) unfolding reads_def by blast
  then have "ys' \<noteq> []" using q(3) 3(5) by auto
  with e q have "commas (map w (x' # xs')) @ z # r = commas (map w ys') @ z # s" by simp
  then have "map n (x' # xs') = map n ys' \<and> r = s"
    using 3(3,4) xs(1) ys by (intro 3(1) [OF xs(3) _ _ 3(5)]) auto
  with e ys xs show ?case by simp
qed

lemma insort_key_map_prod:
  "insort_key fst (k, f v) (map (map_prod id f) xs) = map (map_prod id f) (insort_key fst (k, v) xs)"
  by (induction xs) auto

lemma sort_key_map_prod:
  "sort_key fst (map (map_prod id f) xs) = map (map_prod id f) (sort_key fst xs)"
  by (induction xs) (auto simp: insort_key_map_prod [unfolded id_def] id_def)

lemma sort_key_map_prod2:
  "sort_key fst (map (map_prod id f \<circ> map_prod id g) xs) = map (map_prod id f \<circ> map_prod id g) (sort_key fst xs)"
  using sort_key_map_prod [of "f \<circ> g" xs] by (simp add: map_prod.comp)

definition entry_text :: "bool \<Rightarrow> (string \<Rightarrow> string) \<Rightarrow> string \<times> json \<Rightarrow> string" where
  "entry_text html num kv = go_quote html (fst kv) @ CHR '':'' # write_json html num (snd kv)"

lemma write_json_JObj:
  "write_json html num (JObj kvs) = CHR ''{'' # commas (map (entry_text html num) (sort_key fst kvs)) @ ''}''"
proof -
  have "(\<lambda>(k, t). go_quote html k @ CHR '':'' # t) \<circ> map_prod id (write_json html num) = entry_text html num"
    by (auto simp: entry_text_def)
  then show ?thesis by (simp add: sort_key_map_prod)
qed

lemma norm_json_JObj: "norm_json num (JObj kvs) = JObj (map (map_prod id (norm_json num)) (sort_key fst kvs))"
  by (simp add: sort_key_map_prod)

lemmas write_json_eqs = write_json.simps(1-5) write_json_JObj norm_json.simps(1,2,4-6) norm_json_JObj

declare write_json.simps(6) [simp del] norm_json.simps(3) [simp del]

lemma go_quote_hd [simp]: "go_quote html s \<noteq> []" "hd (go_quote html s) = CHR 0x22" "hd (go_quote html s @ r) = CHR 0x22"
  by (simp_all add: go_quote_def)

lemma write_json_start:
  assumes "norm_number_ok num" and "numbers_ok v"
  shows "write_json html num v \<noteq> [] \<and> hd (write_json html num v) \<notin> set '',]}''"
proof (cases v)
  case (JNum t)
  with assms have "number_text (num t)" by (simp add: norm_number_ok_def)
  then have "num t \<noteq> []" "set (num t) \<subseteq> set number_chars"
    by (simp_all add: number_text_def)
  then have "hd (num t) \<in> set number_chars" using hd_in_set by blast
  then have "hd (num t) \<notin> set '',]}''" by (auto simp: number_chars_def)
  with \<open>num t \<noteq> []\<close> JNum show ?thesis by simp
qed (auto simp: write_json_eqs)

lemma entry_text_start: "entry_text html num kv \<noteq> [] \<and> hd (entry_text html num kv) \<notin> set '',]}''"
  by (auto simp: entry_text_def)

lemma entry_reads:
  "reads (write_json html num) (norm_json num) (snd a) (snd b) \<Longrightarrow>
     reads (entry_text html num) (map_prod id (norm_json num)) a b"
  unfolding reads_def entry_text_def
  by (cases a; cases b) (auto dest!: go_quote_prefix)

lemma number_prefix:
  assumes "number_text t" and "number_text u" and "delimited r" and "delimited s" and "t @ r = u @ s"
  shows "t = u \<and> r = s"
proof -
  have span: "takeWhile (\<lambda>c. c \<in> set number_chars) (t @ r) = t" if "number_text t" "delimited r" for t r
  proof -
    have "takeWhile (\<lambda>c. c \<in> set number_chars) r = []"
      using that(2) by (cases r) (auto simp: delimited_def number_chars_def)
    moreover have "\<forall>c \<in> set t. c \<in> set number_chars" using that(1) by (auto simp: number_text_def)
    ultimately show ?thesis by (simp add: takeWhile_append2)
  qed
  from span [OF assms(1,3)] span [OF assms(2,4)] assms(5) have "t = u" by simp
  with assms(5) show ?thesis by simp
qed

lemma numbers_ok_members:
  "numbers_ok (JArr vs) \<longleftrightarrow> (\<forall>v \<in> set vs. numbers_ok v)"
  "numbers_ok (JObj kvs) \<longleftrightarrow> (\<forall>kv \<in> set kvs. numbers_ok (snd kv))"
  by (auto simp: list_all_iff)

declare numbers_ok.simps(2,3) [simp del]

lemma reads_diff:
  "w x \<noteq> [] \<Longrightarrow> w y \<noteq> [] \<Longrightarrow> hd (w x) \<noteq> hd (w y) \<Longrightarrow> reads w n x y"
  unfolding reads_def by (metis hd_append2)

lemma number_start:
  assumes "norm_number_ok num" and "number_text t"
  shows "num t \<noteq> []" and "hd (num t) \<notin> set ''ntf[{'' \<union> {CHR 0x22}"
proof -
  have "number_text (num t)" using assms by (simp add: norm_number_ok_def)
  then show "num t \<noteq> []" by (simp add: number_text_def)
  then have "hd (num t) \<in> set number_chars"
    using \<open>number_text (num t)\<close> hd_in_set by (auto simp: number_text_def)
  then show "hd (num t) \<notin> set ''ntf[{'' \<union> {CHR 0x22}"
    by (auto simp: number_chars_def)
qed

lemma bool_text: "(if b then ''true'' else ''false'') \<noteq> []"
    "hd (if b then ''true'' else ''false'') \<in> set ''tf''"
  by auto

text \<open>Documents of different constructors start with different characters.\<close>

definition start_class :: "json \<Rightarrow> nat" where
  "start_class v = (case v of JNull \<Rightarrow> 0 | JBool _ \<Rightarrow> 1 | JNum _ \<Rightarrow> 2 | JStr _ \<Rightarrow> 3 | JArr _ \<Rightarrow> 4 | JObj _ \<Rightarrow> 5)"

lemma start_class_hd:
  assumes "norm_number_ok num" and "numbers_ok v" and "start_class v = k"
  shows "write_json html num v \<noteq> [] \<and> hd (write_json html num v) \<in>
    (if k = 0 then {CHR ''n''} else if k = 1 then set ''tf'' else if k = 2 then - (set ''ntf[{'' \<union> {CHR 0x22})
     else if k = 3 then {CHR 0x22} else if k = 4 then {CHR ''[''} else {CHR ''{''})"
proof (cases v)
  case (JNum t)
  with assms number_start [of num t] show ?thesis by (simp add: start_class_def)
qed (use assms(3) in \<open>auto simp: start_class_def write_json_eqs\<close>)

lemma reads_start_class:
  assumes "norm_number_ok num" and "numbers_ok v" and "numbers_ok w" and "start_class v \<noteq> start_class w"
  shows "reads (write_json html num) (norm_json num) v w"
proof (rule reads_diff)
  show "hd (write_json html num v) \<noteq> hd (write_json html num w)"
    using start_class_hd [OF assms(1,2) refl] start_class_hd [OF assms(1,3) refl] assms(4)
    by (cases v; cases w) (auto simp: start_class_def)
qed (use start_class_hd [OF assms(1,2) refl] start_class_hd [OF assms(1,3) refl] in auto)

lemma write_json_reads:
  "norm_number_ok num \<Longrightarrow> numbers_ok v \<Longrightarrow> numbers_ok w \<Longrightarrow> reads (write_json html num) (norm_json num) v w"
proof (induction v arbitrary: w)
  case (JBool b)
  show ?case
  proof (cases w)
    case (JBool c)
    then show ?thesis by (auto simp: reads_def)
  qed (use JBool in \<open>auto intro!: reads_start_class simp: start_class_def\<close>)
next
  case (JNum t)
  note prems = JNum.prems
  show ?case
  proof (cases w)
    case (JNum u)
    with prems have "number_text (num t)" "number_text (num u)"
      by (simp_all add: norm_number_ok_def)
    then show ?thesis unfolding reads_def \<open>w = JNum u\<close> write_json.simps norm_json.simps
      using number_prefix by blast
  qed (use JNum in \<open>auto intro!: reads_start_class simp: start_class_def\<close>)
next
  case (JStr s)
  show ?case
  proof (cases w)
    case (JStr u)
    then show ?thesis by (auto simp: reads_def dest: go_quote_prefix)
  qed (use JStr in \<open>auto intro!: reads_start_class simp: start_class_def\<close>)
next
  case (JArr vs)
  note prems = JArr.prems and IH = JArr.IH
  show ?case
  proof (cases w)
    case (JArr us)
    have elements: "\<forall>x \<in> set vs. \<forall>y \<in> set us. reads (write_json html num) (norm_json num) x y"
      using IH prems \<open>w = JArr us\<close> by (simp add: numbers_ok_members)
    have start: "\<forall>x \<in> set vs \<union> set us. write_json html num x \<noteq> [] \<and> hd (write_json html num x) \<notin> set '',]}''"
      using write_json_start prems \<open>w = JArr us\<close> by (metis Un_iff numbers_ok_members(1))
    have "map (norm_json num) vs = map (norm_json num) us \<and> r = s"
      if "commas (map (write_json html num) vs) @ CHR '']'' # r = commas (map (write_json html num) us) @ CHR '']'' # s" for r s
      using that by (intro commas_reads [OF elements start]) simp_all
    then show ?thesis using JArr by (simp add: reads_def)
  qed (use JArr in \<open>auto intro!: reads_start_class simp: start_class_def\<close>)
next
  case (JObj kvs)
  note prems = JObj.prems and IH = JObj.IH
  show ?case
  proof (cases w)
    case (JObj lvs)
    have entries: "\<forall>a \<in> set (sort_key fst kvs). \<forall>b \<in> set (sort_key fst lvs).
        reads (entry_text html num) (map_prod id (norm_json num)) a b"
    proof (intro ballI entry_reads)
      fix a b assume "a \<in> set (sort_key fst kvs)" "b \<in> set (sort_key fst lvs)"
      then show "reads (write_json html num) (norm_json num) (snd a) (snd b)"
        using prems \<open>w = JObj lvs\<close> by (intro IH [of a]) (simp_all add: numbers_ok_members snds.simps)
    qed
    have "map (map_prod id (norm_json num)) (sort_key fst kvs) = map (map_prod id (norm_json num)) (sort_key fst lvs) \<and> r = s"
      if "commas (map (entry_text html num) (sort_key fst kvs)) @ CHR ''}'' # r
        = commas (map (entry_text html num) (sort_key fst lvs)) @ CHR ''}'' # s" for r s
      using that by (intro commas_reads [OF entries] ballI entry_text_start) simp_all
    then show ?thesis using JObj by (simp add: reads_def write_json_JObj norm_json_JObj)
  qed (use JObj in \<open>auto intro!: reads_start_class simp: start_class_def\<close>)
next
  case JNull
  show ?case
  proof (cases w)
    case JNull
    then show ?thesis by (simp add: reads_def)
  qed (use JNull in \<open>auto intro!: reads_start_class simp: start_class_def\<close>)
qed

subsection \<open>Values and calls\<close>

text \<open>
  The values a JSON decoder yields: finite floats, strings, booleans, null, arrays, objects.
  Two of them are the same value when they agree up to the order of map entries.
\<close>

fun json_value :: "any \<Rightarrow> bool" where
  "json_value (VFloat f) = (\<exists>q. f = Fin q)"
| "json_value (VInt _) = False"
| "json_value (VOther _) = False"
| "json_value (VArr vs) = (\<forall>v \<in> set vs. json_value v)"
| "json_value (VObj kvs) = (\<forall>kv \<in> set kvs. json_value (snd kv))"
| "json_value _ = True"

fun norm_any :: "any \<Rightarrow> any" where
  "norm_any (VArr vs) = VArr (map norm_any vs)"
| "norm_any (VObj kvs) = VObj (sort_key fst (map (map_prod id norm_any) kvs))"
| "norm_any v = v"

lemma norm_any_VObj: "norm_any (VObj kvs) = VObj (map (map_prod id norm_any) (sort_key fst kvs))"
  by (simp add: sort_key_map_prod)

declare norm_any.simps(2) [simp del]

definition json_of :: "'z env_scheme \<Rightarrow> any \<Rightarrow> json" where
  "json_of E v = the (to_json E v)"

lemma those_Some: "\<forall>x \<in> set xs. f x = Some (g x) \<Longrightarrow> those (map f xs) = Some (map g xs)"
  by (induction xs) auto

lemma to_json_json_value: "json_value v \<Longrightarrow> to_json E v = Some (json_of E v)"
proof (induction v)
  case (VArr vs)
  then have "those (map (to_json E) vs) = Some (map (json_of E) vs)" by (intro those_Some) auto
  then show ?case by (simp add: json_of_def)
next
  case (VObj kvs)
  have "those (map (\<lambda>(k, v). map_option (Pair k) v) (map (map_prod id (to_json E)) kvs))
      = Some (map (map_prod id (json_of E)) kvs)"
    unfolding map_map using VObj by (intro those_Some) (auto simp: snds.simps)
  then show ?case by (simp add: json_of_def)
qed (auto simp: json_of_def)

lemma json_of_simps [simp]:
  "json_of E VNull = JNull" "json_of E (VBool b) = JBool b" "json_of E (VStr s) = JStr s"
  "json_of E (VFloat (Fin q)) = JNum (en_float_text E (Fin q))"
  by (simp_all add: json_of_def)

lemma json_of_VArr:
  assumes "json_value (VArr vs)"
  shows "json_of E (VArr vs) = JArr (map (json_of E) vs)"
proof -
  have "those (map (to_json E) vs) = Some (map (json_of E) vs)"
    using assms by (intro those_Some) (simp add: to_json_json_value)
  then show ?thesis by (simp add: json_of_def [of E "VArr vs"])
qed

lemma json_of_VObj:
  assumes "json_value (VObj kvs)"
  shows "json_of E (VObj kvs) = JObj (map (map_prod id (json_of E)) kvs)"
proof -
  have "those (map (\<lambda>(k, v). map_option (Pair k) v) (map (map_prod id (to_json E)) kvs))
      = Some (map (map_prod id (json_of E)) kvs)"
    unfolding map_map using assms to_json_json_value by (intro those_Some) fastforce
  then show ?thesis by (simp add: json_of_def [of E "VObj kvs"])
qed

lemma json_of_numbers_ok: "number_ok E \<Longrightarrow> json_value v \<Longrightarrow> numbers_ok (json_of E v)"
proof (induction v)
  case (VObj kvs)
  then show ?case by (auto simp: json_of_VObj numbers_ok_members snds.simps)
next
  case (VArr vs)
  then show ?case by (auto simp: json_of_VArr numbers_ok_members)
qed (auto simp: number_ok_def)

lemma map_eq_transfer:
  "map f xs = map f ys \<Longrightarrow> \<forall>x \<in> set xs. \<forall>y \<in> set ys. f x = f y \<longrightarrow> g x = g y \<Longrightarrow> map g xs = map g ys"
proof (induction xs arbitrary: ys)
  case (Cons x xs)
  then show ?case by (cases ys) auto
qed simp

lemma json_of_reads:
  assumes "number_ok E"
  shows "json_value v \<Longrightarrow> json_value w \<Longrightarrow>
     norm_json (en_norm_number E) (json_of E v) = norm_json (en_norm_number E) (json_of E w) \<Longrightarrow> norm_any v = norm_any w"
proof (induction v arbitrary: w)
  case (VArr vs)
  note IH = VArr.IH and prems = VArr.prems
  show ?case
  proof (cases w)
    case (VArr us)
    with prems have "map (\<lambda>v. norm_json (en_norm_number E) (json_of E v)) vs = map (\<lambda>v. norm_json (en_norm_number E) (json_of E v)) us"
      by (simp add: json_of_VArr comp_def)
    then have "map norm_any vs = map norm_any us"
      using IH prems VArr by (elim map_eq_transfer) auto
    with VArr show ?thesis by simp
  qed (use prems in \<open>auto simp: json_of_VArr json_of_VObj norm_json_JObj\<close>)
next
  case (VObj kvs)
  note IH = VObj.IH and prems = VObj.prems
  show ?case
  proof (cases w)
    case (VObj lvs)
    let ?f = "\<lambda>kv. (fst kv, norm_json (en_norm_number E) (json_of E (snd kv)))"
    have f: "map_prod id (norm_json (en_norm_number E)) \<circ> map_prod id (json_of E) = ?f" by auto
    from prems VObj have "map ?f (sort_key fst kvs) = map ?f (sort_key fst lvs)"
      by (simp add: json_of_VObj norm_json_JObj sort_key_map_prod f)
    then have "map (map_prod id norm_any) (sort_key fst kvs) = map (map_prod id norm_any) (sort_key fst lvs)"
    proof (rule map_eq_transfer, intro ballI impI)
      fix a b
      assume "a \<in> set (sort_key fst kvs)" "b \<in> set (sort_key fst lvs)" "?f a = ?f b"
      moreover from this have "norm_any (snd a) = norm_any (snd b)"
        using prems VObj by (intro IH [of a "snd a" "snd b"]) (simp_all add: snds.simps)
      ultimately show "map_prod id norm_any a = map_prod id norm_any b"
        by (simp add: prod_eq_iff)
    qed
    with VObj show ?thesis by (simp add: norm_any_VObj)
  qed (use prems in \<open>auto simp: json_of_VArr json_of_VObj norm_json_JObj\<close>)
next
  case (VFloat f)
  then obtain p where "f = Fin p" by auto
  with VFloat assms show ?case
    by (cases w) (auto simp: number_ok_def json_of_VArr json_of_VObj norm_json_JObj)
next
  case VNull
  then show ?case by (cases w) (auto simp: json_of_VArr json_of_VObj norm_json_JObj)
next
  case (VBool b)
  then show ?case by (cases w) (auto simp: json_of_VArr json_of_VObj norm_json_JObj)
next
  case (VStr s)
  then show ?case by (cases w) (auto simp: json_of_VArr json_of_VObj norm_json_JObj)
qed auto

lemma sort_key_idem [simp]: "sort_key f (sort_key f xs) = sort_key f xs"
  by (simp add: sort_key_id_if_sorted)

lemma write_canon_norm:
  "json_value v \<Longrightarrow> json_value (norm_any v) \<and> write_canon E (json_of E (norm_any v)) = write_canon E (json_of E v)"
proof (induction v)
  case (VArr vs)
  then have "json_value (VArr (map norm_any vs))" by auto
  with VArr show ?case
    by (simp add: write_canon_def json_of_VArr comp_def) (metis (mono_tags, lifting) map_eq_conv)
next
  case (VObj kvs)
  then have v: "json_value (VObj (map (map_prod id norm_any) (sort_key fst kvs)))"
    by (auto simp: snds.simps)
  have "map (entry_text True (en_norm_number E) \<circ> map_prod id (json_of E) \<circ> map_prod id norm_any) (sort_key fst kvs)
      = map (entry_text True (en_norm_number E) \<circ> map_prod id (json_of E)) (sort_key fst kvs)"
    using VObj by (intro map_cong) (auto simp: entry_text_def write_canon_def snds.simps)
  moreover have "write_canon E (json_of E (norm_any (VObj kvs))) = CHR ''{'' #
      commas (map (entry_text True (en_norm_number E) \<circ> map_prod id (json_of E) \<circ> map_prod id norm_any) (sort_key fst kvs)) @ ''}''"
    unfolding write_canon_def norm_any_VObj json_of_VObj [OF v] write_json_JObj
    by (simp add: sort_key_map_prod sort_key_map_prod2 comp_assoc)
  moreover have "write_canon E (json_of E (VObj kvs)) = CHR ''{'' #
      commas (map (entry_text True (en_norm_number E) \<circ> map_prod id (json_of E)) (sort_key fst kvs)) @ ''}''"
    unfolding write_canon_def json_of_VObj [OF VObj.prems] write_json_JObj by (simp add: sort_key_map_prod)
  ultimately show ?case using v by (simp only: norm_any_VObj)
qed auto

lemma write_canon_value:
  assumes "number_ok E" and "json_value v" and "json_value w"
  shows "write_canon E (json_of E v) = write_canon E (json_of E w) \<longleftrightarrow> norm_any v = norm_any w"
proof
  assume "write_canon E (json_of E v) = write_canon E (json_of E w)"
  then have "norm_json (en_norm_number E) (json_of E v) = norm_json (en_norm_number E) (json_of E w)"
    using write_json_reads [where html = True and num = "en_norm_number E" and v = "json_of E v" and w = "json_of E w"] assms
    by (simp add: json_of_numbers_ok reads_def write_canon_def number_ok_def) (metis append_Nil2 delimited_def)
  with assms show "norm_any v = norm_any w" by (intro json_of_reads)
qed (metis assms(2,3) write_canon_norm)

lemma hex_encode_Cons: "hex_encode (c # s)
    = hex_digits ! (of_char c div 16) # hex_digits ! (of_char c mod 16) # hex_encode s"
  by (simp add: hex_encode_def bytes_of_def)

lemma hex_encode_inject [simp]: "hex_encode s = hex_encode t \<longleftrightarrow> s = t"
proof (induction s arbitrary: t)
  case Nil
  then show ?case by (cases t) (simp_all add: hex_encode_Cons, simp add: hex_encode_def bytes_of_def)
next
  case (Cons c s)
  show ?case
  proof (cases t)
    case (Cons d t')
    have "hex_digits ! (of_char c div 16) = hex_digits ! (of_char d div 16)
        \<and> hex_digits ! (of_char c mod 16) = hex_digits ! (of_char d mod 16) \<longleftrightarrow> c = d"
      using u_escape_inject [OF of_char_less of_char_less, of c d] by (simp add: u_escape_def)
    then show ?thesis using Cons.IH Cons by (auto simp: hex_encode_Cons)
  qed (simp add: hex_encode_Cons, simp add: hex_encode_def bytes_of_def)
qed

definition json_call :: "call \<Rightarrow> bool" where
  "json_call c \<longleftrightarrow> json_value (VObj (cl_Args c))"

definition same_call :: "call \<Rightarrow> call \<Rightarrow> bool" where
  "same_call a b \<longleftrightarrow> cl_Tool a = cl_Tool b \<and> cl_Resource a = cl_Resource b
     \<and> norm_any (VObj (cl_Args a)) = norm_any (VObj (cl_Args b))"

text \<open>The text whose hash is the action hash of a call.\<close>

definition action_text :: "'z env_scheme \<Rightarrow> call \<Rightarrow> string" where
  "action_text E c = write_canon E (json_of E (call_object c))"

lemma call_object_json: "json_call c \<Longrightarrow> json_value (call_object c)"
  by (auto simp: call_object_def json_call_def)

lemma action_hash_text: "json_call c \<Longrightarrow> action_hash E c = hex_encode (en_sha256 E (action_text E c))"
  by (simp add: action_hash_def canonical_json_def to_json_json_value call_object_json action_text_def)

lemma norm_call_object: "norm_any (call_object a) = norm_any (call_object b) \<longleftrightarrow> same_call a b"
proof -
  have "sort_key fst [(''tool'', x), (''resource'', y), (''args'', z)]
      = [(''args'', z), (''resource'', y), (''tool'', x)]" for x y z :: any
    by code_simp
  then have "norm_any (call_object c) = VObj [(''args'', norm_any (VObj (cl_Args c))),
      (''resource'', VStr (cl_Resource c)), (''tool'', VStr (cl_Tool c))]" for c
    unfolding call_object_def norm_any_VObj [of "[(''tool'', _), _, _]"] by simp
  then show ?thesis by (simp add: same_call_def conj_commute conj_left_commute)
qed

lemma action_text_iff:
  "number_ok E \<Longrightarrow> json_call a \<Longrightarrow> json_call b \<Longrightarrow> action_text E a = action_text E b \<longleftrightarrow> same_call a b"
  by (simp add: action_text_def write_canon_value call_object_json norm_call_object)

lemma toy_number_ok [simp]: "number_ok (toy_env cs)"
proof -
  have d: "CHR ''e'' \<notin> insert (CHR ''-'') (set digits)" "insert (CHR ''-'') (set digits) \<subseteq> set number_chars"
    "CHR ''e'' \<in> set number_chars"
    by code_simp+
  have e: "CHR ''e'' \<notin> set (int_text i)" and n: "set (int_text i) \<subseteq> set number_chars" for i
    using set_int_text d(1,2) by blast+
  have "number_text (rat_text q)" for q
    unfolding number_text_def rat_text_def using n d(3) by simp
  moreover have "p = q" if "rat_text p = rat_text q" for p q
  proof -
    have "takeWhile (\<lambda>c. c \<noteq> CHR ''e'') (rat_text r) = int_text (fst (quotient_of r))
        \<and> dropWhile (\<lambda>c. c \<noteq> CHR ''e'') (rat_text r) = CHR ''e'' # int_text (snd (quotient_of r))" for r
    proof -
      have "\<forall>c \<in> set (int_text i). c \<noteq> CHR ''e''" for i using e by metis
      then show ?thesis by (simp add: rat_text_def takeWhile_append2 dropWhile_append2)
    qed
    with that have "quotient_of p = quotient_of q"
      by (metis int_text_inject list.inject prod_eqI)
    then show "p = q" by (rule quotient_of_inject)
  qed
  ultimately show ?thesis by (auto simp: number_ok_def norm_number_ok_def toy_env_def)
qed

subsection \<open>Properties\<close>


definition ex_call_ab :: call where
  "ex_call_ab = \<lparr>cl_Tool = ''pay'', cl_Resource = ''acct/1'',
     cl_Args = [(''to'', VStr ''a,b''), (''amount'', VFloat (Fin 10))]\<rparr>"

definition ex_call_ba :: call where
  "ex_call_ba = ex_call_ab\<lparr>cl_Args := [(''amount'', VFloat (Fin 10)), (''to'', VStr ''a,b'')]\<rparr>"

definition ex_call_other :: call where
  "ex_call_other = ex_call_ab\<lparr>cl_Args := [(''amount'', VFloat (Fin 100)), (''to'', VStr ''a,b'')]\<rparr>"

definition wide_env :: env where
  "wide_env = (toy_env [])\<lparr>en_sha256 := (\<lambda>s. s)\<rparr>"


text \<open>
  The exception: the error of the encoder is dropped, so all calls that cannot be encoded,
  such as those with an infinite or NaN argument from an in-process caller, have the same hash.
\<close>

theorem action_hash_unencodable:
  assumes "lookup (cl_Args a) m = Some (VFloat f)" and "lookup (cl_Args b) n = Some (VFloat g)"
    and "f \<in> {NaN, PosInf, NegInf}" and "g \<in> {NaN, PosInf, NegInf}"
  shows "action_hash E a = action_hash E b"
proof -
  have none: "those (map (\<lambda>(k, v). map_option (Pair k) v) (map (map_prod id (to_json E)) kvs)) = None"
    if "lookup kvs k = Some (VFloat h)" "h \<in> {NaN, PosInf, NegInf}" for kvs k h
    using that by (induction kvs) (auto split: if_splits option.splits)
  have "canonical_json E (call_object a) = None" "canonical_json E (call_object b) = None"
    using none [OF assms(1,3)] none [OF assms(2,4)]
    by (simp_all add: canonical_json_def call_object_def del: map_map)
  then show ?thesis by (simp add: action_hash_def)
qed

theorem action_hash_unencodable_witness:
  "action_hash wide_env \<lparr>cl_Tool = ''pay'', cl_Resource = ''a'', cl_Args = [(''n'', VFloat NaN)]\<rparr>
     = action_hash wide_env \<lparr>cl_Tool = ''wipe'', cl_Resource = ''b'', cl_Args = [(''n'', VFloat PosInf)]\<rparr>"
  by (rule action_hash_unencodable [of _ "''n''" NaN _ "''n''" PosInf]) simp_all

end
