(* ===== verification/Attenuate_Chain.thy ===== *)
theory Attenuate_Chain
  imports Canonical_Json Scope_Properties
begin

section \<open>Offline attenuation chains (\<^verbatim>\<open>internal/attenuate/attenuate.go\<close>)\<close>

text \<open>
  A holder appends signed blocks to a token. \<open>append_block\<close> is \<^verbatim>\<open>Append\<close> and \<^verbatim>\<open>AppendCnf\<close>,
  \<open>verify_block\<close> the body of the loop of \<^verbatim>\<open>Verify\<close> and \<open>chain_verify\<close> the whole function, with
  its errors as \<open>att_err\<close>. The environment gains the JSON encoding of a block and the decoding
  of a chain.

  The lemmas carry an invariant of the effective authority through the loop: it allows what the
  base token and all blocks so far allow, each effective scope descends from the base scope its
  origin names, and the expiry and the holder key change only as the blocks may change them.
\<close>

subsection \<open>Data\<close>

record block =
  bk_Scopes :: "scope list option"
  bk_Expires :: int
  bk_Cnf :: "cnf option"
  bk_Nonce :: string
  bk_Signer :: string
  bk_PrevSig :: string
  bk_Signature :: string

record chain =
  ch_BaseToken :: string
  ch_Blocks :: "block list"

record chain_env = env +
  ce_marshal_block :: "block \<Rightarrow> string option"
  ce_unmarshal_chain :: "string \<Rightarrow> chain option"

datatype att_err =
    AttBaseSignature jwt_err
  | AttBaseExpired
  | AttMalformedBase
  | AttMarshal
  | AttBlockSig int
  | AttChainBroken int
  | AttWidened int
  | AttEmpty int

record effective =
  ef_Base :: claims
  ef_Scopes :: "scope list"
  ef_Expires :: int
  ef_Cnf :: "cnf option"
  ef_Origins :: "int list"

subsection \<open>Building a chain\<close>

definition signing_bytes :: "'z chain_env_scheme \<Rightarrow> block \<Rightarrow> string option" where
  "signing_bytes E b = ce_marshal_block E (b\<lparr>bk_Signature := []\<rparr>)"

definition split_jwt :: "string \<Rightarrow> string list" where
  "split_jwt s = split_byte s (CHR ''.'')"

definition base_sig :: "string \<Rightarrow> string option" where
  "base_sig tok =
     (let parts = split_jwt tok in
      if length parts \<noteq> 3 then None else raw_url_decode False (parts ! 2))"

definition new_chain :: "string \<Rightarrow> chain" where
  "new_chain base = \<lparr>ch_BaseToken = base, ch_Blocks = []\<rparr>"

text \<open>The id drawn for an empty nonce is the argument \<open>fresh\<close>.\<close>

definition append_block ::
    "'z chain_env_scheme \<Rightarrow> string \<Rightarrow> chain \<Rightarrow> string \<Rightarrow> scope list option \<Rightarrow> int \<Rightarrow> cnf option \<Rightarrow> string \<Rightarrow> att_err + chain" where
  "append_block E fresh c priv scopes expires cnf nonce =
     (case (if length (ch_Blocks c) > 0 then Some (bk_Signature (last (ch_Blocks c))) else base_sig (ch_BaseToken c)) of
        None \<Rightarrow> Inl AttMalformedBase
      | Some prev \<Rightarrow>
          let b = \<lparr>bk_Scopes = scopes, bk_Expires = expires, bk_Cnf = cnf,
                   bk_Nonce = (if nonce = [] then fresh else nonce),
                   bk_Signer = en_public E priv, bk_PrevSig = prev, bk_Signature = []\<rparr> in
          (case signing_bytes E b of
             None \<Rightarrow> Inl AttMarshal
           | Some sb \<Rightarrow> Inr (c\<lparr>ch_Blocks := ch_Blocks c @ [b\<lparr>bk_Signature := en_sign E priv sb\<rparr>]\<rparr>)))"

subsection \<open>Verification\<close>

text \<open>Every requested scope against every effective one, with the origin of the latter.\<close>

definition attenuate_with_origin ::
    "scope list \<Rightarrow> int list \<Rightarrow> scope list \<Rightarrow> scope list \<times> int list" where
  "attenuate_with_origin parent origins requested =
     (let res = concat (map (\<lambda>r. List.map_filter
          (\<lambda>(p, org). map_option (\<lambda>s. (s, org)) (scope_intersect r p)) (zip parent origins)) requested)
      in (map fst res, map snd res))"

fun bytes_equal :: "string \<Rightarrow> string \<Rightarrow> bool" where
  "bytes_equal [] [] = True"
| "bytes_equal (a # as) (b # bs) = (if a \<noteq> b then False else bytes_equal as bs)"
| "bytes_equal _ _ = False"

definition verify_block ::
    "'z chain_env_scheme \<Rightarrow> int \<Rightarrow> block \<Rightarrow> effective \<times> string \<Rightarrow> att_err + effective \<times> string" where
  "verify_block E i b ep =
     (let (eff, prev) = ep in
      if \<not> bytes_equal (bk_PrevSig b) prev then Inl (AttChainBroken i)
      else
        (case signing_bytes E b of
           None \<Rightarrow> Inl AttMarshal
         | Some sb \<Rightarrow>
             if length (bk_Signer b) \<noteq> 32 \<or> \<not> en_verify E (bk_Signer b) sb (bk_Signature b)
             then Inl (AttBlockSig i)
             else
               let (scopes, origins) =
                     (case bk_Scopes b of
                        None \<Rightarrow> (ef_Scopes eff, ef_Origins eff)
                      | Some req \<Rightarrow> attenuate_with_origin (ef_Scopes eff) (ef_Origins eff) req) in
               if bk_Scopes b \<noteq> None \<and> length scopes = 0 then Inl (AttEmpty i)
               else if bk_Scopes b \<noteq> None \<and> \<not> scopes_subset scopes (ef_Scopes eff) then Inl (AttWidened i)
               else if bk_Expires b \<noteq> 0 \<and> ef_Expires eff < bk_Expires b then Inl (AttWidened i)
               else if bk_Cnf b \<noteq> None
                 \<and> (case ef_Cnf eff of None \<Rightarrow> False | Some k \<Rightarrow> thumbprint E (bk_Signer b) \<noteq> cn_JKT k)
               then Inl (AttWidened i)
               else Inr (eff\<lparr>ef_Scopes := scopes, ef_Origins := origins,
                             ef_Expires := (if bk_Expires b \<noteq> 0 then bk_Expires b else ef_Expires eff),
                             ef_Cnf := (if bk_Cnf b \<noteq> None then bk_Cnf b else ef_Cnf eff)\<rparr>,
                         bk_Signature b)))"

fun verify_blocks ::
    "'z chain_env_scheme \<Rightarrow> int \<Rightarrow> block list \<Rightarrow> effective \<times> string \<Rightarrow> att_err + effective \<times> string" where
  "verify_blocks E i [] ep = Inr ep"
| "verify_blocks E i (b # bs) ep =
     (case verify_block E i b ep of Inl e \<Rightarrow> Inl e | Inr ep' \<Rightarrow> verify_blocks E (i + 1) bs ep')"

definition base_effective :: "claims \<Rightarrow> effective" where
  "base_effective c = \<lparr>ef_Base = c, ef_Scopes = cm_Scopes c, ef_Expires = cm_Expires c, ef_Cnf = cm_Cnf c,
     ef_Origins = map int [0..<length (cm_Scopes c)]\<rparr>"

definition chain_verify :: "'z chain_env_scheme \<Rightarrow> string \<Rightarrow> chain \<Rightarrow> time \<Rightarrow> att_err + effective" where
  "chain_verify E pub c now =
     (case jwt_verify E pub (ch_BaseToken c) now of
        (base, Some e) \<Rightarrow> Inl (if e = JwtExpired then AttBaseExpired else AttBaseSignature e)
      | (base, None) \<Rightarrow>
          (case base_sig (ch_BaseToken c) of
             None \<Rightarrow> Inl AttMalformedBase
           | Some sig \<Rightarrow>
               (case verify_blocks E 0 (ch_Blocks c) (base_effective base, sig) of
                  Inl e \<Rightarrow> Inl e
                | Inr (eff, _) \<Rightarrow> if ef_Expires eff \<le> unix now then Inl AttBaseExpired else Inr eff)))"

subsection \<open>One block\<close>

lemma bytes_equal_iff [simp]: "bytes_equal a b \<longleftrightarrow> a = b"
  by (induction a b rule: bytes_equal.induct) auto

lemma fst_attenuate_with_origin:
  "length parent = length origins \<Longrightarrow>
     fst (attenuate_with_origin parent origins requested) = attenuate parent requested"
proof -
  have "map fst (List.map_filter (\<lambda>(p, org). map_option (\<lambda>s. (s, org)) (f p)) (zip ps os)) = List.map_filter f ps"
    if "length ps = length os" for f :: "scope \<Rightarrow> scope option" and ps and os :: "int list"
    using that by (induction ps os rule: list_induct2) (simp_all add: List.map_filter_simps split: option.split)
  then show "length parent = length origins \<Longrightarrow> ?thesis"
    by (simp add: attenuate_with_origin_def attenuate_def Let_def map_concat comp_def)
qed

text \<open>What a successful step requires, and what it yields.\<close>

lemma verify_block_InrD:
  assumes "verify_block E i b (eff, prev) = Inr (eff', prev')"
  shows "bk_PrevSig b = prev" and "prev' = bk_Signature b"
    and "\<exists>sb. signing_bytes E b = Some sb \<and> en_verify E (bk_Signer b) sb (bk_Signature b)"
    and "length (bk_Signer b) = 32"
    and "ef_Base eff' = ef_Base eff"
    and "(ef_Scopes eff', ef_Origins eff') =
      (case bk_Scopes b of None \<Rightarrow> (ef_Scopes eff, ef_Origins eff)
       | Some req \<Rightarrow> attenuate_with_origin (ef_Scopes eff) (ef_Origins eff) req)"
    and "ef_Expires eff' = (if bk_Expires b \<noteq> 0 then bk_Expires b else ef_Expires eff)"
    and "ef_Expires eff' \<le> ef_Expires eff"
    and "ef_Cnf eff' = (if bk_Cnf b \<noteq> None then bk_Cnf b else ef_Cnf eff)"
    and "bk_Cnf b \<noteq> None \<Longrightarrow> ef_Cnf eff = Some k \<Longrightarrow> thumbprint E (bk_Signer b) = cn_JKT k"
    and "bk_Scopes b \<noteq> None \<Longrightarrow> ef_Scopes eff' \<noteq> [] \<and> scopes_subset (ef_Scopes eff') (ef_Scopes eff)"
  using assms by (auto simp: verify_block_def Let_def split: if_splits option.splits prod.splits)

lemma attenuate_with_origin_zip:
  assumes "attenuate_with_origin parent origins requested = (ss, os)"
  shows "length ss = length os \<and> (\<forall>(s, org) \<in> set (zip ss os). \<exists>r \<in> set requested. \<exists>p.
     (p, org) \<in> set (zip parent origins) \<and> scope_intersect r p = Some s)"
proof -
  define res where "res = concat (map (\<lambda>r. List.map_filter
      (\<lambda>(p, org). map_option (\<lambda>s. (s, org)) (scope_intersect r p)) (zip parent origins)) requested)"
  have so: "ss = map fst res" "os = map snd res"
    using assms by (auto simp: attenuate_with_origin_def res_def Let_def)
  then have "zip ss os = res" by (simp add: zip_map_fst_snd)
  moreover have "\<forall>(s, org) \<in> set res. \<exists>r \<in> set requested. \<exists>p.
      (p, org) \<in> set (zip parent origins) \<and> scope_intersect r p = Some s"
    by (auto simp: res_def set_map_filter split: prod.splits)
  ultimately show ?thesis using so by simp
qed

subsection \<open>The invariant of the loop\<close>

text \<open>
  Each effective scope is narrower than the base scope its origin names; the expiry is at most
  the base's.
\<close>

definition descends :: "claims \<Rightarrow> effective \<Rightarrow> bool" where
  "descends base eff \<longleftrightarrow> ef_Base eff = base
     \<and> length (ef_Origins eff) = length (ef_Scopes eff)
     \<and> (\<forall>(s, org) \<in> set (zip (ef_Scopes eff) (ef_Origins eff)).
          0 \<le> org \<and> org < int (length (cm_Scopes base)) \<and> scope_numeric s
          \<and> scope_meet.narrower s (cm_Scopes base ! nat org))
     \<and> ef_Expires eff \<le> cm_Expires base"

text \<open>Blocks whose numeric bounds are numbers, as all that arrive as JSON, and of positive budgets besides.\<close>

definition finite_block :: "block \<Rightarrow> bool" where
  "finite_block b \<longleftrightarrow> (case bk_Scopes b of None \<Rightarrow> True | Some ss \<Rightarrow> list_all scope_numeric ss)"

definition numeric_block :: "block \<Rightarrow> bool" where
  "numeric_block b \<longleftrightarrow> (case bk_Scopes b of None \<Rightarrow> True
     | Some ss \<Rightarrow> list_all (\<lambda>s. scope_numeric s \<and> 0 < sc_MaxCalls s) ss)"

lemma numeric_finite_block: "numeric_block b \<Longrightarrow> finite_block b"
  by (auto simp: numeric_block_def finite_block_def list_all_iff split: option.splits)

lemma base_descends:
  assumes "list_all scope_numeric (cm_Scopes c)"
  shows "descends c (base_effective c)"
  using assms scope_meet.narrower_refl
  by (auto simp: descends_def base_effective_def set_zip list_all_length)

lemma verify_block_descends:
  assumes "verify_block E i b (eff, prev) = Inr (eff', prev')" and "descends base eff" and "finite_block b"
  shows "descends base eff'"
proof -
  note v = verify_block_InrD [OF assms(1)]
  show ?thesis
  proof (cases "bk_Scopes b")
    case None
    then have "ef_Scopes eff' = ef_Scopes eff" "ef_Origins eff' = ef_Origins eff" using v(6) by simp_all
    with v(5,8) assms(2) show ?thesis by (simp add: descends_def)
  next
    case (Some req)
    then have a: "attenuate_with_origin (ef_Scopes eff) (ef_Origins eff) req = (ef_Scopes eff', ef_Origins eff')"
      using v(6) by simp
    have "0 \<le> org \<and> org < int (length (cm_Scopes base)) \<and> scope_numeric s
          \<and> scope_meet.narrower s (cm_Scopes base ! nat org)"
      if so: "(s, org) \<in> set (zip (ef_Scopes eff') (ef_Origins eff'))" for s org
    proof -
      obtain r p where rp: "r \<in> set req" "(p, org) \<in> set (zip (ef_Scopes eff) (ef_Origins eff))"
        "scope_intersect r p = Some s"
        using attenuate_with_origin_zip [OF a] so by blast
      then have p: "0 \<le> org" "org < int (length (cm_Scopes base))" "scope_numeric p"
        "scope_meet.narrower p (cm_Scopes base ! nat org)"
        using assms(2) by (auto simp: descends_def)
      moreover have "scope_numeric r" using assms(3) rp(1) Some by (simp add: finite_block_def list_all_iff)
      ultimately show ?thesis
        using rp(3) scope_meet.meet_narrower scope_meet.narrower_trans scope_intersect_numeric by blast
    qed
    with attenuate_with_origin_zip [OF a] v(5,8) assms(2) show ?thesis
      by (auto simp: descends_def)
  qed
qed

lemma verify_blocks_descends:
  "verify_blocks E i bs (eff, prev) = Inr (eff', prev') \<Longrightarrow> descends base eff \<Longrightarrow>
     \<forall>b \<in> set bs. finite_block b \<Longrightarrow> descends base eff'"
proof (induction bs arbitrary: i eff prev)
  case (Cons b bs)
  obtain eff1 prev1 where s: "verify_block E i b (eff, prev) = Inr (eff1, prev1)"
    using Cons.prems(1) by (auto split: sum.splits)
  with Cons show ?case using verify_block_descends [OF s] by simp
qed simp

text \<open>The calls the effective scopes allow are those that the base and all the blocks allow.\<close>

definition block_allows :: "call \<Rightarrow> block \<Rightarrow> bool" where
  "block_allows c b \<longleftrightarrow> (case bk_Scopes b of None \<Rightarrow> True | Some ss \<Rightarrow> \<exists>s \<in> set ss. scope_allows s c)"

lemma verify_block_allows:
  assumes "verify_block E i b (eff, prev) = Inr (eff', prev')" and "numeric_block b"
    and "length (ef_Origins eff) = length (ef_Scopes eff)"
    and "\<forall>s \<in> set (ef_Scopes eff). scope_numeric s \<and> 0 < sc_MaxCalls s"
    and "clean_call c" and "no_nan_call c"
  shows "(\<exists>s \<in> set (ef_Scopes eff'). scope_allows s c) \<longleftrightarrow>
       (\<exists>s \<in> set (ef_Scopes eff). scope_allows s c) \<and> block_allows c b"
    and "\<forall>s \<in> set (ef_Scopes eff'). scope_numeric s \<and> 0 < sc_MaxCalls s"
    and "length (ef_Origins eff') = length (ef_Scopes eff')"
proof -
  note v = verify_block_InrD [OF assms(1)]
  have "((\<exists>s \<in> set (ef_Scopes eff'). scope_allows s c) \<longleftrightarrow>
       (\<exists>s \<in> set (ef_Scopes eff). scope_allows s c) \<and> block_allows c b)
    \<and> (\<forall>s \<in> set (ef_Scopes eff'). scope_numeric s \<and> 0 < sc_MaxCalls s)
    \<and> length (ef_Origins eff') = length (ef_Scopes eff')"
  proof (cases "bk_Scopes b")
    case None
    then show ?thesis using v(6) assms(3,4) by (simp add: block_allows_def)
  next
    case (Some req)
    then have a: "attenuate_with_origin (ef_Scopes eff) (ef_Origins eff) req = (ef_Scopes eff', ef_Origins eff')"
      using v(6) by simp
    then have att: "ef_Scopes eff' = attenuate (ef_Scopes eff) req"
      using fst_attenuate_with_origin [of "ef_Scopes eff" "ef_Origins eff" req] assms(3) by simp
    have req: "\<forall>s \<in> set req. scope_numeric s \<and> 0 < sc_MaxCalls s"
      using assms(2) Some by (simp add: numeric_block_def list_all_iff)
    have "\<forall>s \<in> set (ef_Scopes eff'). scope_numeric s \<and> 0 < sc_MaxCalls s"
      unfolding att using req assms(4) scope_intersect_numeric scope_intersect_SomeD(7)
      by (auto elim!: attenuate_memberE)
    then show ?thesis
      using attenuate_allows [OF assms(5,6), of "ef_Scopes eff" req] req assms(4) Some
        attenuate_with_origin_zip [OF a]
      by (auto simp: att block_allows_def)
  qed
  then show "(\<exists>s \<in> set (ef_Scopes eff'). scope_allows s c) \<longleftrightarrow>
       (\<exists>s \<in> set (ef_Scopes eff). scope_allows s c) \<and> block_allows c b"
    and "\<forall>s \<in> set (ef_Scopes eff'). scope_numeric s \<and> 0 < sc_MaxCalls s"
    and "length (ef_Origins eff') = length (ef_Scopes eff')" by blast+
qed

lemma verify_blocks_allows:
  assumes "clean_call c" and "no_nan_call c"
  shows "verify_blocks E i bs (eff, prev) = Inr (eff', prev') \<Longrightarrow> \<forall>b \<in> set bs. numeric_block b \<Longrightarrow>
     length (ef_Origins eff) = length (ef_Scopes eff) \<Longrightarrow>
     \<forall>s \<in> set (ef_Scopes eff). scope_numeric s \<and> 0 < sc_MaxCalls s \<Longrightarrow>
     (\<exists>s \<in> set (ef_Scopes eff'). scope_allows s c) \<longleftrightarrow>
       (\<exists>s \<in> set (ef_Scopes eff). scope_allows s c) \<and> (\<forall>b \<in> set bs. block_allows c b)"
proof (induction bs arbitrary: i eff prev)
  case (Cons b bs)
  obtain eff1 prev1 where s: "verify_block E i b (eff, prev) = Inr (eff1, prev1)"
    using Cons.prems(1) by (auto split: sum.splits)
  have "numeric_block b" using Cons.prems(2) by simp
  note v = verify_block_allows [OF s this Cons.prems(3,4) assms]
  have "(\<exists>s \<in> set (ef_Scopes eff'). scope_allows s c) \<longleftrightarrow>
       (\<exists>s \<in> set (ef_Scopes eff1). scope_allows s c) \<and> (\<forall>b \<in> set bs. block_allows c b)"
    using Cons.prems(1,2) s by (intro Cons.IH [OF _ _ v(3,2)]) simp_all
  with v(1) show ?case by auto
qed simp

subsection \<open>Expiry, links and the holder key\<close>

lemma verify_blocks_expires:
  "verify_blocks E i bs (eff, prev) = Inr (eff', prev') \<Longrightarrow>
     ef_Expires eff' \<le> ef_Expires eff \<and> (\<forall>b \<in> set bs. bk_Expires b = 0 \<or> ef_Expires eff' \<le> bk_Expires b)"
proof (induction bs arbitrary: i eff prev)
  case (Cons b bs)
  obtain eff1 prev1 where s: "verify_block E i b (eff, prev) = Inr (eff1, prev1)"
    using Cons.prems(1) by (auto split: sum.splits)
  note v = verify_block_InrD [OF s]
  have "ef_Expires eff' \<le> ef_Expires eff1" "\<forall>b \<in> set bs. bk_Expires b = 0 \<or> ef_Expires eff' \<le> bk_Expires b"
    using Cons.IH [of "i + 1" eff1 prev1] Cons.prems s by simp_all
  with v(7,8) show ?case by (auto split: if_splits)
qed simp

lemma verify_blocks_append:
  "verify_blocks E i (xs @ ys) ep =
     (case verify_blocks E i xs ep of Inl e \<Rightarrow> Inl e | Inr ep' \<Rightarrow> verify_blocks E (i + int (length xs)) ys ep')"
  by (induction xs arbitrary: i ep) (auto split: sum.splits simp: algebra_simps)

text \<open>The signature that the block at index \<open>j\<close> must follow, and what its own signature must satisfy.\<close>

definition link_before :: "string \<Rightarrow> block list \<Rightarrow> nat \<Rightarrow> string" where
  "link_before prev bs j = (if j = 0 then prev else bk_Signature (bs ! (j - 1)))"

lemma verify_blocks_links:
  "verify_blocks E i bs (eff, prev) = Inr (eff', prev') \<Longrightarrow> j < length bs \<Longrightarrow>
     bk_PrevSig (bs ! j) = link_before prev bs j \<and> length (bk_Signer (bs ! j)) = 32
     \<and> (\<exists>sb. signing_bytes E (bs ! j) = Some sb \<and> en_verify E (bk_Signer (bs ! j)) sb (bk_Signature (bs ! j)))"
proof (induction bs arbitrary: i eff prev j)
  case (Cons b bs)
  obtain eff1 prev1 where s: "verify_block E i b (eff, prev) = Inr (eff1, prev1)"
    using Cons.prems(1) by (auto split: sum.splits)
  note v = verify_block_InrD [OF s]
  show ?case
  proof (cases j)
    case 0
    with v(1,3,4) show ?thesis by (simp add: link_before_def)
  next
    case (Suc k)
    have "verify_blocks E (i + 1) bs (eff1, prev1) = Inr (eff', prev')" using Cons.prems(1) s by simp
    from Cons.IH [OF this, of k] Cons.prems(2) Suc v(2) show ?thesis
      by (cases k) (auto simp: link_before_def)
  qed
qed simp

lemma verify_blocks_last:
  "verify_blocks E i bs (eff, prev) = Inr (eff', prev') \<Longrightarrow>
     prev' = (if bs = [] then prev else bk_Signature (last bs))"
proof (induction bs arbitrary: i eff prev)
  case (Cons b bs)
  obtain eff1 prev1 where s: "verify_block E i b (eff, prev) = Inr (eff1, prev1)"
    using Cons.prems(1) by (auto split: sum.splits)
  have "verify_blocks E (i + 1) bs (eff1, prev1) = Inr (eff', prev')" using Cons.prems s by simp
  from Cons.IH [OF this] verify_block_InrD(2) [OF s] show ?case by simp
qed simp

lemma verify_blocks_holder:
  "verify_blocks E i bs (eff, prev) = Inr (eff', prev') \<Longrightarrow> ef_Cnf eff = Some k \<Longrightarrow>
     \<forall>b \<in> set bs. bk_Cnf b = None \<or> thumbprint E (bk_Signer b) \<noteq> cn_JKT k \<Longrightarrow> ef_Cnf eff' = Some k"
proof (induction bs arbitrary: i eff prev)
  case (Cons b bs)
  obtain eff1 prev1 where s: "verify_block E i b (eff, prev) = Inr (eff1, prev1)"
    using Cons.prems(1) by (auto split: sum.splits)
  note v = verify_block_InrD [OF s]
  have "bk_Cnf b = None" using v(10) [OF _ Cons.prems(2)] Cons.prems(3) by (cases "bk_Cnf b") auto
  then have "ef_Cnf eff1 = Some k" using v(9) Cons.prems(2) by simp
  with Cons s show ?case by simp
qed simp

lemma chain_verify_InrD:
  assumes "chain_verify E pub c now = Inr eff"
  obtains base sig prev where "jwt_verify E pub (ch_BaseToken c) now = (base, None)"
    and "base_sig (ch_BaseToken c) = Some sig"
    and "verify_blocks E 0 (ch_Blocks c) (base_effective base, sig) = Inr (eff, prev)"
    and "unix now < ef_Expires eff"
  using assms
  by (auto simp: chain_verify_def linorder_not_le split: prod.splits option.splits sum.splits if_splits)

lemma verify_blocks_base:
  "verify_blocks E i bs (eff, prev) = Inr (eff', prev') \<Longrightarrow> ef_Base eff' = ef_Base eff"
proof (induction bs arbitrary: i eff prev)
  case (Cons b bs)
  obtain eff1 prev1 where s: "verify_block E i b (eff, prev) = Inr (eff1, prev1)"
    using Cons.prems(1) by (auto split: sum.splits)
  with Cons verify_block_InrD(5) [OF s] show ?case by simp
qed simp

lemma chain_verify_base:
  assumes "chain_verify E pub c now = Inr eff"
  shows "jwt_verify E pub (ch_BaseToken c) now = (ef_Base eff, None)"
    and "\<exists>sig prev. base_sig (ch_BaseToken c) = Some sig
      \<and> verify_blocks E 0 (ch_Blocks c) (base_effective (ef_Base eff), sig) = Inr (eff, prev)"
    and "unix now < ef_Expires eff"
proof -
  obtain base sig prev where b: "jwt_verify E pub (ch_BaseToken c) now = (base, None)"
    "base_sig (ch_BaseToken c) = Some sig"
    "verify_blocks E 0 (ch_Blocks c) (base_effective base, sig) = Inr (eff, prev)" "unix now < ef_Expires eff"
    using assms by (rule chain_verify_InrD)
  have "ef_Base eff = base" using verify_blocks_base [OF b(3)] by (simp add: base_effective_def)
  with b show "jwt_verify E pub (ch_BaseToken c) now = (ef_Base eff, None)"
    and "\<exists>sig prev. base_sig (ch_BaseToken c) = Some sig
      \<and> verify_blocks E 0 (ch_Blocks c) (base_effective (ef_Base eff), sig) = Inr (eff, prev)"
    and "unix now < ef_Expires eff" by auto
qed

lemma chain_verify_descends:
  assumes "chain_verify E pub c now = Inr eff" and "list_all scope_numeric (cm_Scopes (ef_Base eff))"
    and "\<forall>b \<in> set (ch_Blocks c). finite_block b"
  shows "descends (ef_Base eff) eff"
  using chain_verify_base(2) [OF assms(1)] verify_blocks_descends base_descends [OF assms(2)] assms(3) by blast

subsection \<open>Extending a chain\<close>

definition plain_scope :: "scope \<Rightarrow> bool" where
  "plain_scope s \<longleftrightarrow> scope_numeric s \<and> scope_clean_args s \<and> wf_map (sc_Args s)"

lemma attenuate_scopes_subset:
  assumes "\<forall>s \<in> set parent \<union> set requested. plain_scope s"
  shows "scopes_subset (attenuate parent requested) parent"
proof -
  have "\<exists>p \<in> set parent. scope_subset s p" if s: "s \<in> set (attenuate parent requested)" for s
  proof -
    obtain r p where rp: "r \<in> set requested" "p \<in> set parent" "scope_intersect r p = Some s"
      using s by (rule attenuate_memberE)
    with assms have "scope_subset s p"
      by (intro scope_intersect_subset [OF rp(3)]) (auto simp: plain_scope_def)
    with rp(2) show ?thesis by blast
  qed
  then show ?thesis by (simp add: scopes_subset_def list_all_iff list_ex_iff)
qed

lemma verify_block_extends:
  assumes "bk_PrevSig b = prev" and "signing_bytes E b = Some sb" and "length (bk_Signer b) = 32"
    and "en_verify E (bk_Signer b) sb (bk_Signature b)"
    and "length (ef_Origins eff) = length (ef_Scopes eff)" and "bk_Cnf b = None"
    and "bk_Expires b = 0 \<or> bk_Expires b \<le> ef_Expires eff"
    and "\<And>req. bk_Scopes b = Some req \<Longrightarrow> attenuate (ef_Scopes eff) req \<noteq> []
      \<and> (\<forall>s \<in> set (ef_Scopes eff) \<union> set req. plain_scope s)"
  shows "\<exists>eff'. verify_block E i b (eff, prev) = Inr (eff', bk_Signature b)
     \<and> ef_Scopes eff' = (case bk_Scopes b of None \<Rightarrow> ef_Scopes eff | Some req \<Rightarrow> attenuate (ef_Scopes eff) req)
     \<and> ef_Expires eff' = (if bk_Expires b \<noteq> 0 then bk_Expires b else ef_Expires eff)
     \<and> ef_Cnf eff' = ef_Cnf eff"
proof (cases "bk_Scopes b")
  case None
  then show ?thesis using assms by (simp add: verify_block_def linorder_not_less)
next
  case (Some req)
  obtain ss os where a: "attenuate_with_origin (ef_Scopes eff) (ef_Origins eff) req = (ss, os)" by fastforce
  then have "ss = attenuate (ef_Scopes eff) req"
    using fst_attenuate_with_origin [of "ef_Scopes eff" "ef_Origins eff" req] assms(5) by simp
  moreover have "ss \<noteq> []" "scopes_subset ss (ef_Scopes eff)"
    using assms(8) [OF Some] attenuate_scopes_subset calculation by simp_all
  ultimately show ?thesis
    using assms(1-7) Some a by (simp add: verify_block_def linorder_not_less)
qed

subsection \<open>Sample data\<close>

definition toy_chain_env :: "claims list \<Rightarrow> chain \<Rightarrow> chain_env" where
  "toy_chain_env cs ch =
     \<lparr>en_sign = en_sign (toy_env cs), en_public = en_public (toy_env cs), en_verify = en_verify (toy_env cs),
      en_from_seed = en_from_seed (toy_env cs), en_sha256 = en_sha256 (toy_env cs),
      en_marshal_header = en_marshal_header (toy_env cs), en_unmarshal_alg = en_unmarshal_alg (toy_env cs),
      en_marshal_claims = en_marshal_claims (toy_env cs), en_unmarshal_claims = en_unmarshal_claims (toy_env cs),
      en_float_text = en_float_text (toy_env cs), en_norm_number = en_norm_number (toy_env cs),
      en_other_json = en_other_json (toy_env cs), en_time_text = en_time_text (toy_env cs),
      ce_marshal_block = (\<lambda>b. Some (bk_Nonce b @ bk_PrevSig b)), ce_unmarshal_chain = (\<lambda>_. Some ch)\<rparr>"

lemma toy_chain_env_ok [simp]: "env_ok (toy_chain_env cs ch)"
  using toy_env_ok [of cs] by (simp add: env_ok_def toy_chain_env_def)

definition ex_key :: string where "ex_key = replicate 32 (CHR ''k'')"
definition ex_other_key :: string where "ex_other_key = replicate 32 (CHR ''o'')"

definition ex_holder :: cnf where
  "ex_holder = \<lparr>cn_JKT = thumbprint (toy_env []) ex_key\<rparr>"

definition ex_bound :: claims where
  "ex_bound = ex_marked\<lparr>cm_Cnf := Some ex_holder\<rparr>"

definition ex_narrow :: scope where
  "ex_narrow = \<lparr>sc_Tool = ''fs.read'', sc_Resources = [''repo/a/x*''], sc_Args = [], sc_MaxCalls = 2,
     sc_RequireApproval = True\<rparr>"

definition ex_chain_env :: chain_env where
  "ex_chain_env = toy_chain_env [ex_bound] (new_chain [])"

definition ex_base_token :: string where
  "ex_base_token = the (jwt_sign ex_chain_env ex_signer ex_bound)"

definition the_right :: "'a + 'b \<Rightarrow> 'b" where
  "the_right x = (case x of Inr b \<Rightarrow> b)"

definition ex_chain1 :: chain where
  "ex_chain1 = the_right (append_block ex_chain_env ''n1'' (new_chain ex_base_token) ex_key (Some [ex_narrow]) 50 None [])"

definition ex_chain2 :: chain where
  "ex_chain2 = the_right (append_block ex_chain_env ''n2'' ex_chain1 ex_other_key None 40 None [])"

definition ex_effective :: effective where
  "ex_effective = \<lparr>ef_Base = ex_bound,
     ef_Scopes = [\<lparr>sc_Tool = ''fs.read'', sc_Resources = [''repo/a/x*''],
       sc_Args = [(''mode'', zero_constraint\<lparr>ac_Pattern := ''r*''\<rparr>)], sc_MaxCalls = 2, sc_RequireApproval = True\<rparr>],
     ef_Expires = 40, ef_Cnf = Some ex_holder, ef_Origins = [0]\<rparr>"

lemma ex_chain_verifies: "chain_verify ex_chain_env ''key'' ex_chain2 0 = Inr ex_effective"
  by code_simp

lemma ex_chain_blocks:
  "list_all (\<lambda>b. numeric_block b \<and> bk_Cnf b = None) (ch_Blocks ex_chain2) \<and> length (ch_Blocks ex_chain2) = 2"
  by code_simp

lemma ex_chain_data:
  "list_all scope_numeric (cm_Scopes (ef_Base ex_effective))"
  "list_all (\<lambda>s. 0 < sc_MaxCalls s) (cm_Scopes (ef_Base ex_effective))"
  "clean_call ex_attempt" "no_nan_call ex_attempt" "first_match (ef_Scopes ex_effective) ex_attempt = int 0"
  "cm_Cnf (ef_Base ex_effective) = Some ex_holder"
  by code_simp+

lemma ex_chain_blocks_all:
  "\<forall>b \<in> set (ch_Blocks ex_chain2). numeric_block b" "\<forall>b \<in> set (ch_Blocks ex_chain2). finite_block b" "\<forall>b \<in> set (ch_Blocks ex_chain2). bk_Cnf b = None"
  "length (ch_Blocks ex_chain2) = 2"
  using ex_chain_blocks numeric_finite_block unfolding list_all_iff by blast+

subsection \<open>Properties\<close>

text \<open>
  \<^bold>\<open>C25.\<close> A verified chain only narrows, and exactly so: for a clean JSON call the effective scopes
  allow it if and only if the broker-signed base token allows it and every block that restricts
  the scopes allows it, whoever signed the blocks and whatever they ask for.
\<close>

theorem chain_authority_exact:
  assumes "chain_verify E pub c now = Inr eff"
    and "list_all scope_numeric (cm_Scopes (ef_Base eff))" and "list_all (\<lambda>s. 0 < sc_MaxCalls s) (cm_Scopes (ef_Base eff))"
    and "\<forall>b \<in> set (ch_Blocks c). numeric_block b"
    and "clean_call a" and "no_nan_call a"
  shows "0 \<le> first_match (ef_Scopes eff) a \<longleftrightarrow>
     0 \<le> first_match (cm_Scopes (ef_Base eff)) a
     \<and> (\<forall>b \<in> set (ch_Blocks c). case bk_Scopes b of None \<Rightarrow> True | Some ss \<Rightarrow> 0 \<le> first_match ss a)"
proof -
  obtain sig prev where v: "verify_blocks E 0 (ch_Blocks c) (base_effective (ef_Base eff), sig) = Inr (eff, prev)"
    using chain_verify_base(2) [OF assms(1)] by blast
  have blocks: "(case bk_Scopes b of None \<Rightarrow> True | Some ss \<Rightarrow> 0 \<le> first_match ss a) \<longleftrightarrow> block_allows a b" for b
    by (simp add: block_allows_def first_match_ex split: option.split)
  show ?thesis
    unfolding blocks unfolding first_match_ex
    using verify_blocks_allows [OF assms(5,6) v assms(4)] assms(2,3)
    by (simp add: base_effective_def list_all_iff)
qed

theorem chain_authority_exact_witness:
  "0 \<le> first_match (ef_Scopes ex_effective) ex_attempt \<and> 0 \<le> first_match (cm_Scopes (ef_Base ex_effective)) ex_attempt"
  using chain_authority_exact [OF ex_chain_verifies ex_chain_data(1,2) ex_chain_blocks_all(1) ex_chain_data(3,4)] ex_chain_data(5) by simp

text \<open>
  The effective scope that a call matches descends from the base scope its origin names: the
  origin is an index of the base token's scopes, that scope allows the same call, has at least
  its budget and no approval requirement the effective scope lacks. The chain is not expired, and
  its expiry is at most that of the base and of every block that sets one.
\<close>

theorem chain_origins:
  assumes "chain_verify E pub c now = Inr eff" and "list_all scope_numeric (cm_Scopes (ef_Base eff))"
    and "\<forall>b \<in> set (ch_Blocks c). finite_block b"
    and "clean_call a" and "first_match (ef_Scopes eff) a = int i"
  shows "i < length (ef_Origins eff) \<and> 0 \<le> ef_Origins eff ! i
     \<and> ef_Origins eff ! i < int (length (cm_Scopes (ef_Base eff)))
     \<and> (let s = ef_Scopes eff ! i; b = cm_Scopes (ef_Base eff) ! nat (ef_Origins eff ! i)
        in scope_allows b a \<and> sc_MaxCalls s \<le> sc_MaxCalls b \<and> (sc_RequireApproval b \<longrightarrow> sc_RequireApproval s))
     \<and> unix now < ef_Expires eff \<and> ef_Expires eff \<le> cm_Expires (ef_Base eff)
     \<and> (\<forall>b \<in> set (ch_Blocks c). bk_Expires b = 0 \<or> ef_Expires eff \<le> bk_Expires b)"
proof -
  have d: "descends (ef_Base eff) eff" using assms(1-3) by (rule chain_verify_descends)
  have m: "i < length (ef_Scopes eff)" "scope_allows (ef_Scopes eff ! i) a"
    using first_match_nth [of "ef_Scopes eff" a] assms(5) by simp_all
  then have "(ef_Scopes eff ! i, ef_Origins eff ! i) \<in> set (zip (ef_Scopes eff) (ef_Origins eff))"
    using d by (auto simp: set_zip descends_def)
  then have o: "0 \<le> ef_Origins eff ! i" "ef_Origins eff ! i < int (length (cm_Scopes (ef_Base eff)))"
    "scope_meet.narrower (ef_Scopes eff ! i) (cm_Scopes (ef_Base eff) ! nat (ef_Origins eff ! i))"
    using d by (auto simp: descends_def)
  moreover obtain sig prev where
    "verify_blocks E 0 (ch_Blocks c) (base_effective (ef_Base eff), sig) = Inr (eff, prev)"
    using chain_verify_base(2) [OF assms(1)] by blast
  from verify_blocks_expires [OF this] have "ef_Expires eff \<le> cm_Expires (ef_Base eff)"
    "\<forall>b \<in> set (ch_Blocks c). bk_Expires b = 0 \<or> ef_Expires eff \<le> bk_Expires b"
    by (simp_all add: base_effective_def)
  ultimately show ?thesis
    using m d assms(4) chain_verify_base(3) [OF assms(1)]
    by (simp add: descends_def scope_meet.narrower_def budget_below_def Let_def)
qed

theorem chain_origins_witness:
  "0 < length (ef_Origins ex_effective) \<and> ef_Expires ex_effective \<le> cm_Expires (ef_Base ex_effective)"
  using chain_origins [OF ex_chain_verifies ex_chain_data(1) ex_chain_blocks_all(2) ex_chain_data(3,5)] by simp

text \<open>
  \<^bold>\<open>C26.\<close> Blocks cannot be dropped, reordered or spliced: a block that stands in two accepted chains
  follows, in both, the same signature, that of the base token or of the block before; and every
  block carries a valid signature of its own key over its content and that link.
\<close>

theorem chain_no_splice:
  assumes "chain_verify E pub c now = Inr eff" and "chain_verify E pub' d now' = Inr eff'"
    and "i < length (ch_Blocks c)" and "j < length (ch_Blocks d)" and "ch_Blocks c ! i = ch_Blocks d ! j"
  shows "link_before (the (base_sig (ch_BaseToken c))) (ch_Blocks c) i
       = link_before (the (base_sig (ch_BaseToken d))) (ch_Blocks d) j
     \<and> (\<exists>sb. signing_bytes E (ch_Blocks c ! i) = Some sb
          \<and> en_verify E (bk_Signer (ch_Blocks c ! i)) sb (bk_Signature (ch_Blocks c ! i)))"
proof -
  obtain sig prev where c: "base_sig (ch_BaseToken c) = Some sig"
    "verify_blocks E 0 (ch_Blocks c) (base_effective (ef_Base eff), sig) = Inr (eff, prev)"
    using chain_verify_base(2) [OF assms(1)] by blast
  obtain sig' prev' where d: "base_sig (ch_BaseToken d) = Some sig'"
    "verify_blocks E 0 (ch_Blocks d) (base_effective (ef_Base eff'), sig') = Inr (eff', prev')"
    using chain_verify_base(2) [OF assms(2)] by blast
  show ?thesis
    using verify_blocks_links [OF c(2) assms(3)] verify_blocks_links [OF d(2) assms(4)] c(1) d(1) assms(5)
    by simp
qed

theorem chain_no_splice_witness:
  "link_before (the (base_sig (ch_BaseToken ex_chain2))) (ch_Blocks ex_chain2) 1
       = link_before (the (base_sig (ch_BaseToken ex_chain2))) (ch_Blocks ex_chain2) 1
     \<and> (\<exists>sb. signing_bytes ex_chain_env (ch_Blocks ex_chain2 ! 1) = Some sb
          \<and> en_verify ex_chain_env (bk_Signer (ch_Blocks ex_chain2 ! 1)) sb (bk_Signature (ch_Blocks ex_chain2 ! 1)))"
  using ex_chain_blocks_all(4) by (intro chain_no_splice [OF ex_chain_verifies ex_chain_verifies]) simp_all

text \<open>
  \<^bold>\<open>C27.\<close> Holder binding cannot be stripped or hijacked: if the base token is bound to a key and no
  block that rebinds it is signed by that key, the chain is still bound to it.
\<close>

theorem chain_holder_binding:
  assumes "chain_verify E pub c now = Inr eff" and "cm_Cnf (ef_Base eff) = Some k"
    and "\<forall>b \<in> set (ch_Blocks c). bk_Cnf b = None \<or> thumbprint E (bk_Signer b) \<noteq> cn_JKT k"
  shows "ef_Cnf eff = Some k"
proof -
  obtain sig prev where "verify_blocks E 0 (ch_Blocks c) (base_effective (ef_Base eff), sig) = Inr (eff, prev)"
    using chain_verify_base(2) [OF assms(1)] by blast
  from verify_blocks_holder [OF this _ assms(3)] show ?thesis
    by (simp add: base_effective_def assms(2))
qed

theorem chain_holder_binding_witness: "ef_Cnf ex_effective = Some ex_holder"
proof (rule chain_holder_binding [OF ex_chain_verifies ex_chain_data(6)])
  show "\<forall>b \<in> set (ch_Blocks ex_chain2). bk_Cnf b = None \<or> thumbprint ex_chain_env (bk_Signer b) \<noteq> cn_JKT ex_holder"
    using ex_chain_blocks_all(3) by blast
qed

text \<open>
  A holder can always narrow: appending a block to an accepted chain gives an accepted chain
  whose scopes are the intersection and whose expiry is the block's, provided the intersection is
  not empty and the expiry not in the past nor beyond the current one. The explicit re-check that
  the result is a subset never fails on well-formed scopes.
\<close>

theorem chain_extend:
  assumes "env_ok E" and "chain_verify E pub c now = Inr eff"
    and "append_block E fresh c priv scopes expires None nonce = Inr c'"
    and "length (en_public E priv) = 32"
    and "length (ef_Origins eff) = length (ef_Scopes eff)"
    and "expires = 0 \<or> (unix now < expires \<and> expires \<le> ef_Expires eff)"
    and "\<And>req. scopes = Some req \<Longrightarrow> attenuate (ef_Scopes eff) req \<noteq> []
      \<and> (\<forall>s \<in> set (ef_Scopes eff) \<union> set req. plain_scope s)"
  shows "\<exists>eff'. chain_verify E pub c' now = Inr eff'
     \<and> ef_Scopes eff' = (case scopes of None \<Rightarrow> ef_Scopes eff | Some req \<Rightarrow> attenuate (ef_Scopes eff) req)
     \<and> ef_Expires eff' = (if expires = 0 then ef_Expires eff else expires) \<and> ef_Cnf eff' = ef_Cnf eff"
proof -
  obtain sig prev where base: "base_sig (ch_BaseToken c) = Some sig"
    "verify_blocks E 0 (ch_Blocks c) (base_effective (ef_Base eff), sig) = Inr (eff, prev)"
    using chain_verify_base(2) [OF assms(2)] by blast
  then have prev: "prev = (if ch_Blocks c = [] then sig else bk_Signature (last (ch_Blocks c)))"
    using verify_blocks_last by blast
  define b0 where "b0 = \<lparr>bk_Scopes = scopes, bk_Expires = expires, bk_Cnf = None,
      bk_Nonce = (if nonce = [] then fresh else nonce), bk_Signer = en_public E priv,
      bk_PrevSig = prev, bk_Signature = []\<rparr>"
  obtain sb where sb: "signing_bytes E b0 = Some sb"
    and c': "c' = c\<lparr>ch_Blocks := ch_Blocks c @ [b0\<lparr>bk_Signature := en_sign E priv sb\<rparr>]\<rparr>"
    using assms(3) base(1) prev
    by (auto simp: append_block_def b0_def Let_def split: option.splits if_splits)
  define b where "b = b0\<lparr>bk_Signature := en_sign E priv sb\<rparr>"
  have "signing_bytes E b = Some sb" using sb by (simp add: signing_bytes_def b_def b0_def)
  moreover have "en_verify E (bk_Signer b) sb (bk_Signature b)"
    using assms(1) by (simp add: env_ok_def b_def b0_def)
  ultimately obtain eff' where e: "verify_block E (int (length (ch_Blocks c))) b (eff, prev) = Inr (eff', bk_Signature b)"
    "ef_Scopes eff' = (case scopes of None \<Rightarrow> ef_Scopes eff | Some req \<Rightarrow> attenuate (ef_Scopes eff) req)"
    "ef_Expires eff' = (if expires \<noteq> 0 then expires else ef_Expires eff)" "ef_Cnf eff' = ef_Cnf eff"
    using verify_block_extends [of b prev E sb eff "int (length (ch_Blocks c))"] assms(4-7)
    by (auto simp: b_def b0_def)
  have "chain_verify E pub c' now = Inr eff'"
    using base e(1) chain_verify_base(1,3) [OF assms(2)] assms(6) e(3)
    by (auto simp: chain_verify_def c' b_def verify_blocks_append linorder_not_le)
  with e show ?thesis by auto
qed

theorem chain_extend_witness:
  "\<exists>eff'. chain_verify ex_chain_env ''key'' ex_chain1 0 = Inr eff' \<and> ef_Expires eff' = 50"
proof -
  let ?c = "new_chain ex_base_token" and ?eff = "base_effective ex_bound"
  have v: "chain_verify ex_chain_env ''key'' ?c 0 = Inr ?eff"
    and a: "append_block ex_chain_env ''n1'' ?c ex_key (Some [ex_narrow]) 50 None [] = Inr ex_chain1"
    by code_simp+
  have k: "length (en_public ex_chain_env ex_key) = 32" "length (ef_Origins ?eff) = length (ef_Scopes ?eff)"
      "50 = (0::int) \<or> (unix 0 < 50 \<and> 50 \<le> ef_Expires ?eff)"
      "attenuate (ef_Scopes ?eff) [ex_narrow] \<noteq> []" "\<forall>s \<in> set (ef_Scopes ?eff) \<union> set [ex_narrow]. plain_scope s"
    by code_simp+
  have "env_ok ex_chain_env" by (simp add: ex_chain_env_def)
  from chain_extend [OF this v a k(1-3)] k(4,5) show ?thesis by auto
qed

end
