(* ===== verification/Token_Store.thy ===== *)
theory Token_Store
  imports Warrant_Prelude
begin

section \<open>The store interface (\<^verbatim>\<open>internal/store/store.go\<close>, lines 13 to 61)\<close>

text \<open>
  The records the broker persists, the interface \<^verbatim>\<open>Store\<close> as a record of operations on a state of
  any type, and the contract its implementations share, the locale \<open>token_store\<close>: what each
  operation does to five observations (the tokens, the calls charged to a token and to a scope of
  it, the revoked ids, the approvals used). The lemmas of the locale hold for every
  implementation: budgets are never exceeded, a revocation and a used approval are permanent.
\<close>

subsection \<open>Data\<close>

record workload =
  wl_Name :: string
  wl_SecretHash :: string
  wl_CreatedAt :: time

record token_record =
  tr_ID :: string
  tr_Parent :: string
  tr_ParentActor :: string
  tr_GoalID :: string
  tr_Subject :: string
  tr_Human :: string
  tr_Depth :: int
  tr_MaxCalls :: int
  tr_ScopeLimits :: "int list"
  tr_Expires :: time
  tr_Claims :: string

text \<open>\<^verbatim>\<open>ErrExhausted\<close> with its field \<^verbatim>\<open>Which\<close>, \<^verbatim>\<open>ErrNotFound\<close>, and the errors of a database.\<close>

datatype store_err = ErrExhausted string | ErrNotFound | ErrDatabase

subsection \<open>The interface\<close>

record 's store_ops =
  so_PutWorkload :: "workload \<Rightarrow> 's \<Rightarrow> store_err option \<times> 's"
  so_GetWorkload :: "string \<Rightarrow> 's \<Rightarrow> store_err + workload"
  so_PutToken :: "token_record \<Rightarrow> 's \<Rightarrow> store_err option \<times> 's"
  so_GetToken :: "string \<Rightarrow> 's \<Rightarrow> store_err + token_record"
  so_Children :: "string \<Rightarrow> 's \<Rightarrow> store_err + token_record list"
  so_Revoke :: "string \<Rightarrow> string \<Rightarrow> 's \<Rightarrow> store_err option \<times> 's"
  so_FirstRevoked :: "string list \<Rightarrow> 's \<Rightarrow> store_err + string"
  so_Consume :: "string \<Rightarrow> int \<Rightarrow> string list \<Rightarrow> 's \<Rightarrow> store_err option \<times> 's"
  so_Usage :: "string \<Rightarrow> 's \<Rightarrow> store_err + int \<times> (int \<times> int) list"
  so_UseApproval :: "string \<Rightarrow> time \<Rightarrow> 's \<Rightarrow> (store_err + bool) \<times> 's"

text \<open>The observations of a store.\<close>

record 's store_view =
  sv_inv :: "'s \<Rightarrow> bool"
  sv_token :: "'s \<Rightarrow> string \<Rightarrow> token_record option"
  sv_calls :: "'s \<Rightarrow> string \<Rightarrow> int"
  sv_scope_calls :: "'s \<Rightarrow> string \<Rightarrow> int \<Rightarrow> int"
  sv_revoked :: "'s \<Rightarrow> string \<Rightarrow> bool"
  sv_used :: "'s \<Rightarrow> string \<Rightarrow> bool"

text \<open>All observations but those named agree.\<close>

definition same_budgets :: "'s store_view \<Rightarrow> 's \<Rightarrow> 's \<Rightarrow> bool" where
  "same_budgets V s s' \<longleftrightarrow> sv_calls V s' = sv_calls V s \<and> sv_scope_calls V s' = sv_scope_calls V s"

definition same_marks :: "'s store_view \<Rightarrow> 's \<Rightarrow> 's \<Rightarrow> bool" where
  "same_marks V s s' \<longleftrightarrow> sv_revoked V s' = sv_revoked V s \<and> sv_used V s' = sv_used V s"

text \<open>
  A record comes back as it was put, but for the spelling of the JSON claims and for the part of
  its expiry below a second, which no token has: a database keeps JSON in a form of its own and
  time to the microsecond.
\<close>

definition same_record :: "token_record \<Rightarrow> token_record \<Rightarrow> bool" where
  "same_record t t' \<longleftrightarrow> t'\<lparr>tr_Claims := tr_Claims t, tr_Expires := tr_Expires t\<rparr> = t
     \<and> unix (tr_Expires t') = unix (tr_Expires t)"

lemma same_record_refl [simp]: "same_record t t"
  by (simp add: same_record_def)

lemma same_recordD:
  "same_record t t' \<Longrightarrow> tr_ID t' = tr_ID t \<and> tr_Parent t' = tr_Parent t \<and> tr_MaxCalls t' = tr_MaxCalls t
     \<and> tr_ScopeLimits t' = tr_ScopeLimits t \<and> unix (tr_Expires t') = unix (tr_Expires t)
     \<and> tr_Subject t' = tr_Subject t \<and> tr_Human t' = tr_Human t"
  unfolding same_record_def by (cases t; cases t') simp

lemma same_record_sym: "same_record t t' \<Longrightarrow> same_record t' t"
  and same_record_trans: "same_record t t' \<Longrightarrow> same_record t' t'' \<Longrightarrow> same_record t t''"
  unfolding same_record_def by (cases t; cases t'; cases t''; simp)+

text \<open>Nothing that bears on authority changes.\<close>

definition unchanged :: "'s store_view \<Rightarrow> 's \<Rightarrow> 's \<Rightarrow> bool" where
  "unchanged V s s' \<longleftrightarrow> sv_token V s' = sv_token V s \<and> same_budgets V s s' \<and> same_marks V s s'"

subsection \<open>Histories\<close>

text \<open>
  The operations that change a store, as events; \<open>store_run\<close> performs a sequence of them, in the
  order the store serialises them, and returns the events that succeeded, the last one first.
\<close>

datatype store_event =
    EvPutWorkload workload
  | EvPutToken token_record
  | EvRevoke string string
  | EvConsume string int "string list"
  | EvUseApproval string time

definition store_step :: "'s store_ops \<Rightarrow> store_event \<Rightarrow> 's \<Rightarrow> bool \<times> 's" where
  "store_step S e s =
     (case e of
        EvPutWorkload w \<Rightarrow> apfst (\<lambda>r. r = None) (so_PutWorkload S w s)
      | EvPutToken t \<Rightarrow> apfst (\<lambda>r. r = None) (so_PutToken S t s)
      | EvRevoke i r \<Rightarrow> apfst (\<lambda>r. r = None) (so_Revoke S i r s)
      | EvConsume i k lin \<Rightarrow> apfst (\<lambda>r. r = None) (so_Consume S i k lin s)
      | EvUseApproval i x \<Rightarrow> apfst (\<lambda>r. r = Inr True) (so_UseApproval S i x s))"

fun store_run :: "'s store_ops \<Rightarrow> store_event list \<Rightarrow> store_event list \<times> 's \<Rightarrow> store_event list \<times> 's" where
  "store_run S [] ls = ls"
| "store_run S (e # es) (hist, s) =
     (let (ok, s') = store_step S e s in store_run S es (if ok then e # hist else hist, s'))"

definition put_ids :: "store_event list \<Rightarrow> string list" where
  "put_ids es = List.map_filter (\<lambda>e. case e of EvPutToken t \<Rightarrow> Some (tr_ID t) | _ \<Rightarrow> None) es"

text \<open>The broker draws fresh token ids, and a lineage holds the token itself.\<close>

definition well_charged :: "store_event \<Rightarrow> bool" where
  "well_charged e \<longleftrightarrow> (case e of EvConsume i k lin \<Rightarrow> i \<in> set lin | _ \<Rightarrow> True)"

definition legal :: "store_event list \<Rightarrow> bool" where
  "legal es \<longleftrightarrow> distinct (put_ids es)
     \<and> list_all well_charged es"

definition charges :: "string \<Rightarrow> store_event \<Rightarrow> bool" where
  "charges a e \<longleftrightarrow> (case e of EvConsume i k lin \<Rightarrow> a \<in> set lin | _ \<Rightarrow> False)"

text \<open>The calls a history charges to a token.\<close>

definition charged :: "store_event list \<Rightarrow> string \<Rightarrow> int" where
  "charged hist a = int (length (filter (charges a) hist))"

lemma charged_Cons: "charged (e # hist) a = charged hist a + (if charges a e then 1 else 0)"
  by (simp add: charged_def)

definition uses_approval :: "string \<Rightarrow> store_event \<Rightarrow> bool" where
  "uses_approval a e \<longleftrightarrow> (case e of EvUseApproval i x \<Rightarrow> i = a | _ \<Rightarrow> False)"

definition revokes :: "string \<Rightarrow> store_event \<Rightarrow> bool" where
  "revokes a e \<longleftrightarrow> (case e of EvRevoke i r \<Rightarrow> i = a | _ \<Rightarrow> False)"

definition charges_scope :: "string \<Rightarrow> int \<Rightarrow> store_event \<Rightarrow> bool" where
  "charges_scope a j e \<longleftrightarrow> (case e of EvConsume i k lin \<Rightarrow> i = a \<and> k = j | _ \<Rightarrow> False)"

lemma count_list_distinct: "distinct xs \<Longrightarrow> count_list xs a = (if a \<in> set xs then 1 else 0)"
  by (induction xs) auto

subsection \<open>The contract\<close>

locale token_store =
  fixes S :: "'s store_ops" and V :: "'s store_view"
  assumes put_workload: "sv_inv V s \<Longrightarrow> so_PutWorkload S w s = (res, s') \<Longrightarrow> sv_inv V s' \<and> unchanged V s s'"
    and put_token: "sv_inv V s \<Longrightarrow> so_PutToken S t s = (None, s') \<Longrightarrow>
      sv_inv V s' \<and> (\<exists>t'. same_record t t' \<and> sv_token V s' = (sv_token V s)(tr_ID t \<mapsto> t'))
        \<and> same_budgets V s s' \<and> same_marks V s s'"
    and put_token_err: "sv_inv V s \<Longrightarrow> so_PutToken S t s = (Some e, s') \<Longrightarrow> s' = s"
    and get_token: "sv_inv V s \<Longrightarrow> so_GetToken S i s
      = (case sv_token V s i of None \<Rightarrow> Inl ErrNotFound | Some t \<Rightarrow> Inr t)"
    and children: "sv_inv V s \<Longrightarrow> i \<noteq> [] \<Longrightarrow> so_Children S i s = Inr ts \<Longrightarrow>
      set ts = {t. tr_Parent t = i \<and> sv_token V s (tr_ID t) = Some t}"
    and revoke: "sv_inv V s \<Longrightarrow> so_Revoke S i r s = (None, s') \<Longrightarrow>
      sv_inv V s' \<and> sv_revoked V s' = (sv_revoked V s)(i := True) \<and> sv_used V s' = sv_used V s
        \<and> sv_token V s' = sv_token V s \<and> same_budgets V s s'"
    and revoke_err: "sv_inv V s \<Longrightarrow> so_Revoke S i r s = (Some e, s') \<Longrightarrow> s' = s"
    and first_revoked: "sv_inv V s \<Longrightarrow> so_FirstRevoked S is s
      = Inr (case find (sv_revoked V s) is of None \<Rightarrow> [] | Some i \<Rightarrow> i)"
    and consume: "sv_inv V s \<Longrightarrow> i \<in> set lin \<Longrightarrow> so_Consume S i k lin s = (None, s') \<Longrightarrow>
      sv_inv V s' \<and>
      (\<exists>t. sv_token V s i = Some t \<and> 0 \<le> k \<and> k < int (length (tr_ScopeLimits t))
         \<and> sv_scope_calls V s i k < tr_ScopeLimits t ! nat k) \<and>
      (\<forall>a \<in> set lin. \<exists>t. sv_token V s a = Some t \<and> sv_calls V s a < tr_MaxCalls t) \<and>
      sv_token V s' = sv_token V s \<and> same_marks V s s' \<and>
      sv_calls V s' = (\<lambda>a. sv_calls V s a + int (count_list lin a)) \<and>
      sv_scope_calls V s' = (sv_scope_calls V s)(i := (sv_scope_calls V s i)(k := sv_scope_calls V s i k + 1))"
    and consume_err: "sv_inv V s \<Longrightarrow> so_Consume S i k lin s = (Some e, s') \<Longrightarrow> s' = s"
    and usage: "sv_inv V s \<Longrightarrow> \<exists>ps. so_Usage S i s = Inr (sv_calls V s i, ps)
      \<and> (\<forall>k \<ge> 0. (case map_of ps k of None \<Rightarrow> 0 | Some n \<Rightarrow> n) = sv_scope_calls V s i k)"
    and use_approval: "sv_inv V s \<Longrightarrow> so_UseApproval S i x s = (Inr b, s') \<Longrightarrow>
      sv_inv V s' \<and> b = (\<not> sv_used V s i) \<and> sv_used V s' = (sv_used V s)(i := True)
        \<and> sv_revoked V s' = sv_revoked V s \<and> sv_token V s' = sv_token V s \<and> same_budgets V s s'"
    and use_approval_err: "sv_inv V s \<Longrightarrow> so_UseApproval S i x s = (Inl e, s') \<Longrightarrow> s' = s"
begin

lemma first_revoked_none:
  assumes "sv_inv V s" and "[] \<notin> set is"
  shows "so_FirstRevoked S is s = Inr [] \<longleftrightarrow> (\<forall>i \<in> set is. \<not> sv_revoked V s i)"
proof (cases "find (sv_revoked V s) is")
  case None
  then have "\<forall>i \<in> set is. \<not> sv_revoked V s i" by (simp add: find_None_iff)
  with None show ?thesis using assms by (simp add: first_revoked)
next
  case (Some i)
  then have "i \<in> set is" "sv_revoked V s i" by (auto simp: find_Some_iff)
  then show ?thesis using assms Some by (auto simp: first_revoked)
qed

text \<open>The counters count the charges of the history, and stay within the budgets.\<close>

definition counted :: "store_event list \<Rightarrow> 's \<Rightarrow> bool" where
  "counted hist s \<longleftrightarrow>
     (\<forall>a. charged hist a \<le> sv_calls V s a)
     \<and> (\<forall>a k. sv_scope_calls V s a k = int (length (filter (charges_scope a k) hist)))"

definition scope_within :: "'s \<Rightarrow> string \<Rightarrow> token_record \<Rightarrow> bool" where
  "scope_within s a t \<longleftrightarrow> (\<forall>k. sv_scope_calls V s a k > 0 \<longrightarrow>
     0 \<le> k \<and> k < int (length (tr_ScopeLimits t)) \<and> sv_scope_calls V s a k \<le> tr_ScopeLimits t ! nat k)"

definition in_budget :: "store_event list \<Rightarrow> 's \<Rightarrow> string \<Rightarrow> bool" where
  "in_budget hist s a \<longleftrightarrow>
     (case sv_token V s a of
        None \<Rightarrow> charged hist a = 0 \<and> sv_scope_calls V s a = (\<lambda>_. 0)
      | Some t \<Rightarrow> charged hist a \<le> max 0 (tr_MaxCalls t) \<and> scope_within s a t)"

definition bounded :: "store_event list \<Rightarrow> 's \<Rightarrow> bool" where
  "bounded hist s \<longleftrightarrow> (\<forall>a. in_budget hist s a)"

definition accounted :: "store_event list \<Rightarrow> 's \<Rightarrow> bool" where
  "accounted hist s \<longleftrightarrow> sv_inv V s \<and> counted hist s \<and> bounded hist s"

lemma in_budget_frame:
  "sv_token V s' a = sv_token V s a \<Longrightarrow> same_budgets V s s' \<Longrightarrow> charged hist' a = charged hist a \<Longrightarrow>
     in_budget hist' s' a = in_budget hist s a"
  by (cases "sv_token V s a") (simp_all add: in_budget_def same_budgets_def scope_within_def)

lemma bounded_frame:
  "bounded hist s \<Longrightarrow> sv_token V s' = sv_token V s \<Longrightarrow> same_budgets V s s' \<Longrightarrow> bounded hist s'"
  unfolding bounded_def using in_budget_frame [of s' _ s hist hist] by auto

lemma counted_frame:
  "counted hist s \<Longrightarrow> same_budgets V s s' \<Longrightarrow> \<forall>a. \<not> charges a e \<Longrightarrow> \<forall>a k. \<not> charges_scope a k e \<Longrightarrow>
     counted (e # hist) s'"
  by (simp add: counted_def same_budgets_def charged_Cons)

lemma accounted_put:
  assumes "accounted hist s" and "so_PutToken S t s = (None, s')" and "sv_token V s (tr_ID t) = None"
  shows "accounted (EvPutToken t # hist) s'"
proof -
  have inv: "sv_inv V s" using assms(1) by (simp add: accounted_def)
  obtain t' where p: "sv_inv V s'" "sv_token V s' = (sv_token V s)(tr_ID t \<mapsto> t')"
      "same_budgets V s s'" "same_marks V s s'"
    using put_token [OF inv assms(2)] by blast
  have same: "charged (EvPutToken t # hist) a = charged hist a" for a by (simp add: charged_Cons charges_def)
  have "in_budget (EvPutToken t # hist) s' a" for a
  proof (cases "a = tr_ID t")
    case True
    with assms(1,3) p have "charged hist a = 0" "sv_scope_calls V s' a = (\<lambda>_. 0)"
      by (auto simp: accounted_def bounded_def in_budget_def same_budgets_def dest!: spec [of _ a])
    with True p same show ?thesis by (simp add: in_budget_def scope_within_def)
  next
    case False
    with assms(1) p in_budget_frame [of s' a s _ hist, OF _ _ same] show ?thesis
      by (simp add: accounted_def bounded_def)
  qed
  then have "bounded (EvPutToken t # hist) s'" by (simp add: bounded_def)
  moreover have "counted (EvPutToken t # hist) s'"
    using assms(1) p by (intro counted_frame [of hist s]) (auto simp: accounted_def charges_def charges_scope_def)
  ultimately show ?thesis using p by (simp add: accounted_def)
qed

lemma accounted_consume:
  assumes "accounted hist s" and "so_Consume S i k lin s = (None, s')" and "i \<in> set lin"
  shows "accounted (EvConsume i k lin # hist) s'"
proof -
  have inv: "sv_inv V s" and b: "bounded hist s" and n: "counted hist s"
    using assms(1) by (simp_all add: accounted_def)
  note c = consume [OF inv assms(3,2)]
  have calls: "sv_calls V s' a \<ge> sv_calls V s a + (if a \<in> set lin then 1 else 0)" for a
    using c count_list_0_iff [of lin a] by (auto simp: Suc_le_eq)
  have hist: "charged (EvConsume i k lin # hist) a = charged hist a + (if a \<in> set lin then 1 else 0)" for a
    by (simp add: charged_Cons charges_def)
  have scope_calls: "sv_scope_calls V s' a j = sv_scope_calls V s a j + (if a = i \<and> j = k then 1 else 0)" for a j
    using c by simp
  have tok: "sv_token V s' = sv_token V s" using c by simp
  have "in_budget (EvConsume i k lin # hist) s' a" for a
  proof (cases "sv_token V s a")
    case None
    then have "a \<notin> set lin" using c by fastforce
    with assms(3) have "a \<noteq> i" by auto
    have "charged hist a = 0" "sv_scope_calls V s a = (\<lambda>_. 0)"
      using None b by (auto simp: bounded_def in_budget_def dest!: spec [of _ a])
    with None \<open>a \<notin> set lin\<close> \<open>a \<noteq> i\<close> show ?thesis
      by (simp add: in_budget_def tok hist scope_calls fun_eq_iff)
  next
    case (Some t)
    then have old: "charged hist a \<le> max 0 (tr_MaxCalls t)" "scope_within s a t"
      using b by (auto simp: bounded_def in_budget_def dest!: spec [of _ a])
    have "a \<in> set lin \<Longrightarrow> sv_calls V s a < tr_MaxCalls t" using c Some by fastforce
    moreover have "charged hist a \<le> sv_calls V s a" using n by (simp add: counted_def)
    ultimately have "charged (EvConsume i k lin # hist) a \<le> max 0 (tr_MaxCalls t)" using old(1) by (auto simp: hist)
    moreover have "scope_within s' a t"
      unfolding scope_within_def scope_calls
    proof (intro allI impI)
      fix j assume "0 < sv_scope_calls V s a j + (if a = i \<and> j = k then 1 else 0)"
      then show "0 \<le> j \<and> j < int (length (tr_ScopeLimits t))
          \<and> sv_scope_calls V s a j + (if a = i \<and> j = k then 1 else 0) \<le> tr_ScopeLimits t ! nat j"
        using old(2) c Some unfolding scope_within_def by (cases "a = i \<and> j = k") auto
    qed
    ultimately show ?thesis using Some tok by (simp add: in_budget_def)
  qed
  then have "bounded (EvConsume i k lin # hist) s'" by (simp add: bounded_def)
  moreover have "counted (EvConsume i k lin # hist) s'"
    unfolding counted_def
  proof (intro conjI allI)
    fix a show "charged (EvConsume i k lin # hist) a \<le> sv_calls V s' a"
      using n calls [of a] hist [of a] unfolding counted_def by (auto split: if_splits dest!: spec [of _ a])
    fix j show "sv_scope_calls V s' a j = int (length (filter (charges_scope a j) (EvConsume i k lin # hist)))"
      using n by (auto simp: counted_def scope_calls charges_scope_def)
  qed
  ultimately show ?thesis using c by (simp add: accounted_def)
qed

lemma accounted_keep:
  assumes "accounted hist s" and "sv_inv V s'" and "sv_token V s' = sv_token V s" and "same_budgets V s s'"
  shows "accounted hist s'"
  using assms bounded_frame [of hist s s'] by (simp add: accounted_def counted_def same_budgets_def)

lemma accounted_mark:
  assumes "accounted hist s" and "\<forall>i k lin. e \<noteq> EvConsume i k lin"
  shows "accounted (e # hist) s"
proof -
  have e: "\<not> charges a e" "\<not> charges_scope a k e" for a k
    using assms(2) by (cases e; simp add: charges_def charges_scope_def)+
  then have "in_budget (e # hist) s a = in_budget hist s a" for a
    by (simp add: in_budget_def charged_Cons split: option.split)
  with assms(1) e show ?thesis by (simp add: accounted_def counted_def bounded_def charged_Cons)
qed

lemma same_budgets_refl [simp]: "same_budgets V s s" and same_marks_refl [simp]: "same_marks V s s"
  and unchanged_refl [simp]: "unchanged V s s"
  by (simp_all add: same_budgets_def same_marks_def unchanged_def)

text \<open>What one event does, on success and on failure.\<close>

lemma store_step_cases:
  assumes inv: "sv_inv V s" and step: "store_step S e s = (ok, s')"
    and lin: "well_charged e"
  obtains (failed) "\<not> ok" and "sv_inv V s'" and "unchanged V s s'"
  | (put_workload) w where "ok" and "e = EvPutWorkload w" and "sv_inv V s'" and "unchanged V s s'"
  | (put_token) t where "ok" and "e = EvPutToken t" and "so_PutToken S t s = (None, s')"
  | (consume) i k l where "ok" and "e = EvConsume i k l" and "so_Consume S i k l s = (None, s')"
  | (revoke) i r where "ok" and "e = EvRevoke i r" and "so_Revoke S i r s = (None, s')"
  | (use_approval) i x where "ok" and "e = EvUseApproval i x" and "so_UseApproval S i x s = (Inr True, s')"
proof (cases e)
  case (EvPutWorkload w)
  with step obtain r where "so_PutWorkload S w s = (r, s')"
    by (cases "so_PutWorkload S w s") (simp add: store_step_def)
  from token_store.put_workload [OF token_store_axioms inv this] EvPutWorkload failed put_workload
  show thesis by blast
next
  case (EvPutToken t)
  with step obtain r where r: "so_PutToken S t s = (r, s')" "ok = (r = None)"
    by (cases "so_PutToken S t s") (simp add: store_step_def)
  show thesis
  proof (cases r)
    case None
    with r EvPutToken put_token show thesis by simp
  next
    case (Some x)
    with r put_token_err [OF inv] inv failed show thesis by fastforce
  qed
next
  case (EvRevoke i x)
  with step obtain r where r: "so_Revoke S i x s = (r, s')" "ok = (r = None)"
    by (cases "so_Revoke S i x s") (simp add: store_step_def)
  show thesis
  proof (cases r)
    case None
    with r EvRevoke revoke show thesis by simp
  next
    case (Some y)
    with r revoke_err [OF inv] inv failed show thesis by fastforce
  qed
next
  case (EvConsume i k l)
  with step obtain r where r: "so_Consume S i k l s = (r, s')" "ok = (r = None)"
    by (cases "so_Consume S i k l s") (simp add: store_step_def)
  show thesis
  proof (cases r)
    case None
    with r EvConsume consume show thesis by simp
  next
    case (Some y)
    with r consume_err [OF inv] inv failed show thesis by fastforce
  qed
next
  case (EvUseApproval i x)
  with step obtain r where r: "so_UseApproval S i x s = (r, s')" "ok = (r = Inr True)"
    by (cases "so_UseApproval S i x s") (simp add: store_step_def)
  show thesis
  proof (cases r)
    case (Inl y)
    with r use_approval_err [OF inv] inv failed show thesis by fastforce
  next
    case (Inr b)
    from token_store.use_approval [OF token_store_axioms inv r(1) [unfolded Inr]]
    have u: "sv_inv V s'" "b = (\<not> sv_used V s i)" "sv_used V s' = (sv_used V s)(i := True)"
      "sv_revoked V s' = sv_revoked V s" "sv_token V s' = sv_token V s" "same_budgets V s s'" by simp_all
    show thesis
    proof (cases b)
      case True
      with r Inr EvUseApproval use_approval show thesis by simp
    next
      case False
      with u have "sv_used V s' = sv_used V s" by (auto simp: fun_eq_iff)
      with u have "unchanged V s s'" by (simp add: unchanged_def same_marks_def)
      with u(1) False r(2) Inr failed show thesis by simp
    qed
  qed
qed

lemma store_step_accounted:
  assumes "accounted hist s" and "store_step S e s = (ok, s')"
    and "\<And>t. e = EvPutToken t \<Longrightarrow> sv_token V s (tr_ID t) = None"
    and lin: "well_charged e"
  shows "accounted (if ok then e # hist else hist) s'"
proof -
  have inv: "sv_inv V s" using assms(1) by (simp add: accounted_def)
  note keep = accounted_keep [OF assms(1)]
  show ?thesis
  proof (cases rule: store_step_cases [OF inv assms(2) lin, case_names failed put_workload put_token consume revoke use_approval])
    case failed
    with keep show ?thesis by (simp add: unchanged_def)
  next
    case (put_workload w)
    with keep show ?thesis by (simp add: unchanged_def accounted_mark)
  next
    case (put_token t)
    with accounted_put [OF assms(1)] assms(3) show ?thesis by simp
  next
    case (consume i k l)
    with accounted_consume [OF assms(1)] lin show ?thesis by (simp add: well_charged_def)
  next
    case (revoke i r)
    with keep token_store.revoke [OF token_store_axioms inv] show ?thesis by (simp add: accounted_mark)
  next
    case (use_approval i x)
    with keep token_store.use_approval [OF token_store_axioms inv] show ?thesis by (simp add: accounted_mark)
  qed
qed

text \<open>An event adds at most its own token, revokes at most its own id, and nothing is taken back.\<close>

lemma store_step_marks:
  assumes inv: "sv_inv V s" and step: "store_step S e s = (ok, s')"
    and lin: "well_charged e"
  shows "sv_inv V s'"
    and "a \<notin> set (put_ids [e]) \<Longrightarrow> sv_token V s' a = sv_token V s a"
    and "sv_revoked V s' a \<longleftrightarrow> sv_revoked V s a \<or> ok \<and> revokes a e"
    and "sv_used V s' a \<longleftrightarrow> sv_used V s a \<or> ok \<and> uses_approval a e"
    and "ok \<Longrightarrow> uses_approval a e \<Longrightarrow> \<not> sv_used V s a"
proof -
  have "sv_inv V s' \<and> (a \<notin> set (put_ids [e]) \<longrightarrow> sv_token V s' a = sv_token V s a)
    \<and> (sv_revoked V s' a \<longleftrightarrow> sv_revoked V s a \<or> ok \<and> revokes a e)
    \<and> (sv_used V s' a \<longleftrightarrow> sv_used V s a \<or> ok \<and> uses_approval a e)
    \<and> (ok \<longrightarrow> uses_approval a e \<longrightarrow> \<not> sv_used V s a)"
  proof (cases rule: store_step_cases [OF inv step lin, case_names failed put_workload put_token consume revoke use_approval])
    case failed
    then show ?thesis by (simp add: unchanged_def same_marks_def)
  next
    case (put_workload w)
    then show ?thesis by (simp add: unchanged_def same_marks_def revokes_def uses_approval_def)
  next
    case (put_token t)
    with token_store.put_token [OF token_store_axioms inv put_token(3)] show ?thesis
      by (auto simp: same_marks_def revokes_def uses_approval_def put_ids_def List.map_filter_simps)
  next
    case (consume i k l)
    with lin have "i \<in> set l" by (simp add: well_charged_def)
    with consume token_store.consume [OF token_store_axioms inv _ consume(3)] show ?thesis
      by (simp add: same_marks_def revokes_def uses_approval_def)
  next
    case (revoke i r)
    with token_store.revoke [OF token_store_axioms inv] show ?thesis
      by (auto simp: same_marks_def revokes_def uses_approval_def)
  next
    case (use_approval i x)
    with token_store.use_approval [OF token_store_axioms inv use_approval(3)] show ?thesis
      by (auto simp: same_marks_def revokes_def uses_approval_def)
  qed
  then show "sv_inv V s'"
    and "a \<notin> set (put_ids [e]) \<Longrightarrow> sv_token V s' a = sv_token V s a"
    and "sv_revoked V s' a \<longleftrightarrow> sv_revoked V s a \<or> ok \<and> revokes a e"
    and "sv_used V s' a \<longleftrightarrow> sv_used V s a \<or> ok \<and> uses_approval a e"
    and "ok \<Longrightarrow> uses_approval a e \<Longrightarrow> \<not> sv_used V s a" by blast+
qed

lemma store_run_accounted:
  "accounted hist s \<Longrightarrow> legal es \<Longrightarrow> \<forall>i \<in> set (put_ids es). sv_token V s i = None \<Longrightarrow>
     store_run S es (hist, s) = (hist', s') \<Longrightarrow> accounted hist' s'"
proof (induction es arbitrary: hist s)
  case (Cons e es)
  obtain ok s1 where step: "store_step S e s = (ok, s1)" by fastforce
  have lin: "well_charged e" using Cons.prems(2) by (simp add: legal_def)
  have fresh: "sv_token V s (tr_ID t) = None" if "e = EvPutToken t" for t
    using Cons.prems(3) that by (simp add: put_ids_def List.map_filter_simps)
  have acc: "accounted (if ok then e # hist else hist) s1"
    using store_step_accounted [OF Cons.prems(1) step fresh lin] .
  have inv: "sv_inv V s" using Cons.prems(1) by (simp add: accounted_def)
  have "sv_token V s1 i = None" if i: "i \<in> set (put_ids es)" for i
  proof -
    have "i \<notin> set (put_ids [e])"
      using Cons.prems(2) i by (auto simp: legal_def put_ids_def List.map_filter_simps split: option.splits)
    then have "sv_token V s1 i = sv_token V s i"
      using store_step_marks(2) [OF inv step lin] by blast
    moreover have "i \<in> set (put_ids (e # es))" using i by (simp add: put_ids_def List.map_filter_simps split: option.split)
    ultimately show ?thesis using Cons.prems(3) by simp
  qed
  moreover have "legal es" using Cons.prems(2)
    by (auto simp: legal_def put_ids_def List.map_filter_simps split: option.splits)
  ultimately show ?case
    using Cons.IH [OF acc] Cons.prems(4) step by (simp split: if_splits)
qed simp

text \<open>The marks of a store are those its history set, and no approval was used twice.\<close>

definition marked :: "store_event list \<Rightarrow> 's \<Rightarrow> bool" where
  "marked hist s \<longleftrightarrow> sv_inv V s
     \<and> (\<forall>a. sv_revoked V s a \<longleftrightarrow> list_ex (revokes a) hist)
     \<and> (\<forall>a. sv_used V s a \<longleftrightarrow> list_ex (uses_approval a) hist)
     \<and> (\<forall>a. length (filter (uses_approval a) hist) \<le> 1)"

lemma store_step_marked:
  assumes "marked hist s" and "store_step S e s = (ok, s')" and "well_charged e"
  shows "marked (if ok then e # hist else hist) s'"
proof -
  have inv: "sv_inv V s" using assms(1) by (simp add: marked_def)
  note m = store_step_marks [OF inv assms(2,3)]
  have "filter (uses_approval a) hist = []" if "ok" "uses_approval a e" for a
    using m(5) [OF that] assms(1) by (auto simp: marked_def list_ex_iff filter_empty_conv)
  then show ?thesis
    using assms(1) m(1) m(3,4) by (auto simp: marked_def)
qed

lemma store_run_marked:
  "marked hist s \<Longrightarrow> list_all well_charged es \<Longrightarrow> store_run S es (hist, s) = (hist', s') \<Longrightarrow> marked hist' s'"
proof (induction es arbitrary: hist s)
  case (Cons e es)
  obtain ok s1 where step: "store_step S e s = (ok, s1)" by fastforce
  have "marked (if ok then e # hist else hist) s1"
    using store_step_marked [OF Cons.prems(1) step] Cons.prems(2) by simp
  with Cons step show ?case by (simp split: if_splits)
qed simp

end

text \<open>A store that always answers: no database behind it can fail.\<close>

locale reliable_store = token_store +
  assumes consume_complete: "sv_inv V s \<Longrightarrow> i \<in> set lin \<Longrightarrow> sv_token V s i = Some t \<Longrightarrow>
      0 \<le> k \<Longrightarrow> k < int (length (tr_ScopeLimits t)) \<Longrightarrow> sv_scope_calls V s i k < tr_ScopeLimits t ! nat k \<Longrightarrow>
      \<forall>a \<in> set lin. \<exists>t. sv_token V s a = Some t \<and> sv_calls V s a < tr_MaxCalls t \<Longrightarrow>
      fst (so_Consume S i k lin s) = None"
    and answers: "sv_inv V s \<Longrightarrow> \<exists>b s'. so_UseApproval S i x s = (Inr b, s')"

subsection \<open>Two stores behind one interface\<close>

text \<open>
  An event a store cannot refuse for reasons of its own: a token that fits its columns under an id
  not in use, a lineage that holds the token and no id twice.
\<close>

definition regular :: "(token_record \<Rightarrow> bool) \<Rightarrow> store_event \<Rightarrow> bool" where
  "regular fits e \<longleftrightarrow>
     (case e of EvPutToken t \<Rightarrow> fits t | EvConsume i k lin \<Rightarrow> i \<in> set lin \<and> distinct lin | _ \<Rightarrow> True)"

lemma regular_well_charged: "regular fits e \<Longrightarrow> well_charged e"
  by (cases e) (simp_all add: regular_def well_charged_def)

text \<open>Whether an event succeeds, by the observations alone.\<close>

definition may_charge :: "'s store_view \<Rightarrow> string \<Rightarrow> int \<Rightarrow> string list \<Rightarrow> 's \<Rightarrow> bool" where
  "may_charge V i k lin s \<longleftrightarrow>
     (\<exists>t. sv_token V s i = Some t \<and> 0 \<le> k \<and> k < int (length (tr_ScopeLimits t))
        \<and> sv_scope_calls V s i k < tr_ScopeLimits t ! nat k)
     \<and> (\<forall>a \<in> set lin. \<exists>t. sv_token V s a = Some t \<and> sv_calls V s a < tr_MaxCalls t)"

definition succeeds :: "'s store_view \<Rightarrow> store_event \<Rightarrow> 's \<Rightarrow> bool" where
  "succeeds V e s =
     (case e of EvConsume i k lin \<Rightarrow> may_charge V i k lin s | EvUseApproval i x \<Rightarrow> \<not> sv_used V s i | _ \<Rightarrow> True)"

locale exact_store = token_store S V for S :: "'s store_ops" and V +
  fixes fits :: "token_record \<Rightarrow> bool"
  assumes put_workload_succeeds: "sv_inv V s \<Longrightarrow> fst (so_PutWorkload S w s) = None"
    and put_token_succeeds: "sv_inv V s \<Longrightarrow> fits t \<Longrightarrow> sv_token V s (tr_ID t) = None \<Longrightarrow> fst (so_PutToken S t s) = None"
    and revoke_succeeds: "sv_inv V s \<Longrightarrow> fst (so_Revoke S i r s) = None"
    and consume_succeeds: "sv_inv V s \<Longrightarrow> i \<in> set lin \<Longrightarrow> distinct lin \<Longrightarrow> may_charge V i k lin s \<Longrightarrow>
      fst (so_Consume S i k lin s) = None"
    and use_approval_answers: "sv_inv V s \<Longrightarrow> \<exists>b s'. so_UseApproval S i x s = (Inr b, s')"
begin

lemma step_succeeds:
  assumes inv: "sv_inv V s" and reg: "regular fits e" and "\<And>t. e = EvPutToken t \<Longrightarrow> sv_token V s (tr_ID t) = None"
  shows "fst (store_step S e s) \<longleftrightarrow> succeeds V e s"
proof (cases e)
  case (EvConsume i k lin)
  obtain r s' where c: "so_Consume S i k lin s = (r, s')" by fastforce
  have "r = None \<Longrightarrow> may_charge V i k lin s"
    using consume [OF inv, of i lin k s'] reg EvConsume c by (auto simp: may_charge_def regular_def)
  moreover have "may_charge V i k lin s \<Longrightarrow> r = None"
    using consume_succeeds [OF inv, of i lin k] reg EvConsume c by (simp add: regular_def)
  ultimately show ?thesis using EvConsume c by (auto simp: store_step_def succeeds_def)
next
  case (EvUseApproval i x)
  obtain b s' where u: "so_UseApproval S i x s = (Inr b, s')" using use_approval_answers [OF inv] by blast
  with use_approval [OF inv u] EvUseApproval show ?thesis by (simp add: store_step_def succeeds_def)
qed (use assms put_workload_succeeds put_token_succeeds revoke_succeeds in
      \<open>simp_all add: store_step_def succeeds_def regular_def\<close>)

text \<open>What a successful event adds to each observation.\<close>

lemma step_adds:
  assumes inv: "sv_inv V s" and step: "store_step S e s = (ok, s')" and reg: "regular fits e"
  shows "sv_calls V s' a = sv_calls V s a + (if ok \<and> charges a e then 1 else 0)"
    and "sv_scope_calls V s' a j = sv_scope_calls V s a j + (if ok \<and> charges_scope a j e then 1 else 0)"
    and "(\<forall>t. \<not> (ok \<and> e = EvPutToken t)) \<Longrightarrow> sv_token V s' = sv_token V s"
    and "ok \<Longrightarrow> e = EvPutToken t \<Longrightarrow> \<exists>t'. same_record t t' \<and> sv_token V s' = (sv_token V s)(tr_ID t \<mapsto> t')"
proof -
  have "sv_calls V s' a = sv_calls V s a + (if ok \<and> charges a e then 1 else 0)
    \<and> sv_scope_calls V s' a j = sv_scope_calls V s a j + (if ok \<and> charges_scope a j e then 1 else 0)
    \<and> ((\<forall>t. \<not> (ok \<and> e = EvPutToken t)) \<longrightarrow> sv_token V s' = sv_token V s)"
  proof (cases rule: store_step_cases [OF inv step regular_well_charged [OF reg],
        case_names failed put_workload put_token consume revoke use_approval])
    case failed
    then show ?thesis by (simp add: unchanged_def same_budgets_def)
  next
    case (put_workload w)
    then show ?thesis by (simp add: unchanged_def same_budgets_def charges_def charges_scope_def)
  next
    case (put_token t)
    with token_store.put_token [OF token_store_axioms inv put_token(3)] show ?thesis
      by (simp add: same_budgets_def charges_def charges_scope_def)
  next
    case (consume i k l)
    with reg have "i \<in> set l" "distinct l" by (simp_all add: regular_def)
    with consume token_store.consume [OF token_store_axioms inv _ consume(3)] show ?thesis
      by (simp add: charges_def charges_scope_def count_list_distinct)
  next
    case (revoke i r)
    with token_store.revoke [OF token_store_axioms inv revoke(3)] show ?thesis
      by (simp add: same_budgets_def charges_def charges_scope_def)
  next
    case (use_approval i x)
    with token_store.use_approval [OF token_store_axioms inv use_approval(3)] show ?thesis
      by (simp add: same_budgets_def charges_def charges_scope_def)
  qed
  then show "sv_calls V s' a = sv_calls V s a + (if ok \<and> charges a e then 1 else 0)"
    and "sv_scope_calls V s' a j = sv_scope_calls V s a j + (if ok \<and> charges_scope a j e then 1 else 0)"
    and "(\<forall>t. \<not> (ok \<and> e = EvPutToken t)) \<Longrightarrow> sv_token V s' = sv_token V s" by blast+
  assume "ok" "e = EvPutToken t"
  with step have "so_PutToken S t s = (None, s')"
    by (cases "so_PutToken S t s") (simp add: store_step_def)
  from put_token [OF inv this] show "\<exists>t'. same_record t t' \<and> sv_token V s' = (sv_token V s)(tr_ID t \<mapsto> t')" by blast
qed

end

text \<open>Two stores that agree in every observation, the spelling of a record apart.\<close>

definition agree :: "'s store_view \<Rightarrow> 't store_view \<Rightarrow> 's \<Rightarrow> 't \<Rightarrow> bool" where
  "agree V W s t \<longleftrightarrow> sv_inv V s \<and> sv_inv W t
     \<and> (\<forall>i. rel_option same_record (sv_token V s i) (sv_token W t i))
     \<and> sv_calls V s = sv_calls W t \<and> sv_scope_calls V s = sv_scope_calls W t
     \<and> sv_revoked V s = sv_revoked W t \<and> sv_used V s = sv_used W t"

locale store_pair = A: exact_store S V fits + B: exact_store T W fits
  for S :: "'s store_ops" and V and T :: "'t store_ops" and W and fits
begin

lemma agree_record:
  assumes "agree V W s t"
  shows "(\<exists>r. sv_token V s j = Some r \<and> P (tr_ScopeLimits r) (tr_MaxCalls r))
      \<longleftrightarrow> (\<exists>r. sv_token W t j = Some r \<and> P (tr_ScopeLimits r) (tr_MaxCalls r))"
proof -
  have "rel_option same_record (sv_token V s j) (sv_token W t j)" using assms by (simp add: agree_def)
  then show ?thesis by (cases rule: option.rel_cases) (auto dest!: same_recordD)
qed

lemma agree_may_charge:
  assumes "agree V W s t"
  shows "may_charge V i k lin s \<longleftrightarrow> may_charge W i k lin t"
proof -
  have "sv_calls V s = sv_calls W t" "sv_scope_calls V s = sv_scope_calls W t"
    using assms by (simp_all add: agree_def)
  then show ?thesis
    using agree_record [OF assms, of i "\<lambda>ls _. 0 \<le> k \<and> k < int (length ls) \<and> sv_scope_calls W t i k < ls ! nat k"]
      agree_record [OF assms, of _ "\<lambda>_ n. sv_calls W t _ < n"]
    by (simp add: may_charge_def agree_record [OF assms, where P = "\<lambda>_ n. sv_calls W t _ < n"])
qed

lemma agree_step:
  assumes ag: "agree V W s t" and reg: "regular fits e" and fresh: "\<And>r. e = EvPutToken r \<Longrightarrow> sv_token V s (tr_ID r) = None"
    and s: "store_step S e s = (ok, s')" and t: "store_step T e t = (ok', t')"
  shows "ok' = ok \<and> agree V W s' t'"
proof -
  have inv: "sv_inv V s" "sv_inv W t" and tok: "rel_option same_record (sv_token V s i) (sv_token W t i)" for i
    using ag by (simp_all add: agree_def)
  have fresh': "sv_token W t (tr_ID r) = None" if "e = EvPutToken r" for r
    using tok [of "tr_ID r"] fresh [OF that] by simp
  have "succeeds V e s \<longleftrightarrow> succeeds W e t"
    using agree_may_charge [OF ag] ag by (simp add: succeeds_def agree_def split: store_event.split)
  then have ok: "ok' = ok"
    using A.step_succeeds [OF inv(1) reg fresh] B.step_succeeds [OF inv(2) reg fresh'] s t by simp
  note m = A.store_step_marks [OF inv(1) s regular_well_charged [OF reg]]
    B.store_step_marks [OF inv(2) t regular_well_charged [OF reg]]
  note d = A.step_adds [OF inv(1) s reg] B.step_adds [OF inv(2) t reg]
  have "rel_option same_record (sv_token V s' i) (sv_token W t' i)" for i
  proof (cases "ok \<and> (\<exists>r. e = EvPutToken r)")
    case False
    then show ?thesis using tok [of i] d(3,7) by (simp add: ok)
  next
    case True
    then obtain r a b where "same_record r a" "same_record r b"
      "sv_token V s' = (sv_token V s)(tr_ID r \<mapsto> a)" "sv_token W t' = (sv_token W t)(tr_ID r \<mapsto> b)"
      using d(4) d(8) ok by blast
    moreover from this have "same_record a b" using same_record_trans same_record_sym by blast
    ultimately show ?thesis using tok [of i] by simp
  qed
  moreover have "sv_calls V s' = sv_calls W t'" "sv_scope_calls V s' = sv_scope_calls W t'"
    using ag d(1,2,5,6) by (simp_all add: fun_eq_iff ok agree_def)
  moreover have "sv_revoked V s' = sv_revoked W t'" "sv_used V s' = sv_used W t'"
    using ag m(3,4,8,9) by (simp_all add: fun_eq_iff ok agree_def)
  ultimately show ?thesis using m(1,6) ok by (simp add: agree_def)
qed

lemma agree_run:
  "agree V W s t \<Longrightarrow> list_all (regular fits) es \<Longrightarrow> distinct (put_ids es) \<Longrightarrow>
     \<forall>i \<in> set (put_ids es). sv_token V s i = None \<Longrightarrow>
     store_run S es (hist, s) = (h1, s') \<Longrightarrow> store_run T es (hist, t) = (h2, t') \<Longrightarrow>
     h2 = h1 \<and> agree V W s' t'"
proof (induction es arbitrary: hist s t)
  case (Cons e es)
  obtain ok s1 where s1: "store_step S e s = (ok, s1)" by fastforce
  obtain ok' t1 where t1: "store_step T e t = (ok', t1)" by fastforce
  have reg: "regular fits e" using Cons.prems(2) by simp
  have "sv_token V s (tr_ID r) = None" if "e = EvPutToken r" for r
    using Cons.prems(4) that by (simp add: put_ids_def List.map_filter_simps)
  from agree_step [OF Cons.prems(1) reg this s1 t1] have ag: "ok' = ok" "agree V W s1 t1" by simp_all
  have "sv_inv V s" using Cons.prems(1) by (simp add: agree_def)
  note keep = A.store_step_marks(2) [OF this s1 regular_well_charged [OF reg]]
  have "put_ids (e # es) = put_ids [e] @ put_ids es" by (simp add: put_ids_def List.map_filter_simps split: option.split)
  with Cons.prems(3,4) have "i \<notin> set (put_ids [e])" "sv_token V s i = None" if "i \<in> set (put_ids es)" for i
    using that by auto
  with keep have "sv_token V s1 i = None" if "i \<in> set (put_ids es)" for i
    using that by metis
  moreover have "distinct (put_ids es)"
    using Cons.prems(3) by (simp add: put_ids_def List.map_filter_simps split: option.splits)
  ultimately show ?case
    using Cons.IH [OF ag(2)] Cons.prems(2,5,6) s1 t1 ag(1) by (simp split: if_splits)
qed simp

end

end
