(* ===== verification/Receipt.thy ===== *)
theory Receipt
  imports Canonical_Json
begin

section \<open>Signed receipts (\<^verbatim>\<open>internal/receipt/receipt.go\<close>)\<close>

text \<open>
  The envelope \<^verbatim>\<open>stack-receipt/v1\<close>, its validation, the bytes that are signed, \<open>receipt_sign\<close>
  and \<open>receipt_verify\<close>. The signed bytes are the canonical JSON of the envelope without its
  signature: \<open>envelope_json\<close> is the document that encoding the struct and decoding it again
  yields (strings are valid UTF-8), written with sorted keys and without HTML escapes. The
  text of a time is an argument of the model.
\<close>

definition Version :: string where
  "Version = ''stack-receipt/v1''"

record receipt_actor =
  ra_Kind :: string
  ra_ID :: string
  ra_Model :: string
  ra_ModelVersion :: string

record receipt_link =
  rl_Product :: string
  rl_ID :: string
  rl_Hash :: string

record envelope =
  ev_Version :: string
  ev_Product :: string
  ev_Kind :: string
  ev_GoalID :: string
  ev_Actors :: "receipt_actor list"
  ev_Subject :: string
  ev_PayloadHash :: string
  ev_Links :: "receipt_link list"
  ev_IssuedAt :: time
  ev_SignerKeyID :: string
  ev_Signature :: string

definition valid_product :: "string \<Rightarrow> bool" where
  "valid_product p \<longleftrightarrow> p \<in> set [''gate'', ''proof'', ''ledger'', ''warrant'', ''harbour'', ''bench'']"

datatype receipt_err =
    RcVersion string | RcProduct string | RcKind | RcActors | RcPayloadHash
  | RcLinkProduct int string | RcLinkID int | RcIssuedAt | RcSignerKeyID | RcNoSignature
  | RcKeyMismatch string string | RcMalformedSignature | RcInvalid

subsection \<open>Canonical bytes\<close>

definition opt_field :: "string \<Rightarrow> string \<Rightarrow> (string \<times> json) list" where
  "opt_field k v = (if v = [] then [] else [(k, JStr v)])"

definition actor_fields :: "receipt_actor \<Rightarrow> (string \<times> json) list" where
  "actor_fields a = [(''kind'', JStr (ra_Kind a)), (''id'', JStr (ra_ID a))]
     @ opt_field ''model'' (ra_Model a) @ opt_field ''model_version'' (ra_ModelVersion a)"

definition actor_json :: "receipt_actor \<Rightarrow> json" where
  "actor_json a = JObj (actor_fields a)"

definition link_json :: "receipt_link \<Rightarrow> json" where
  "link_json l = JObj [(''product'', JStr (rl_Product l)), (''id'', JStr (rl_ID l)), (''hash'', JStr (rl_Hash l))]"

definition envelope_fields :: "'z env_scheme \<Rightarrow> envelope \<Rightarrow> (string \<times> json) list" where
  "envelope_fields E e =
     [(''version'', JStr (ev_Version e)), (''product'', JStr (ev_Product e)), (''kind'', JStr (ev_Kind e))]
     @ opt_field ''goal_id'' (ev_GoalID e)
     @ [(''actor_chain'', JArr (map actor_json (ev_Actors e)))]
     @ opt_field ''subject'' (ev_Subject e)
     @ [(''payload_hash'', JStr (ev_PayloadHash e))]
     @ (if ev_Links e = [] then [] else [(''links'', JArr (map link_json (ev_Links e)))])
     @ [(''issued_at'', JStr (en_time_text E (ev_IssuedAt e))), (''signer_key_id'', JStr (ev_SignerKeyID e)),
        (''signature'', JStr (ev_Signature e))]"

definition envelope_json :: "'z env_scheme \<Rightarrow> envelope \<Rightarrow> json" where
  "envelope_json E e = JObj (envelope_fields E e)"

text \<open>\<^verbatim>\<open>canonicalBytes\<close> of a decoded document: its numbers keep their text.\<close>

definition canonical_bytes :: "json \<Rightarrow> string" where
  "canonical_bytes v = write_json False (\<lambda>t. t) v"

definition payload_hash :: "'z env_scheme \<Rightarrow> json \<Rightarrow> string" where
  "payload_hash E body = hex_encode (en_sha256 E (CHR 0x0A # canonical_bytes body))"

definition receipt_signing_bytes :: "'z env_scheme \<Rightarrow> envelope \<Rightarrow> string" where
  "receipt_signing_bytes E e = canonical_bytes (envelope_json E (e\<lparr>ev_Signature := []\<rparr>))"

subsection \<open>Validation\<close>

definition is_hex :: "string \<Rightarrow> bool" where
  "is_hex s \<longleftrightarrow> list_all (\<lambda>c. (CHR ''0'' \<le> c \<and> c \<le> CHR ''9'') \<or> (CHR ''a'' \<le> c \<and> c \<le> CHR ''f'')) s"

fun check_links :: "int \<Rightarrow> receipt_link list \<Rightarrow> receipt_err option" where
  "check_links i [] = None"
| "check_links i (l # ls) =
     (if \<not> valid_product (rl_Product l) then Some (RcLinkProduct i (rl_Product l))
      else if rl_ID l = [] then Some (RcLinkID i)
      else check_links (i + 1) ls)"

definition validate_content :: "envelope \<Rightarrow> receipt_err option" where
  "validate_content e =
     (if ev_Version e \<noteq> Version then Some (RcVersion (ev_Version e))
      else if \<not> valid_product (ev_Product e) then Some (RcProduct (ev_Product e))
      else if ev_Kind e = [] then Some RcKind
      else if length (ev_Actors e) = 0 \<or> ra_Kind (ev_Actors e ! 0) \<noteq> ''human'' then Some RcActors
      else if length (ev_PayloadHash e) \<noteq> 64 \<or> \<not> is_hex (ev_PayloadHash e) then Some RcPayloadHash
      else
        (case check_links 0 (ev_Links e) of
           Some err \<Rightarrow> Some err
         | None \<Rightarrow> if ev_IssuedAt e = zero_time then Some RcIssuedAt else None))"

definition validate_structure :: "envelope \<Rightarrow> receipt_err option" where
  "validate_structure e =
     (case validate_content e of
        Some err \<Rightarrow> Some err
      | None \<Rightarrow>
          if ev_SignerKeyID e = [] then Some RcSignerKeyID
          else if ev_Signature e = [] then Some RcNoSignature
          else None)"

subsection \<open>Signing and verification\<close>

definition key_id_for :: "'z env_scheme \<Rightarrow> string \<Rightarrow> string" where
  "key_id_for E pub = ''ed25519:'' @ hex_encode (take 8 (en_sha256 E pub))"

definition receipt_sign :: "'z env_scheme \<Rightarrow> time \<Rightarrow> string \<Rightarrow> envelope \<Rightarrow> receipt_err + envelope" where
  "receipt_sign E now key env =
     (let e1 = (if ev_Version env = [] then env\<lparr>ev_Version := Version\<rparr> else env);
          e2 = (if ev_IssuedAt e1 = zero_time then e1\<lparr>ev_IssuedAt := now\<rparr> else e1) in
      case validate_content e2 of
        Some err \<Rightarrow> Inl err
      | None \<Rightarrow>
          let e3 = e2\<lparr>ev_SignerKeyID := key_id_for E (en_public E key)\<rparr>;
              sig = en_sign E key (receipt_signing_bytes E e3)
          in Inr (e3\<lparr>ev_Signature := std_encode sig\<rparr>))"

definition receipt_verify :: "'z env_scheme \<Rightarrow> envelope \<Rightarrow> string \<Rightarrow> receipt_err option" where
  "receipt_verify E e pub =
     (case validate_structure e of
        Some err \<Rightarrow> Some err
      | None \<Rightarrow>
          if key_id_for E pub \<noteq> ev_SignerKeyID e then Some (RcKeyMismatch (ev_SignerKeyID e) (key_id_for E pub))
          else
            (case std_decode (ev_Signature e) of
               None \<Rightarrow> Some RcMalformedSignature
             | Some sig \<Rightarrow>
                 if \<not> en_verify E pub (receipt_signing_bytes E e) sig then Some RcInvalid else None))"

subsection \<open>Lemmas\<close>

lemma check_links_None:
  "check_links i ls = None \<longleftrightarrow> (\<forall>l \<in> set ls. valid_product (rl_Product l) \<and> rl_ID l \<noteq> [])"
  by (induction ls arbitrary: i) auto

lemma validate_content_None:
  "validate_content e = None \<longleftrightarrow>
     ev_Version e = Version \<and> valid_product (ev_Product e) \<and> ev_Kind e \<noteq> []
     \<and> (\<exists>a as. ev_Actors e = a # as \<and> ra_Kind a = ''human'')
     \<and> length (ev_PayloadHash e) = 64 \<and> is_hex (ev_PayloadHash e)
     \<and> (\<forall>l \<in> set (ev_Links e). valid_product (rl_Product l) \<and> rl_ID l \<noteq> [])
     \<and> ev_IssuedAt e \<noteq> zero_time"
  unfolding check_links_None [of 0, symmetric]
  by (cases "ev_Actors e") (auto simp: validate_content_def split: option.splits)

lemma std_encode_not_Nil: "s \<noteq> [] \<Longrightarrow> std_encode s \<noteq> []"
proof
  assume "s \<noteq> []" "std_encode s = []"
  moreover have "std_decode [] = Some []" by code_simp
  ultimately show False using std_roundtrip [of s] by simp
qed

lemma signing_bytes_signature [simp]:
  "receipt_signing_bytes E (e\<lparr>ev_Signature := s\<rparr>) = receipt_signing_bytes E e"
  by (simp add: receipt_signing_bytes_def)

lemma validate_content_signed [simp]:
  "validate_content (e\<lparr>ev_Signature := s\<rparr>) = validate_content e"
  "validate_content (e\<lparr>ev_SignerKeyID := k\<rparr>) = validate_content e"
  by (simp_all add: validate_content_def)

text \<open>Equal normal forms of two objects with distinct keys have equal fields.\<close>

lemma norm_fields:
  assumes "norm_json num (JObj kvs) = norm_json num (JObj lvs)"
    and "distinct (map fst kvs)" and "distinct (map fst lvs)"
  shows "map_option (norm_json num) (map_of kvs k) = map_option (norm_json num) (map_of lvs k)"
proof -
  let ?f = "map_prod id (norm_json num)"
  have "map ?f (sort_key fst kvs) = map ?f (sort_key fst lvs)"
    using assms(1) by (simp add: norm_json_JObj)
  then have "set (map ?f kvs) = set (map ?f lvs)" by (metis set_map set_sort)
  moreover have "map fst (map ?f xs) = map fst xs" for xs :: "(string \<times> json) list" by simp
  ultimately have "map_of (map ?f kvs) = map_of (map ?f lvs)"
    using assms(2,3) by (intro map_of_inject_set [THEN iffD2]) simp_all
  moreover have "map_of (map ?f xs) k = map_option (norm_json num) (map_of xs k)" for xs
    by (induction xs) auto
  ultimately show ?thesis by metis
qed

lemma opt_field_simps [simp]:
  "map_of (opt_field k v) j = (if j = k \<and> v \<noteq> [] then Some (JStr v) else None)"
  "set (opt_field k v) = (if v = [] then {} else {(k, JStr v)})"
  "map fst (opt_field k v) = (if v = [] then [] else [k])"
  by (auto simp: opt_field_def)

lemma opt_text_inject: "(if v = [] then None else Some (JStr v)) = (if w = [] then None else Some (JStr w)) \<longleftrightarrow> v = w"
  by auto

lemma norm_JStr [simp]: "norm_json num (JStr s) = JStr s"
  by simp

lemma field_keys: "distinct (map fst (actor_fields a))" "distinct (map fst (envelope_fields E e))"
  by (auto simp: actor_fields_def envelope_fields_def opt_field_def)

lemma actor_json_inject:
  assumes "norm_json num (actor_json a) = norm_json num (actor_json b)"
  shows "a = b"
proof -
  note f = norm_fields [OF assms [unfolded actor_json_def] field_keys(1) field_keys(1)]
  have "ra_Kind a = ra_Kind b" using f [of "''kind''"] by (simp add: actor_fields_def map_add_def split: if_splits)
  moreover have "ra_ID a = ra_ID b" using f [of "''id''"] by (simp add: actor_fields_def map_add_def split: if_splits)
  moreover have "ra_Model a = ra_Model b" using f [of "''model''"] by (simp add: actor_fields_def map_add_def split: if_splits)
  moreover have "ra_ModelVersion a = ra_ModelVersion b" using f [of "''model_version''"] by (simp add: actor_fields_def map_add_def split: if_splits)
  ultimately show ?thesis by simp
qed

lemma link_json_inject:
  assumes "norm_json num (link_json a) = norm_json num (link_json b)"
  shows "a = b"
proof -
  note f = norm_fields [OF assms [unfolded link_json_def]]
  have "rl_Product a = rl_Product b" using f [of "''product''"] by simp
  moreover have "rl_ID a = rl_ID b" using f [of "''id''"] by simp
  moreover have "rl_Hash a = rl_Hash b" using f [of "''hash''"] by simp
  ultimately show ?thesis by simp
qed

lemma map_norm_inject:
  assumes "\<And>a b. norm_json num (g a) = norm_json num (g b) \<Longrightarrow> a = b"
    and "map (norm_json num) (map g xs) = map (norm_json num) (map g ys)"
  shows "xs = ys"
proof -
  have "inj (norm_json num \<circ> g)" using assms(1) by (auto intro: injI)
  with assms(2) show ?thesis by (simp add: inj_map_eq_map)
qed

lemma envelope_json_inject:
  assumes "norm_json num (envelope_json E a) = norm_json num (envelope_json E b)"
    and "inj (en_time_text E)"
  shows "a = b"
proof -
  note f = norm_fields [OF assms(1) [unfolded envelope_json_def] field_keys(2) field_keys(2)]
  have "ev_Version a = ev_Version b" using f [of "''version''"] by (simp add: envelope_fields_def map_add_def split: if_splits)
  moreover have "ev_Product a = ev_Product b" using f [of "''product''"] by (simp add: envelope_fields_def map_add_def split: if_splits)
  moreover have "ev_Kind a = ev_Kind b" using f [of "''kind''"] by (simp add: envelope_fields_def map_add_def split: if_splits)
  moreover have "ev_GoalID a = ev_GoalID b" using f [of "''goal_id''"] by (simp add: envelope_fields_def map_add_def split: if_splits)
  moreover have "ev_Actors a = ev_Actors b"
    using f [of "''actor_chain''"] map_norm_inject [where num = num and g = actor_json, OF actor_json_inject]
    by (simp add: envelope_fields_def map_add_def split: if_splits)
  moreover have "ev_Subject a = ev_Subject b" using f [of "''subject''"] by (simp add: envelope_fields_def map_add_def split: if_splits)
  moreover have "ev_PayloadHash a = ev_PayloadHash b" using f [of "''payload_hash''"] by (simp add: envelope_fields_def map_add_def split: if_splits)
  moreover have "ev_Links a = ev_Links b"
    using f [of "''links''"] map_norm_inject [where num = num and g = link_json, OF link_json_inject]
    by (simp add: envelope_fields_def map_add_def split: if_splits)
  moreover have "ev_IssuedAt a = ev_IssuedAt b"
    using f [of "''issued_at''"] assms(2) by (simp add: inj_eq envelope_fields_def map_add_def split: if_splits)
  moreover have "ev_SignerKeyID a = ev_SignerKeyID b" using f [of "''signer_key_id''"] by (simp add: envelope_fields_def map_add_def split: if_splits)
  moreover have "ev_Signature a = ev_Signature b" using f [of "''signature''"] by (simp add: envelope_fields_def map_add_def split: if_splits)
  ultimately show ?thesis by simp
qed

lemma envelope_numbers_ok: "numbers_ok (envelope_json E e)"
  by (auto simp: envelope_json_def envelope_fields_def opt_field_def numbers_ok_members actor_json_def
      actor_fields_def link_json_def)

lemma signing_bytes_norm:
  assumes "receipt_signing_bytes E a = receipt_signing_bytes E b"
  shows "norm_json (\<lambda>t. t) (envelope_json E (a\<lparr>ev_Signature := []\<rparr>))
    = norm_json (\<lambda>t. t) (envelope_json E (b\<lparr>ev_Signature := []\<rparr>))"
proof -
  have "norm_number_ok (\<lambda>t. t)" by (simp add: norm_number_ok_def)
  from write_json_reads [OF this envelope_numbers_ok envelope_numbers_ok, of False]
  show ?thesis
    using assms unfolding receipt_signing_bytes_def canonical_bytes_def reads_def
    by (metis append_Nil2 delimited_def)
qed

definition ex_envelope :: envelope where
  "ex_envelope = \<lparr>ev_Version = [], ev_Product = ''warrant'', ev_Kind = ''warrant.decision'', ev_GoalID = ''g1'',
     ev_Actors = [\<lparr>ra_Kind = ''human'', ra_ID = ''ann'', ra_Model = [], ra_ModelVersion = []\<rparr>],
     ev_Subject = ''t1'', ev_PayloadHash = replicate 64 (CHR ''a''), ev_Links = [], ev_IssuedAt = zero_time,
     ev_SignerKeyID = [], ev_Signature = []\<rparr>"

definition ex_signed :: envelope where
  "ex_signed = (case receipt_sign (toy_env []) 5 ''key'' ex_envelope of Inr e \<Rightarrow> e | Inl _ \<Rightarrow> ex_envelope)"

lemma ex_signed: "receipt_sign (toy_env []) 5 ''key'' ex_envelope = Inr ex_signed"
proof -
  have "validate_content (ex_envelope\<lparr>ev_Version := Version, ev_IssuedAt := 5\<rparr>) = None" by code_simp
  then have "\<exists>e. receipt_sign (toy_env []) 5 ''key'' ex_envelope = Inr e"
    by (simp add: receipt_sign_def Let_def ex_envelope_def zero_time_def)
  then show ?thesis by (auto simp: ex_signed_def)
qed

lemma receipt_sign_verifies:
  assumes "env_ok E" and "now \<noteq> zero_time" and "receipt_sign E now key env = Inr e"
  shows "receipt_verify E e (en_public E key) = None
     \<and> ev_Version e = Version \<and> ev_SignerKeyID e = key_id_for E (en_public E key)
     \<and> ev_IssuedAt e = (if ev_IssuedAt env = zero_time then now else ev_IssuedAt env)
     \<and> ev_Actors e = ev_Actors env \<and> ev_PayloadHash e = ev_PayloadHash env \<and> ev_Subject e = ev_Subject env
     \<and> ev_Product e = ev_Product env \<and> ev_Kind e = ev_Kind env \<and> ev_GoalID e = ev_GoalID env
     \<and> ev_Links e = ev_Links env"
proof -
  define e2 where "e2 = env\<lparr>ev_Version := (if ev_Version env = [] then Version else ev_Version env),
    ev_IssuedAt := (if ev_IssuedAt env = zero_time then now else ev_IssuedAt env)\<rparr>"
  define e3 where "e3 = e2\<lparr>ev_SignerKeyID := key_id_for E (en_public E key)\<rparr>"
  let ?sig = "en_sign E key (receipt_signing_bytes E e3)"
  have v: "validate_content e2 = None" and e: "e = e3\<lparr>ev_Signature := std_encode ?sig\<rparr>"
    using assms(3) by (auto simp: receipt_sign_def e2_def e3_def Let_def split: option.splits if_splits)
  have "validate_structure e = None"
    using v assms(1) by (simp add: validate_structure_def e e3_def key_id_for_def std_encode_not_Nil env_ok_def)
  then have "receipt_verify E e (en_public E key) = None"
    using assms(1) by (simp add: receipt_verify_def e env_ok_def) (simp add: e3_def)
  moreover have "ev_Version e2 = Version" using v by (simp add: validate_content_None)
  ultimately show ?thesis by (simp add: e e3_def e2_def)
qed

lemma receipt_sign_total:
  assumes "ev_Version env \<in> {[], Version}" and "valid_product (ev_Product env)" and "ev_Kind env \<noteq> []"
    and "ev_Actors env = a # as" and "ra_Kind a = ''human''"
    and "length (ev_PayloadHash env) = 64" and "is_hex (ev_PayloadHash env)" and "ev_Links env = []" and "now \<noteq> zero_time"
  shows "\<exists>e. receipt_sign E now key env = Inr e"
proof -
  define e2 where "e2 = env\<lparr>ev_Version := (if ev_Version env = [] then Version else ev_Version env),
    ev_IssuedAt := (if ev_IssuedAt env = zero_time then now else ev_IssuedAt env)\<rparr>"
  have "validate_content e2 = None"
    using assms unfolding validate_content_None by (auto simp: e2_def)
  then show ?thesis by (auto simp: receipt_sign_def e2_def Let_def)
qed

lemma hex_encode_is_hex [simp]: "is_hex (hex_encode s)"
proof -
  have "is_hex hex_digits" by code_simp
  then show ?thesis using set_hex_encode [of s] by (auto simp: is_hex_def list_all_iff)
qed

subsection \<open>Properties\<close>

text \<open>
  What \<^verbatim>\<open>Sign\<close> returns, \<^verbatim>\<open>Verify\<close> accepts under the signer's public key; signing fills in the
  version, the time when it is missing and the key id, and changes nothing else.
\<close>

theorem receipt_roundtrip:
  assumes "env_ok E" and "now \<noteq> zero_time" and "receipt_sign E now key env = Inr e"
  shows "receipt_verify E e (en_public E key) = None
     \<and> ev_Version e = Version \<and> ev_SignerKeyID e = key_id_for E (en_public E key)
     \<and> ev_IssuedAt e = (if ev_IssuedAt env = zero_time then now else ev_IssuedAt env)
     \<and> ev_Actors e = ev_Actors env \<and> ev_PayloadHash e = ev_PayloadHash env \<and> ev_Subject e = ev_Subject env
     \<and> ev_Product e = ev_Product env \<and> ev_Kind e = ev_Kind env \<and> ev_GoalID e = ev_GoalID env
     \<and> ev_Links e = ev_Links env"
  by (rule receipt_sign_verifies [OF assms])

theorem receipt_roundtrip_witness:
  "receipt_verify (toy_env []) ex_signed (en_public (toy_env []) ''key'') = None \<and> ev_IssuedAt ex_signed = 5"
  using receipt_roundtrip [OF toy_env_ok _ ex_signed] by (simp add: ex_envelope_def zero_time_def time_unix_def second_def)



text \<open>
  A receipt that verifies is well formed: the supported version, a known product, a kind, an
  actor chain that starts with a human, a payload hash of 64 lower-case hexadecimal characters,
  links to known products, the key id of the very key it is checked under, and a signature of that
  key over the canonical bytes.
\<close>

theorem receipt_verify_exact:
  "receipt_verify E e pub = None \<longleftrightarrow>
     ev_Version e = Version \<and> valid_product (ev_Product e) \<and> ev_Kind e \<noteq> []
     \<and> (\<exists>a as. ev_Actors e = a # as \<and> ra_Kind a = ''human'')
     \<and> length (ev_PayloadHash e) = 64 \<and> is_hex (ev_PayloadHash e)
     \<and> list_all (\<lambda>l. valid_product (rl_Product l) \<and> rl_ID l \<noteq> []) (ev_Links e)
     \<and> ev_IssuedAt e \<noteq> zero_time \<and> ev_SignerKeyID e = key_id_for E pub \<and> ev_Signature e \<noteq> []
     \<and> (\<exists>sig. std_decode (ev_Signature e) = Some sig \<and> en_verify E pub (receipt_signing_bytes E e) sig)"
proof -
  have "receipt_verify E e pub = None \<longleftrightarrow> validate_content e = None \<and> ev_SignerKeyID e \<noteq> [] \<and> ev_Signature e \<noteq> []
      \<and> ev_SignerKeyID e = key_id_for E pub
      \<and> (\<exists>sig. std_decode (ev_Signature e) = Some sig \<and> en_verify E pub (receipt_signing_bytes E e) sig)"
    by (auto simp: receipt_verify_def validate_structure_def split: option.splits)
  moreover have "key_id_for E pub \<noteq> []" by (simp add: key_id_for_def)
  ultimately show ?thesis by (auto simp: validate_content_None list_all_iff)
qed

end
