(* ===== verification/Broker.thy ===== *)
theory Broker
  imports Attenuate_Chain Token_Store Receipt
begin

section \<open>The broker (\<^verbatim>\<open>internal/broker/service.go\<close>)\<close>

text \<open>
  The struct \<^verbatim>\<open>Service\<close> is the record \<open>broker\<close>: its configuration, the operations of its store, its
  signer, its policy and its receipt key. What its operations change is the \<open>world\<close>: the state of
  the store and the records handed to the ledger, whose own failures are only logged. Each
  operation is one definition with the guards of the code in their order; an operation reads the
  clock once, as the argument \<open>now\<close>, and the random ids it draws are arguments. An error is a
  value of \<open>broker_err\<close>, with the constructors \<open>ESvid\<close> to \<open>EApprovalToken\<close> for the wrapping of
  \<^verbatim>\<open>fmt.Errorf\<close>; the text of an error is a field of the environment, since only records carry it.

  This theory holds the data, the operations and what each operation guarantees by itself.
\<close>

subsection \<open>Data\<close>

record config =
  cf_TrustDomain :: string
  cf_MaxDepth :: int
  cf_MaxTTL :: duration
  cf_DefaultTTL :: duration
  cf_SVIDTTL :: duration
  cf_ApprovalTTL :: duration

datatype broker_err =
    EJwt jwt_err
  | EChain att_err
  | EBadChain
  | EStore store_err
  | ESign
  | EBadSecret
  | EDepth int int
  | EEmptyScope
  | ERevoked string
  | EWrongKind
  | EBinding
  | EPolicy string
  | ENoScope
  | EApproval
  | EApprovalBound
  | EApprovalUsed
  | EBadRequest
  | EBadScope scope_err
  | ENoClaims
  | ESvid broker_err
  | EParent broker_err
  | EParentSvid broker_err
  | EChildSvid broker_err
  | EApprovalToken broker_err

record broker_env = chain_env +
  be_error_text :: "broker_err \<Rightarrow> string"

record ledger_actor =
  la_Kind :: string
  la_ID :: string
  la_Model :: string
  la_ModelVersion :: string

text \<open>
  The payload map of a record; \<open>None\<close> stands for a value that has no JSON encoding. The receipt
  that \<^verbatim>\<open>attachReceipt\<close> puts under the key \<^verbatim>\<open>receipt\<close> is a field of its own.
\<close>

type_synonym payload = "(string \<times> json option) list"

record ledger_record =
  lg_Chain :: string
  lg_Type :: string
  lg_GoalID :: string
  lg_ActorChain :: "ledger_actor list"
  lg_PolicyVersion :: string
  lg_Payload :: payload
  lg_Receipt :: "envelope option"

record 's world =
  wd_Store :: 's
  wd_Ledger :: "ledger_record list"

record 's broker =
  br_Cfg :: config
  br_Ops :: "'s store_ops"
  br_Signer :: signer
  br_Policy :: "policy_set option"
  br_ReceiptKey :: "string option"

subsection \<open>Configuration\<close>

definition fill_defaults :: "config \<Rightarrow> config" where
  "fill_defaults c =
     c\<lparr>cf_TrustDomain := (if cf_TrustDomain c = [] then ''warrant.local'' else cf_TrustDomain c),
       cf_MaxDepth := (if cf_MaxDepth c = 0 then 1 else cf_MaxDepth c),
       cf_MaxTTL := (if cf_MaxTTL c = 0 then 15 * minute else cf_MaxTTL c),
       cf_DefaultTTL := (if cf_DefaultTTL c = 0 then 5 * minute else cf_DefaultTTL c),
       cf_SVIDTTL := (if cf_SVIDTTL c = 0 then 10 * minute else cf_SVIDTTL c),
       cf_ApprovalTTL := (if cf_ApprovalTTL c = 0 then 5 * minute else cf_ApprovalTTL c)\<rparr>"

definition new_broker :: "config \<Rightarrow> 's store_ops \<Rightarrow> signer \<Rightarrow> policy_set option \<Rightarrow> 's broker" where
  "new_broker cfg ops sg pol =
     \<lparr>br_Cfg = fill_defaults cfg, br_Ops = ops, br_Signer = sg, br_Policy = pol, br_ReceiptKey = None\<rparr>"

definition hash_secret :: "'z env_scheme \<Rightarrow> string \<Rightarrow> string" where
  "hash_secret E s = hex_encode (en_sha256 E (''warrant-workload:'' @ s))"

definition policy_version :: "'s broker \<Rightarrow> string" where
  "policy_version B = (case br_Policy B of None \<Rightarrow> [] | Some p \<Rightarrow> ps_Version p)"

subsection \<open>Records and receipts\<close>

definition receipt_kinds :: "(string \<times> string) list" where
  "receipt_kinds =
     [(''warrant.token.issued'', ''warrant.decision''), (''warrant.token.revoked'', ''warrant.decision''),
      (''warrant.call.allowed'', ''warrant.decision''), (''warrant.call.denied'', ''warrant.decision'')]"

definition str_of :: "json option option \<Rightarrow> string" where
  "str_of v = (case v of Some (Some (JStr s)) \<Rightarrow> s | _ \<Rightarrow> [])"

definition payload_doc :: "payload \<Rightarrow> json option" where
  "payload_doc p = map_option JObj (those (map (\<lambda>(k, v). map_option (Pair k) v) p))"

definition attach_receipt ::
    "'z env_scheme \<Rightarrow> time \<Rightarrow> 's broker \<Rightarrow> string \<Rightarrow> ledger_actor list \<Rightarrow> payload \<Rightarrow> envelope option" where
  "attach_receipt E now B kind actors p =
     (case (case br_ReceiptKey B of
              Some k \<Rightarrow> Some k
            | None \<Rightarrow> if sg_Priv (br_Signer B) \<noteq> [] then Some (sg_Priv (br_Signer B)) else None) of
        None \<Rightarrow> None
      | Some key \<Rightarrow>
          (case payload_doc p of
             None \<Rightarrow> None
           | Some doc \<Rightarrow>
               (case receipt_sign E now key
                   \<lparr>ev_Version = [], ev_Product = ''warrant'', ev_Kind = kind,
                    ev_GoalID = str_of (map_of p ''goal_id''),
                    ev_Actors = map (\<lambda>a. \<lparr>ra_Kind = la_Kind a, ra_ID = la_ID a, ra_Model = la_Model a,
                                        ra_ModelVersion = la_ModelVersion a\<rparr>) actors,
                    ev_Subject = str_of (map_of p ''token_id''), ev_PayloadHash = payload_hash E doc,
                    ev_Links = [], ev_IssuedAt = zero_time, ev_SignerKeyID = [], ev_Signature = []\<rparr> of
                  Inl _ \<Rightarrow> None
                | Inr env \<Rightarrow> Some env)))"

definition actor_chain :: "string \<Rightarrow> string list \<Rightarrow> ledger_actor list" where
  "actor_chain human agents =
     \<lparr>la_Kind = ''human'', la_ID = (if human = [] then ''unknown'' else human), la_Model = [], la_ModelVersion = []\<rparr>
     # map (\<lambda>a. \<lparr>la_Kind = ''agent'', la_ID = a, la_Model = [], la_ModelVersion = []\<rparr>) (filter (\<lambda>a. a \<noteq> []) agents)"

definition record_event ::
    "'z env_scheme \<Rightarrow> time \<Rightarrow> 's broker \<Rightarrow> string \<Rightarrow> string \<Rightarrow> string list \<Rightarrow> payload \<Rightarrow> 's world \<Rightarrow> 's world" where
  "record_event E now B typ human agents p w =
     (let chain = actor_chain human agents;
          rc = (case map_of receipt_kinds typ of None \<Rightarrow> None | Some kind \<Rightarrow> attach_receipt E now B kind chain p)
      in w\<lparr>wd_Ledger := wd_Ledger w @
            [\<lparr>lg_Chain = ''warrant'', lg_Type = typ, lg_GoalID = str_of (map_of p ''goal_id''),
              lg_ActorChain = chain, lg_PolicyVersion = policy_version B, lg_Payload = p, lg_Receipt = rc\<rparr>]\<rparr>)"

text \<open>Payload values: strings, integers and scopes.\<close>

definition pstr :: "string \<Rightarrow> json option" where "pstr s = Some (JStr s)"
definition pint :: "int \<Rightarrow> json option" where "pint i = Some (JNum (int_text i))"

definition float_json :: "'z env_scheme \<Rightarrow> float64 \<Rightarrow> json option" where
  "float_json E f = (case f of Fin _ \<Rightarrow> Some (JNum (en_float_text E f)) | _ \<Rightarrow> None)"

definition constraint_json :: "'z env_scheme \<Rightarrow> arg_constraint \<Rightarrow> json option" where
  "constraint_json E c = payload_doc (
     (if enum_list c = [] then [] else [(''enum'', Some (JArr (map JStr (enum_list c))))])
     @ (if ac_Pattern c = [] then [] else [(''pattern'', pstr (ac_Pattern c))])
     @ (case ac_Min c of None \<Rightarrow> [] | Some f \<Rightarrow> [(''min'', float_json E f)])
     @ (case ac_Max c of None \<Rightarrow> [] | Some f \<Rightarrow> [(''max'', float_json E f)])
     @ (if ac_EnumSet c then [(''enum_set'', Some (JBool True))] else []))"

definition scope_json :: "'z env_scheme \<Rightarrow> scope \<Rightarrow> json option" where
  "scope_json E s = payload_doc (
     [(''tool'', pstr (sc_Tool s))]
     @ (if sc_Resources s = [] then [] else [(''resources'', Some (JArr (map JStr (sc_Resources s))))])
     @ (if sc_Args s = [] then []
        else [(''args'', payload_doc (map (\<lambda>(n, c). (n, constraint_json E c)) (sc_Args s)))])
     @ [(''max_calls'', pint (sc_MaxCalls s))]
     @ (if sc_RequireApproval s then [(''require_approval'', Some (JBool True))] else []))"

definition pscopes :: "'z env_scheme \<Rightarrow> scope list \<Rightarrow> json option" where
  "pscopes E ss = map_option JArr (those (map (scope_json E) ss))"

subsection \<open>Workload identity\<close>

definition register_workload ::
    "'z env_scheme \<Rightarrow> 's broker \<Rightarrow> string \<Rightarrow> string \<Rightarrow> 's world \<Rightarrow> broker_err option \<times> 's world" where
  "register_workload E B name secret w =
     (if name = [] \<or> contains_any name ''/*'' \<or> length secret < 16 then (Some EBadRequest, w)
      else
        (case so_PutWorkload (br_Ops B)
            \<lparr>wl_Name = name, wl_SecretHash = hash_secret E secret, wl_CreatedAt = zero_time\<rparr> (wd_Store w) of
           (e, s) \<Rightarrow> (map_option EStore e, w\<lparr>wd_Store := s\<rparr>)))"

definition spiffe_id :: "'s broker \<Rightarrow> string \<Rightarrow> string \<Rightarrow> string" where
  "spiffe_id B workload inst =
     ''spiffe://'' @ cf_TrustDomain (br_Cfg B) @ ''/workload/'' @ workload @ ''/'' @ inst"

definition issuer :: "'s broker \<Rightarrow> string" where
  "issuer B = ''spiffe://'' @ cf_TrustDomain (br_Cfg B) @ ''/warrantd''"

definition issue_svid ::
    "'z env_scheme \<Rightarrow> time \<Rightarrow> 's broker \<Rightarrow> string \<Rightarrow> string \<Rightarrow> string \<Rightarrow> string \<Rightarrow> string \<Rightarrow> 's world
       \<Rightarrow> broker_err + string \<times> claims" where
  "issue_svid E now B fresh_inst fresh_id workload secret inst0 w =
     (case so_GetWorkload (br_Ops B) workload (wd_Store w) of
        Inl _ \<Rightarrow> Inl EBadSecret
      | Inr wl \<Rightarrow>
          if wl_SecretHash wl \<noteq> hash_secret E secret then Inl EBadSecret
          else
            let inst = (if inst0 = [] then take 12 fresh_inst else inst0) in
            if contains_any inst ''/*'' then Inl EBadRequest
            else
              let c = zero_claims\<lparr>cm_ID := fresh_id, cm_Issuer := issuer B, cm_Subject := spiffe_id B workload inst,
                        cm_IssuedAt := unix now, cm_Expires := unix (now + cf_SVIDTTL (br_Cfg B)),
                        cm_Kind := ''svid''\<rparr> in
              (case jwt_sign E (br_Signer B) c of None \<Rightarrow> Inl ESign | Some t \<Rightarrow> Inr (t, c)))"

definition verify_kind ::
    "'z env_scheme \<Rightarrow> 's broker \<Rightarrow> string \<Rightarrow> string \<Rightarrow> time \<Rightarrow> claims \<times> broker_err option" where
  "verify_kind E B tok kind now =
     (case jwt_verify E (sg_Pub (br_Signer B)) tok now of
        (c, Some e) \<Rightarrow> (c, Some (EJwt e))
      | (c, None) \<Rightarrow> if cm_Kind c \<noteq> kind then (c, Some EWrongKind) else (c, None))"

subsection \<open>Issuing root tokens\<close>

record mint_request =
  mr_SVID :: string
  mr_Human :: string
  mr_Scopes :: "scope list"
  mr_TTL :: int
  mr_MaxCalls :: int
  mr_MaxDepth :: int
  mr_GoalID :: string
  mr_Cnf :: "cnf option"

record issued =
  is_Token :: string
  is_Claims :: claims

text \<open>\<^verbatim>\<open>time.Duration(req)*time.Second\<close> wraps around at 64 bits.\<close>

definition token_ttl :: "'s broker \<Rightarrow> time \<Rightarrow> int \<Rightarrow> time \<Rightarrow> time" where
  "token_ttl B now req cap =
     (let d0 = (if 0 < req then wrap64 (req * second) else cf_DefaultTTL (br_Cfg B));
          d = (if cf_MaxTTL (br_Cfg B) < d0 then cf_MaxTTL (br_Cfg B) else d0);
          ex = now + d
      in if cap \<noteq> zero_time \<and> cap < ex then cap else ex)"

definition sum_calls :: "scope list \<Rightarrow> int" where
  "sum_calls ss = fold (\<lambda>x n. wrap64 (n + sc_MaxCalls x)) ss 0"

text \<open>The loops of \<^verbatim>\<open>MintRoot\<close> over the resources of a scope and over the scopes.\<close>

fun mint_resources ::
    "'s broker \<Rightarrow> time \<Rightarrow> string \<Rightarrow> string \<Rightarrow> string \<Rightarrow> string list \<Rightarrow> int \<Rightarrow> broker_err + int" where
  "mint_resources B now prin human tool [] mad = Inr mad"
| "mint_resources B now prin human tool (res # rs) mad =
     (let d = evaluate (br_Policy B) \<lparr>rq_Action = ActionMint, rq_Principal = prin, rq_Human = human, rq_Depth = 0,
                rq_Call = \<lparr>cl_Tool = tool, cl_Resource = res, cl_Args = []\<rparr>, rq_HourUTC = hour_utc now\<rparr> in
      if \<not> pd_Allow d then Inl (EPolicy (pd_Reason d))
      else mint_resources B now prin human tool rs (if mad < pd_AllowDepth d then pd_AllowDepth d else mad))"

fun mint_scopes ::
    "'s broker \<Rightarrow> time \<Rightarrow> string \<Rightarrow> string \<Rightarrow> scope list \<Rightarrow> int \<Rightarrow> broker_err + int" where
  "mint_scopes B now prin human [] mad = Inr mad"
| "mint_scopes B now prin human (sc # ss) mad =
     (case validate_scope sc of
        Some e \<Rightarrow> Inl (EBadScope e)
      | None \<Rightarrow>
          (case mint_resources B now prin human (sc_Tool sc) (sc_Resources sc) mad of
             Inl e \<Rightarrow> Inl e
           | Inr mad' \<Rightarrow> mint_scopes B now prin human ss mad'))"

definition token_record_of :: "claims \<Rightarrow> string \<Rightarrow> token_record" where
  "token_record_of c raw =
     \<lparr>tr_ID = cm_ID c, tr_Parent = cm_Parent c, tr_ParentActor = cm_ParentActor c, tr_GoalID = cm_GoalID c,
      tr_Subject = cm_Subject c, tr_Human = cm_Human c, tr_Depth = cm_Depth c, tr_MaxCalls = cm_MaxCalls c,
      tr_ScopeLimits = map sc_MaxCalls (cm_Scopes c), tr_Expires = time_unix (cm_Expires c), tr_Claims = raw\<rparr>"

definition persist ::
    "'z env_scheme \<Rightarrow> 's broker \<Rightarrow> claims \<Rightarrow> 's world \<Rightarrow> (broker_err + issued) \<times> 's world" where
  "persist E B c w =
     (case jwt_sign E (br_Signer B) c of
        None \<Rightarrow> (Inl ESign, w)
      | Some tok \<Rightarrow>
          let raw = (case en_marshal_claims E c of None \<Rightarrow> [] | Some b \<Rightarrow> b) in
          (case so_PutToken (br_Ops B) (token_record_of c raw) (wd_Store w) of
             (Some e, s) \<Rightarrow> (Inl (EStore e), w\<lparr>wd_Store := s\<rparr>)
           | (None, s) \<Rightarrow> (Inr \<lparr>is_Token = tok, is_Claims = c\<rparr>, w\<lparr>wd_Store := s\<rparr>)))"

definition mint_claims :: "'s broker \<Rightarrow> time \<Rightarrow> string \<Rightarrow> mint_request \<Rightarrow> claims \<Rightarrow> int \<Rightarrow> int \<Rightarrow> claims" where
  "mint_claims B now fresh r svid md mc =
     zero_claims\<lparr>cm_ID := fresh, cm_Issuer := issuer B, cm_Subject := cm_Subject svid, cm_Human := mr_Human r,
       cm_IssuedAt := unix now, cm_Expires := unix (token_ttl B now (mr_TTL r) (time_unix (cm_Expires svid))),
       cm_Depth := 0, cm_MaxDepth := md, cm_MaxCalls := mc, cm_Scopes := mr_Scopes r, cm_Kind := ''capability'',
       cm_ParentActor := cm_Subject svid, cm_GoalID := mr_GoalID r, cm_Cnf := mr_Cnf r\<rparr>"

definition mint_root ::
    "'z env_scheme \<Rightarrow> time \<Rightarrow> 's broker \<Rightarrow> string \<Rightarrow> mint_request \<Rightarrow> 's world \<Rightarrow> (broker_err + issued) \<times> 's world" where
  "mint_root E now B fresh r w =
     (case verify_kind E B (mr_SVID r) ''svid'' now of
        (svid, Some e) \<Rightarrow> (Inl (ESvid e), w)
      | (svid, None) \<Rightarrow>
          if mr_Human r = [] \<or> length (mr_Scopes r) = 0 then (Inl EBadRequest, w)
          else
            (case mint_scopes B now (cm_Subject svid) (mr_Human r) (mr_Scopes r) (cf_MaxDepth (br_Cfg B)) of
               Inl e \<Rightarrow> (Inl e, w)
             | Inr mad \<Rightarrow>
                 let md = (if mr_MaxDepth r \<le> 0 then cf_MaxDepth (br_Cfg B) else mr_MaxDepth r) in
                 if mad < md then (Inl (EDepth md mad), w)
                 else
                   let total = sum_calls (mr_Scopes r);
                       mc = (if mr_MaxCalls r \<le> 0 \<or> total < mr_MaxCalls r then total else mr_MaxCalls r);
                       c = mint_claims B now fresh r svid md mc in
                   (case persist E B c w of
                      (Inl e, w') \<Rightarrow> (Inl e, w')
                    | (Inr iss, w') \<Rightarrow>
                        (Inr iss, record_event E now B ''warrant.token.issued'' (cm_Human c) [cm_Subject c]
                           [(''token_id'', pstr (cm_ID c)), (''subject'', pstr (cm_Subject c)), (''depth'', pint 0),
                            (''max_depth'', pint md), (''max_calls'', pint mc), (''expires'', pint (cm_Expires c)),
                            (''scopes'', pscopes E (cm_Scopes c)), (''goal_id'', pstr (mr_GoalID r))] w'))))"

subsection \<open>Live credentials\<close>

definition check_revoked :: "'s broker \<Rightarrow> claims \<Rightarrow> 's \<Rightarrow> broker_err option" where
  "check_revoked B c s =
     (case so_FirstRevoked (br_Ops B) (lineage c) s of
        Inl e \<Rightarrow> Some (EStore e)
      | Inr i \<Rightarrow> if i \<noteq> [] then Some (ERevoked i) else None)"

definition looks_like_chain :: "string \<Rightarrow> bool" where
  "looks_like_chain tok \<longleftrightarrow> has_prefix (trim_space tok) ''{''"

definition check_live_chain ::
    "'z chain_env_scheme \<Rightarrow> time \<Rightarrow> 's broker \<Rightarrow> string \<Rightarrow> 's \<Rightarrow> claims \<times> broker_err option" where
  "check_live_chain E now B tok s =
     (case ce_unmarshal_chain E tok of
        None \<Rightarrow> (zero_claims, Some EBadChain)
      | Some ch \<Rightarrow>
          (case chain_verify E (sg_Pub (br_Signer B)) ch now of
             Inl e \<Rightarrow> (zero_claims, Some (EChain e))
           | Inr eff \<Rightarrow>
               let c = ef_Base eff in
               if cm_Kind c \<noteq> ''capability'' then (c, Some EWrongKind)
               else
                 (case check_revoked B c s of
                    Some e \<Rightarrow> (c, Some e)
                  | None \<Rightarrow>
                      (c\<lparr>cm_Scopes := ef_Scopes eff, cm_Expires := ef_Expires eff, cm_Cnf := ef_Cnf eff,
                         cm_ScopeOrigins := ef_Origins eff\<rparr>, None))))"

definition check_live ::
    "'z chain_env_scheme \<Rightarrow> time \<Rightarrow> 's broker \<Rightarrow> string \<Rightarrow> 's \<Rightarrow> claims \<times> broker_err option" where
  "check_live E now B tok s =
     (if looks_like_chain tok then check_live_chain E now B tok s
      else
        (case verify_kind E B tok ''capability'' now of
           (c, Some e) \<Rightarrow> (c, Some e)
         | (c, None) \<Rightarrow> (c, check_revoked B c s)))"

subsection \<open>Delegation\<close>

record delegate_request =
  dr_ParentToken :: string
  dr_ParentSVID :: string
  dr_ChildSVID :: string
  dr_Scopes :: "scope list"
  dr_TTL :: int
  dr_MaxCalls :: int
  dr_MaxDepth :: int
  dr_GoalID :: string
  dr_Cnf :: "cnf option"

text \<open>Lines 453 to 467: the budget and the depth cap of the child.\<close>

definition child_calls :: "int \<Rightarrow> int \<Rightarrow> scope list \<Rightarrow> int" where
  "child_calls remaining req scopes =
     (let mc = (if req \<le> 0 \<or> remaining < req then remaining else req);
          t = sum_calls scopes
      in if t < mc then t else mc)"

definition child_depth :: "int \<Rightarrow> int \<Rightarrow> int" where
  "child_depth parent_md req = (if 0 < req \<and> req < parent_md then req else parent_md)"

definition child_claims ::
    "'s broker \<Rightarrow> time \<Rightarrow> string \<Rightarrow> delegate_request \<Rightarrow> claims \<Rightarrow> claims \<Rightarrow> scope list \<Rightarrow> int \<Rightarrow> claims" where
  "child_claims B now fresh r parent csvid scopes mc =
     (let ex = unix (token_ttl B now (dr_TTL r) (time_unix (cm_Expires parent)));
          goal = (if dr_GoalID r = [] then cm_GoalID parent else dr_GoalID r) in
      zero_claims\<lparr>cm_ID := fresh, cm_Issuer := issuer B, cm_Subject := cm_Subject csvid, cm_Human := cm_Human parent,
        cm_IssuedAt := unix now, cm_Expires := (if cm_Expires csvid < ex then cm_Expires csvid else ex),
        cm_Parent := cm_ID parent, cm_Chain := lineage parent, cm_Depth := cm_Depth parent + 1,
        cm_MaxDepth := child_depth (cm_MaxDepth parent) (dr_MaxDepth r), cm_MaxCalls := mc, cm_Scopes := scopes,
        cm_Kind := ''capability'', cm_ParentActor := cm_Subject parent, cm_GoalID := goal, cm_Cnf := dr_Cnf r\<rparr>)"

definition delegate_grant ::
    "'z broker_env_scheme \<Rightarrow> time \<Rightarrow> 's broker \<Rightarrow> string \<Rightarrow> delegate_request \<Rightarrow> claims \<Rightarrow> claims \<Rightarrow> 's world
       \<Rightarrow> (broker_err + issued) \<times> 's world" where
  "delegate_grant E now B fresh r parent csvid w =
     (case first_err validate_scope (dr_Scopes r) of
        Some e \<Rightarrow> (Inl (EBadScope e), w)
      | None \<Rightarrow>
          let scopes = attenuate (cm_Scopes parent) (dr_Scopes r) in
          if length scopes = 0 then (Inl EEmptyScope, w)
          else
            (case so_Usage (br_Ops B) (cm_ID parent) (wd_Store w) of
               Inl e \<Rightarrow> (Inl (EStore e), w)
             | Inr (used, _) \<Rightarrow>
                 let remaining = cm_MaxCalls parent - used;
                     mc = child_calls remaining (dr_MaxCalls r) scopes in
                 if mc \<le> 0 then (Inl (EStore (ErrExhausted ''parent has no remaining calls'')), w)
                 else
                   let c = child_claims B now fresh r parent csvid scopes mc in
                   (case persist E B c w of
                      (Inl e, w') \<Rightarrow> (Inl e, w')
                    | (Inr iss, w') \<Rightarrow>
                        (Inr iss, record_event E now B ''warrant.token.issued'' (cm_Human c) [cm_Subject parent, cm_Subject c]
                           [(''token_id'', pstr (cm_ID c)), (''parent_id'', pstr (cm_ID parent)),
                            (''subject'', pstr (cm_Subject c)), (''depth'', pint (cm_Depth c)),
                            (''max_depth'', pint (cm_MaxDepth c)), (''parent_scopes'', pscopes E (cm_Scopes parent)),
                            (''requested_scopes'', pscopes E (dr_Scopes r)), (''scopes'', pscopes E scopes),
                            (''parent_max_calls_remaining'', pint remaining), (''max_calls'', pint mc),
                            (''parent_expires'', pint (cm_Expires parent)), (''expires'', pint (cm_Expires c)),
                            (''goal_id'', pstr (cm_GoalID c)), (''parent_actor'', pstr (cm_Subject parent))] w'))))"

definition delegate ::
    "'z broker_env_scheme \<Rightarrow> time \<Rightarrow> 's broker \<Rightarrow> string \<Rightarrow> delegate_request \<Rightarrow> 's world
       \<Rightarrow> (broker_err + issued) \<times> 's world" where
  "delegate E now B fresh r w =
     (case check_live E now B (dr_ParentToken r) (wd_Store w) of
        (parent, Some e) \<Rightarrow> (Inl (EParent e), w)
      | (parent, None) \<Rightarrow>
          (case verify_kind E B (dr_ParentSVID r) ''svid'' now of
             (_, Some e) \<Rightarrow> (Inl (EParentSvid e), w)
           | (psvid, None) \<Rightarrow>
               if cm_Subject psvid \<noteq> cm_Subject parent then (Inl EBinding, w)
               else
                 (case verify_kind E B (dr_ChildSVID r) ''svid'' now of
                    (_, Some e) \<Rightarrow> (Inl (EChildSvid e), w)
                  | (csvid, None) \<Rightarrow>
                      let depth = cm_Depth parent + 1 in
                      if cm_MaxDepth parent < depth then
                        (Inl (EDepth depth (cm_MaxDepth parent)),
                         record_event E now B ''warrant.call.denied'' (cm_Human parent) [cm_Subject parent, cm_Subject csvid]
                           [(''token_id'', pstr (cm_ID parent)), (''action'', pstr ''delegate''),
                            (''reason'', pstr ''delegation depth cap reached''), (''depth'', pint depth),
                            (''max_depth'', pint (cm_MaxDepth parent))] w)
                      else
                        let d = evaluate (br_Policy B)
                              \<lparr>rq_Action = ActionDelegate, rq_Principal = cm_Subject parent, rq_Human = cm_Human parent,
                               rq_Depth = depth, rq_Call = \<lparr>cl_Tool = [], cl_Resource = cm_Subject csvid, cl_Args = []\<rparr>,
                               rq_HourUTC = hour_utc now\<rparr> in
                        if \<not> pd_Allow d then (Inl (EPolicy (pd_Reason d)), w)
                        else delegate_grant E now B fresh r parent csvid w)))"

subsection \<open>Approvals\<close>

record approve_request =
  ar_TokenID :: string
  ar_Call :: call
  ar_Approver :: string
  ar_TTL :: int

record approval =
  ap_Approval :: string
  ap_ActionHash :: string
  ap_Expires :: int

definition approve ::
    "'z env_scheme \<Rightarrow> time \<Rightarrow> 's broker \<Rightarrow> string \<Rightarrow> approve_request \<Rightarrow> 's world \<Rightarrow> broker_err + approval" where
  "approve E now B fresh r w =
     (if ar_TokenID r = [] \<or> ar_Approver r = [] \<or> cl_Tool (ar_Call r) = [] then Inl EBadRequest
      else
        (case so_GetToken (br_Ops B) (ar_TokenID r) (wd_Store w) of
           Inl e \<Rightarrow> Inl (EStore e)
         | Inr _ \<Rightarrow>
             let req = wrap64 (ar_TTL r * second);
                 d = (if 0 < ar_TTL r \<and> req < cf_ApprovalTTL (br_Cfg B) then req else cf_ApprovalTTL (br_Cfg B));
                 h = action_hash E (ar_Call r);
                 c = zero_claims\<lparr>cm_ID := fresh, cm_Issuer := issuer B, cm_Subject := ar_Approver r,
                       cm_Human := ar_Approver r, cm_IssuedAt := unix now, cm_Expires := unix (now + d),
                       cm_Kind := ''approval'', cm_ActionHash := h, cm_Token := ar_TokenID r\<rparr> in
             (case jwt_sign E (br_Signer B) c of
                None \<Rightarrow> Inl ESign
              | Some t \<Rightarrow> Inr \<lparr>ap_Approval = t, ap_ActionHash = h, ap_Expires = cm_Expires c\<rparr>)))"

subsection \<open>Authorization\<close>

record authorize_request =
  au_Token :: string
  au_SVID :: string
  au_Approval :: string
  au_Call :: call

text \<open>The reason of a decision: the error of a denial, or the reason of the policy that permits.\<close>

datatype reason = Denied broker_err | Permitted string

record decision =
  dc_Allow :: bool
  dc_Reason :: reason
  dc_TokenID :: string
  dc_ScopeIndex :: int
  dc_ActionHash :: string
  dc_Claims :: claims

definition reason_text :: "'z broker_env_scheme \<Rightarrow> reason \<Rightarrow> string" where
  "reason_text E r = (case r of Denied e \<Rightarrow> be_error_text E e | Permitted s \<Rightarrow> s)"

text \<open>Lines 588 to 606: the approval of a scope that requires one.\<close>

definition check_approval ::
    "'z env_scheme \<Rightarrow> time \<Rightarrow> 's broker \<Rightarrow> authorize_request \<Rightarrow> claims \<Rightarrow> string \<Rightarrow> 's \<Rightarrow> broker_err option \<times> 's" where
  "check_approval E now B r c hash s =
     (if au_Approval r = [] then (Some EApproval, s)
      else
        (case verify_kind E B (au_Approval r) ''approval'' now of
           (_, Some e) \<Rightarrow> (Some (EApprovalToken e), s)
         | (a, None) \<Rightarrow>
             if cm_Token a \<noteq> cm_ID c \<or> cm_ActionHash a \<noteq> hash then (Some EApprovalBound, s)
             else
               (case so_UseApproval (br_Ops B) (cm_ID a) (time_unix (cm_Expires a)) s of
                  (Inl e, s') \<Rightarrow> (Some (EStore e), s')
                | (Inr used, s') \<Rightarrow> if \<not> used then (Some EApprovalUsed, s') else (None, s'))))"

definition consume_index :: "claims \<Rightarrow> int \<Rightarrow> int" where
  "consume_index c idx =
     (if length (cm_ScopeOrigins c) = length (cm_Scopes c) then cm_ScopeOrigins c ! nat idx else idx)"

definition authorize_core ::
    "'z broker_env_scheme \<Rightarrow> time \<Rightarrow> 's broker \<Rightarrow> authorize_request \<Rightarrow> 's \<Rightarrow> decision \<times> 's" where
  "authorize_core E now B r s =
     (let hash = action_hash E (au_Call r) in
      case check_live E now B (au_Token r) s of
        (c, live) \<Rightarrow>
          let d = \<lparr>dc_Allow = False, dc_Reason = Permitted [], dc_TokenID = cm_ID c, dc_ScopeIndex = -1,
                   dc_ActionHash = hash, dc_Claims = c\<rparr> in
          (case live of
             Some e \<Rightarrow> (d\<lparr>dc_Reason := Denied e\<rparr>, s)
           | None \<Rightarrow>
               (case verify_kind E B (au_SVID r) ''svid'' now of
                  (_, Some e) \<Rightarrow> (d\<lparr>dc_Reason := Denied (ESvid e)\<rparr>, s)
                | (svid, None) \<Rightarrow>
                    if cm_Subject svid \<noteq> cm_Subject c then (d\<lparr>dc_Reason := Denied EBinding\<rparr>, s)
                    else
                      let idx = first_match (cm_Scopes c) (au_Call r) in
                      if idx < 0 then (d\<lparr>dc_Reason := Denied ENoScope\<rparr>, s)
                      else
                        let d1 = d\<lparr>dc_ScopeIndex := idx\<rparr>;
                            pd = evaluate (br_Policy B)
                              \<lparr>rq_Action = ActionCall, rq_Principal = cm_Subject c, rq_Human = cm_Human c,
                               rq_Depth = cm_Depth c, rq_Call = au_Call r, rq_HourUTC = hour_utc now\<rparr> in
                        if \<not> pd_Allow pd then (d1\<lparr>dc_Reason := Denied (EPolicy (pd_Reason pd))\<rparr>, s)
                        else
                          (case (if sc_RequireApproval (cm_Scopes c ! nat idx)
                                 then check_approval E now B r c hash s else (None, s)) of
                             (Some e, s1) \<Rightarrow> (d1\<lparr>dc_Reason := Denied e\<rparr>, s1)
                           | (None, s1) \<Rightarrow>
                               (case so_Consume (br_Ops B) (cm_ID c) (consume_index c idx) (lineage c) s1 of
                                  (Some e, s2) \<Rightarrow> (d1\<lparr>dc_Reason := Denied (EStore e)\<rparr>, s2)
                                | (None, s2) \<Rightarrow>
                                    (d1\<lparr>dc_Allow := True, dc_Reason := Permitted (pd_Reason pd)\<rparr>, s2))))))"

definition authorize ::
    "'z broker_env_scheme \<Rightarrow> time \<Rightarrow> 's broker \<Rightarrow> authorize_request \<Rightarrow> 's world \<Rightarrow> decision \<times> 's world" where
  "authorize E now B r w =
     (let (d, s) = authorize_core E now B r (wd_Store w) in
      (d, record_event E now B (if dc_Allow d then ''warrant.call.allowed'' else ''warrant.call.denied'')
            (cm_Human (dc_Claims d)) [cm_Subject (dc_Claims d)]
            [(''token_id'', pstr (cm_ID (dc_Claims d))), (''depth'', pint (cm_Depth (dc_Claims d))),
             (''tool'', pstr (cl_Tool (au_Call r))), (''resource'', pstr (cl_Resource (au_Call r))),
             (''action_hash'', pstr (dc_ActionHash d)), (''reason'', pstr (reason_text E (dc_Reason d))),
             (''scope_index'', pint (dc_ScopeIndex d))] (w\<lparr>wd_Store := s\<rparr>)))"

definition peek ::
    "'z chain_env_scheme \<Rightarrow> time \<Rightarrow> 's broker \<Rightarrow> string \<Rightarrow> string \<Rightarrow> 's \<Rightarrow> claims \<times> broker_err option" where
  "peek E now B tok svid_tok s =
     (case check_live E now B tok s of
        (c, Some e) \<Rightarrow> (c, Some e)
      | (c, None) \<Rightarrow>
          (case verify_kind E B svid_tok ''svid'' now of
             (_, Some e) \<Rightarrow> (c, Some (ESvid e))
           | (svid, None) \<Rightarrow> if cm_Subject svid \<noteq> cm_Subject c then (c, Some EBinding) else (c, None)))"

subsection \<open>Revocation\<close>

definition revoke_token ::
    "'z env_scheme \<Rightarrow> time \<Rightarrow> 's broker \<Rightarrow> string \<Rightarrow> string \<Rightarrow> string \<Rightarrow> 's world \<Rightarrow> broker_err option \<times> 's world" where
  "revoke_token E now B i why actor w =
     (case so_GetToken (br_Ops B) i (wd_Store w) of
        Inl e \<Rightarrow> (Some (EStore e), w)
      | Inr t \<Rightarrow>
          (case so_Revoke (br_Ops B) i why (wd_Store w) of
             (Some e, s) \<Rightarrow> (Some (EStore e), w\<lparr>wd_Store := s\<rparr>)
           | (None, s) \<Rightarrow>
               (None, record_event E now B ''warrant.token.revoked'' (tr_Human t) [tr_Subject t]
                  [(''token_id'', pstr i), (''reason'', pstr why), (''revoked_by'', pstr actor)] (w\<lparr>wd_Store := s\<rparr>))))"

end
