(* ===== verification/Store_Memory.thy ===== *)
theory Store_Memory
  imports Token_Store
begin

section \<open>The in-memory store (\<^verbatim>\<open>internal/store/store.go\<close>, lines 63 to 194)\<close>

text \<open>
  The struct \<^verbatim>\<open>Memory\<close> as a record of maps, one definition per method, each a critical section of
  the mutex and so one step. Reading a missing entry of a map of integers gives 0, of a map of
  booleans false. The store meets the contract \<open>token_store\<close>.
\<close>

record memory =
  me_workloads :: "workload gomap"
  me_tokens :: "token_record gomap"
  me_revoked :: "string gomap"
  me_total :: "int gomap"
  me_perScope :: "(int \<times> int) list gomap"
  me_approvals :: "bool gomap"

definition new_memory :: memory where
  "new_memory = \<lparr>me_workloads = [], me_tokens = [], me_revoked = [], me_total = [], me_perScope = [], me_approvals = []\<rparr>"

text \<open>Reading \<^verbatim>\<open>total[a]\<close>, \<^verbatim>\<open>perScope[id]\<close> (nil when missing) and \<^verbatim>\<open>perScope[id][i]\<close>.\<close>

definition int_at :: "('k \<times> int) list \<Rightarrow> 'k \<Rightarrow> int" where
  "int_at m k = (case map_of m k of None \<Rightarrow> 0 | Some n \<Rightarrow> n)"

definition per_scope :: "memory \<Rightarrow> string \<Rightarrow> (int \<times> int) list" where
  "per_scope m i = (case lookup (me_perScope m) i of None \<Rightarrow> [] | Some ps \<Rightarrow> ps)"

definition mem_put_workload :: "workload \<Rightarrow> memory \<Rightarrow> store_err option \<times> memory" where
  "mem_put_workload w m = (None, m\<lparr>me_workloads := AList.update (wl_Name w) w (me_workloads m)\<rparr>)"

definition mem_get_workload :: "string \<Rightarrow> memory \<Rightarrow> store_err + workload" where
  "mem_get_workload n m = (case lookup (me_workloads m) n of None \<Rightarrow> Inl ErrNotFound | Some w \<Rightarrow> Inr w)"

definition mem_put_token :: "token_record \<Rightarrow> memory \<Rightarrow> store_err option \<times> memory" where
  "mem_put_token t m = (None, m\<lparr>me_tokens := AList.update (tr_ID t) t (me_tokens m)\<rparr>)"

definition mem_get_token :: "string \<Rightarrow> memory \<Rightarrow> store_err + token_record" where
  "mem_get_token i m = (case lookup (me_tokens m) i of None \<Rightarrow> Inl ErrNotFound | Some t \<Rightarrow> Inr t)"

definition mem_children :: "string \<Rightarrow> memory \<Rightarrow> store_err + token_record list" where
  "mem_children i m = Inr (filter (\<lambda>t. tr_Parent t = i) (map snd (me_tokens m)))"

definition mem_revoke :: "string \<Rightarrow> string \<Rightarrow> memory \<Rightarrow> store_err option \<times> memory" where
  "mem_revoke i reason m = (None, m\<lparr>me_revoked := AList.update i reason (me_revoked m)\<rparr>)"

fun first_in :: "'v gomap \<Rightarrow> string list \<Rightarrow> string" where
  "first_in r [] = []"
| "first_in r (i # is) = (if lookup r i \<noteq> None then i else first_in r is)"

definition mem_first_revoked :: "string list \<Rightarrow> memory \<Rightarrow> store_err + string" where
  "mem_first_revoked is m = Inr (first_in (me_revoked m) is)"

text \<open>The two loops of \<^verbatim>\<open>Consume\<close>: check the whole-token budget of every id, then charge every id.\<close>

definition check_total :: "memory \<Rightarrow> string \<Rightarrow> store_err option" where
  "check_total m a =
     (case lookup (me_tokens m) a of
        None \<Rightarrow> Some ErrNotFound
      | Some t \<Rightarrow> if tr_MaxCalls t \<le> int_at (me_total m) a
                  then Some (ErrExhausted (''token max_calls of '' @ a)) else None)"

definition charge :: "string \<Rightarrow> int gomap \<Rightarrow> int gomap" where
  "charge a tot = AList.update a (int_at tot a + 1) tot"

definition mem_consume :: "string \<Rightarrow> int \<Rightarrow> string list \<Rightarrow> memory \<Rightarrow> store_err option \<times> memory" where
  "mem_consume i k lineage m =
     (case lookup (me_tokens m) i of
        None \<Rightarrow> (Some ErrNotFound, m)
      | Some t \<Rightarrow>
          if k < 0 \<or> int (length (tr_ScopeLimits t)) \<le> k
          then (Some (ErrExhausted ''scope index out of range''), m)
          else if tr_ScopeLimits t ! nat k \<le> int_at (per_scope m i) k
          then (Some (ErrExhausted ''scope max_calls''), m)
          else
            (case first_err (check_total m) lineage of
               Some e \<Rightarrow> (Some e, m)
             | None \<Rightarrow>
                 (None, m\<lparr>me_total := fold charge lineage (me_total m),
                          me_perScope := AList.update i
                            (AList.update k (int_at (per_scope m i) k + 1) (per_scope m i)) (me_perScope m)\<rparr>)))"

definition mem_usage :: "string \<Rightarrow> memory \<Rightarrow> store_err + int \<times> (int \<times> int) list" where
  "mem_usage i m = Inr (int_at (me_total m) i, per_scope m i)"

definition mem_use_approval :: "string \<Rightarrow> time \<Rightarrow> memory \<Rightarrow> (store_err + bool) \<times> memory" where
  "mem_use_approval i expires m =
     (if lookup (me_approvals m) i = Some True then (Inr False, m)
      else (Inr True, m\<lparr>me_approvals := AList.update i True (me_approvals m)\<rparr>))"

definition memory_ops :: "memory store_ops" where
  "memory_ops = \<lparr>so_PutWorkload = mem_put_workload, so_GetWorkload = mem_get_workload,
     so_PutToken = mem_put_token, so_GetToken = mem_get_token, so_Children = mem_children,
     so_Revoke = mem_revoke, so_FirstRevoked = mem_first_revoked, so_Consume = mem_consume,
     so_Usage = mem_usage, so_UseApproval = mem_use_approval\<rparr>"

subsection \<open>The contract\<close>

text \<open>The token map files each record under its own id, once.\<close>

definition memory_inv :: "memory \<Rightarrow> bool" where
  "memory_inv m \<longleftrightarrow> wf_map (me_tokens m) \<and> (\<forall>i t. lookup (me_tokens m) i = Some t \<longrightarrow> tr_ID t = i)"

definition memory_view :: "memory store_view" where
  "memory_view = \<lparr>sv_inv = memory_inv, sv_token = (\<lambda>m. lookup (me_tokens m)),
     sv_calls = (\<lambda>m. int_at (me_total m)), sv_scope_calls = (\<lambda>m i. int_at (per_scope m i)),
     sv_revoked = (\<lambda>m i. lookup (me_revoked m) i \<noteq> None),
     sv_used = (\<lambda>m i. lookup (me_approvals m) i = Some True)\<rparr>"

lemma int_at_update: "int_at (AList.update k v m) = (int_at m)(k := v)"
  by (auto simp: int_at_def update_conv' fun_eq_iff)

lemma per_scope_update:
  "per_scope (m\<lparr>me_perScope := AList.update i ps (me_perScope m)\<rparr>) = (per_scope m)(i := ps)"
  by (auto simp: per_scope_def update_conv' fun_eq_iff)

lemma int_at_charge: "int_at (fold charge lin tot) = (\<lambda>a. int_at tot a + int (count_list lin a))"
  by (induction lin arbitrary: tot) (auto simp: charge_def int_at_update fun_eq_iff)

lemma first_in_find: "first_in r is = (case find (\<lambda>i. lookup r i \<noteq> None) is of None \<Rightarrow> [] | Some i \<Rightarrow> i)"
  by (induction "is") auto

lemma check_total_None: "check_total m a = None \<longleftrightarrow>
    (\<exists>t. lookup (me_tokens m) a = Some t \<and> int_at (me_total m) a < tr_MaxCalls t)"
  by (auto simp: check_total_def split: option.splits if_splits)

lemma memory_inv_children:
  assumes "memory_inv m"
  shows "set (filter (\<lambda>t. tr_Parent t = i) (map snd (me_tokens m)))
    = {t. tr_Parent t = i \<and> lookup (me_tokens m) (tr_ID t) = Some t}"
proof -
  have "t \<in> snd ` set (me_tokens m) \<longleftrightarrow> lookup (me_tokens m) (tr_ID t) = Some t" for t
  proof
    assume "t \<in> snd ` set (me_tokens m)"
    then obtain j where j: "(j, t) \<in> set (me_tokens m)" by force
    with assms have "lookup (me_tokens m) j = Some t" by (simp add: memory_inv_def wf_map_def)
    with assms show "lookup (me_tokens m) (tr_ID t) = Some t"
      unfolding memory_inv_def by metis
  next
    assume "lookup (me_tokens m) (tr_ID t) = Some t"
    then show "t \<in> snd ` set (me_tokens m)" by (auto dest!: map_of_SomeD intro: rev_image_eqI)
  qed
  then show ?thesis by auto
qed

lemma memory_inv_put: "memory_inv m \<Longrightarrow> memory_inv (m\<lparr>me_tokens := AList.update (tr_ID t) t (me_tokens m)\<rparr>)"
  by (auto simp: memory_inv_def wf_map_update update_conv')

lemma mem_consume_None:
  "mem_consume i k lin m = (None, m') \<longleftrightarrow>
     (\<exists>t. lookup (me_tokens m) i = Some t \<and> 0 \<le> k \<and> k < int (length (tr_ScopeLimits t))
        \<and> int_at (per_scope m i) k < tr_ScopeLimits t ! nat k)
     \<and> (\<forall>a \<in> set lin. \<exists>t. lookup (me_tokens m) a = Some t \<and> int_at (me_total m) a < tr_MaxCalls t)
     \<and> m' = m\<lparr>me_total := fold charge lin (me_total m),
               me_perScope := AList.update i
                 (AList.update k (int_at (per_scope m i) k + 1) (per_scope m i)) (me_perScope m)\<rparr>"
proof -
  have "(\<forall>a \<in> set lin. \<exists>t. lookup (me_tokens m) a = Some t \<and> int_at (me_total m) a < tr_MaxCalls t)
      \<longleftrightarrow> first_err (check_total m) lin = None"
    by (simp add: check_total_None)
  then show ?thesis
    by (auto simp: mem_consume_def simp del: first_err_None split: option.splits)
qed

lemma mem_consume_succeeds:
  assumes "lookup (me_tokens m) i = Some t" and "0 \<le> k" and "k < int (length (tr_ScopeLimits t))"
    and "int_at (per_scope m i) k < tr_ScopeLimits t ! nat k"
    and "\<forall>a \<in> set lin. \<exists>t. lookup (me_tokens m) a = Some t \<and> int_at (me_total m) a < tr_MaxCalls t"
  shows "fst (mem_consume i k lin m) = None"
proof -
  have "\<exists>m'. mem_consume i k lin m = (None, m')"
    using assms unfolding mem_consume_None by blast
  then show ?thesis by auto
qed

lemma mem_consume_Some: "mem_consume i k lin m = (Some e, m') \<Longrightarrow> m' = m"
  by (auto simp: mem_consume_def split: option.splits if_splits)

lemmas memory_defs = memory_ops_def memory_view_def unchanged_def same_budgets_def same_marks_def

lemma mem_put_workload_law:
  "memory_inv m \<Longrightarrow> mem_put_workload w m = (res, m') \<Longrightarrow> memory_inv m' \<and> unchanged memory_view m m'"
  by (auto simp: mem_put_workload_def memory_defs memory_inv_def per_scope_def)

lemma mem_put_token_law:
  "memory_inv m \<Longrightarrow> mem_put_token t m = (None, m') \<Longrightarrow>
     memory_inv m' \<and> lookup (me_tokens m') = (lookup (me_tokens m))(tr_ID t \<mapsto> t)
     \<and> same_budgets memory_view m m' \<and> same_marks memory_view m m'"
  using memory_inv_put [of m t]
  by (auto simp: mem_put_token_def memory_defs per_scope_def update_conv')

lemma mem_revoke_law:
  "memory_inv m \<Longrightarrow> mem_revoke i r m = (None, m') \<Longrightarrow>
     memory_inv m' \<and> sv_revoked memory_view m' = (sv_revoked memory_view m)(i := True)
     \<and> sv_used memory_view m' = sv_used memory_view m \<and> me_tokens m' = me_tokens m
     \<and> same_budgets memory_view m m'"
  by (auto simp: mem_revoke_def memory_defs memory_inv_def per_scope_def update_conv' fun_eq_iff)

lemma mem_use_approval_law:
  "memory_inv m \<Longrightarrow> mem_use_approval i x m = (Inr b, m') \<Longrightarrow>
     memory_inv m' \<and> b = (\<not> sv_used memory_view m i)
     \<and> sv_used memory_view m' = (sv_used memory_view m)(i := True)
     \<and> sv_revoked memory_view m' = sv_revoked memory_view m \<and> me_tokens m' = me_tokens m
     \<and> same_budgets memory_view m m'"
  by (auto simp: mem_use_approval_def memory_defs memory_inv_def per_scope_def update_conv' fun_eq_iff
      split: if_splits)

lemma mem_consume_law:
  assumes "memory_inv m" and "mem_consume i k lin m = (None, m')"
  shows "memory_inv m' \<and> me_tokens m' = me_tokens m \<and> same_marks memory_view m m'
     \<and> int_at (me_total m') = (\<lambda>a. int_at (me_total m) a + int (count_list lin a))
     \<and> (\<lambda>i. int_at (per_scope m' i)) = (\<lambda>i. int_at (per_scope m i))
          (i := (int_at (per_scope m i))(k := int_at (per_scope m i) k + 1))"
proof -
  have m': "m' = m\<lparr>me_total := fold charge lin (me_total m),
               me_perScope := AList.update i
                 (AList.update k (int_at (per_scope m i) k + 1) (per_scope m i)) (me_perScope m)\<rparr>"
    using assms(2) by (simp add: mem_consume_None)
  have "per_scope m' = (per_scope m)(i := AList.update k (int_at (per_scope m i) k + 1) (per_scope m i))"
    by (auto simp: m' per_scope_def update_conv' fun_eq_iff)
  then show ?thesis
    using assms(1) by (auto simp: m' memory_defs memory_inv_def int_at_charge int_at_update fun_eq_iff)
qed

interpretation mem: token_store memory_ops memory_view
proof
  fix s s' :: memory and w res
  assume "sv_inv memory_view s" "so_PutWorkload memory_ops w s = (res, s')"
  then show "sv_inv memory_view s' \<and> unchanged memory_view s s'"
    using mem_put_workload_law [of s w res s'] by (simp add: memory_ops_def memory_view_def)
next
  fix s s' :: memory and t
  assume "sv_inv memory_view s" "so_PutToken memory_ops t s = (None, s')"
  then show "sv_inv memory_view s' \<and> (\<exists>t'. same_record t t' \<and> sv_token memory_view s' = (sv_token memory_view s)(tr_ID t \<mapsto> t'))
      \<and> same_budgets memory_view s s' \<and> same_marks memory_view s s'"
    using mem_put_token_law [of s t s'] by (auto simp: memory_ops_def memory_view_def intro!: exI [of _ t])
next
  fix s s' :: memory and t i k lin
  assume "sv_inv memory_view s" "i \<in> set lin" "so_Consume memory_ops i k lin s = (None, s')"
  then show "sv_inv memory_view s' \<and>
      (\<exists>t. sv_token memory_view s i = Some t \<and> 0 \<le> k \<and> k < int (length (tr_ScopeLimits t))
         \<and> sv_scope_calls memory_view s i k < tr_ScopeLimits t ! nat k) \<and>
      (\<forall>a \<in> set lin. \<exists>t. sv_token memory_view s a = Some t \<and> sv_calls memory_view s a < tr_MaxCalls t) \<and>
      sv_token memory_view s' = sv_token memory_view s \<and> same_marks memory_view s s' \<and>
      sv_calls memory_view s' = (\<lambda>a. sv_calls memory_view s a + int (count_list lin a)) \<and>
      sv_scope_calls memory_view s' = (sv_scope_calls memory_view s)
        (i := (sv_scope_calls memory_view s i)(k := sv_scope_calls memory_view s i k + 1))"
    using mem_consume_law [of s i k lin s'] mem_consume_None [of i k lin s s']
    by (simp add: memory_ops_def memory_view_def)
next
  fix s s' :: memory and i r
  assume "sv_inv memory_view s" "so_Revoke memory_ops i r s = (None, s')"
  then show "sv_inv memory_view s' \<and> sv_revoked memory_view s' = (sv_revoked memory_view s)(i := True)
      \<and> sv_used memory_view s' = sv_used memory_view s \<and> sv_token memory_view s' = sv_token memory_view s
      \<and> same_budgets memory_view s s'"
    using mem_revoke_law [of s i r s'] by (simp add: memory_ops_def memory_view_def)
next
  fix s s' :: memory and i x b
  assume "sv_inv memory_view s" "so_UseApproval memory_ops i x s = (Inr b, s')"
  then show "sv_inv memory_view s' \<and> b = (\<not> sv_used memory_view s i)
      \<and> sv_used memory_view s' = (sv_used memory_view s)(i := True)
      \<and> sv_revoked memory_view s' = sv_revoked memory_view s \<and> sv_token memory_view s' = sv_token memory_view s
      \<and> same_budgets memory_view s s'"
    using mem_use_approval_law [of s i x b s'] by (simp add: memory_ops_def memory_view_def)
next
  fix s :: memory and i ts
  assume "sv_inv memory_view s" "so_Children memory_ops i s = Inr ts"
  then show "set ts = {t. tr_Parent t = i \<and> sv_token memory_view s (tr_ID t) = Some t}"
    using memory_inv_children [of s i] by (auto simp: memory_ops_def memory_view_def mem_children_def)
qed (auto simp: memory_ops_def memory_view_def mem_get_token_def mem_first_revoked_def first_in_find
    mem_usage_def int_at_def mem_put_token_def mem_revoke_def mem_use_approval_def
    dest: mem_consume_Some split: if_splits)

interpretation rmem: reliable_store memory_ops memory_view
proof
  fix s :: memory and t i k lin
  assume "i \<in> set lin" "sv_token memory_view s i = Some t" "0 \<le> k" "k < int (length (tr_ScopeLimits t))"
    "sv_scope_calls memory_view s i k < tr_ScopeLimits t ! nat k"
    "\<forall>a \<in> set lin. \<exists>t. sv_token memory_view s a = Some t \<and> sv_calls memory_view s a < tr_MaxCalls t"
  then show "fst (so_Consume memory_ops i k lin s) = None"
    by (simp add: memory_ops_def memory_view_def mem_consume_succeeds)
qed (auto simp: memory_ops_def mem_use_approval_def)

interpretation emem: exact_store memory_ops memory_view fits for fits
proof
  fix s :: memory and i k lin
  assume "i \<in> set lin" "distinct lin" "may_charge memory_view i k lin s"
  then show "fst (so_Consume memory_ops i k lin s) = None"
    using mem_consume_succeeds [of s i _ k lin] by (auto simp: may_charge_def memory_ops_def memory_view_def)
qed (auto simp: memory_ops_def mem_put_workload_def mem_put_token_def mem_revoke_def mem_use_approval_def)

subsection \<open>Properties\<close>

lemma new_memory_view:
  "sv_inv memory_view new_memory" "sv_token memory_view new_memory = (\<lambda>_. None)"
  "sv_calls memory_view new_memory = (\<lambda>_. 0)" "sv_scope_calls memory_view new_memory = (\<lambda>_ _. 0)"
  "sv_revoked memory_view new_memory = (\<lambda>_. False)" "sv_used memory_view new_memory = (\<lambda>_. False)"
  by (simp_all add: new_memory_def memory_view_def memory_inv_def wf_map_def int_at_def per_scope_def fun_eq_iff)

lemma new_memory_accounted: "mem.accounted [] new_memory" and new_memory_marked: "mem.marked [] new_memory"
  by (simp_all add: mem.accounted_def mem.counted_def mem.bounded_def mem.in_budget_def charged_def mem.marked_def new_memory_view)

text \<open>
  Budgets hold over every history: whatever sequence of store operations runs from an empty
  store, interleaved in any order, the calls charged to a token, those of all its descendants
  included, are at most its \<^verbatim>\<open>max_calls\<close>, and the calls charged to one of its scopes at most
  that scope's limit.
\<close>

theorem store_budget:
  assumes "legal es" and "store_run memory_ops es ([], new_memory) = (hist, m)"
    and "mem_get_token a m = Inr t"
  shows "int (length (filter (charges a) hist)) \<le> max 0 (tr_MaxCalls t)
     \<and> (\<forall>k < length (tr_ScopeLimits t).
          int (length (filter (charges_scope a (int k)) hist)) \<le> max 0 (tr_ScopeLimits t ! k))"
proof -
  have acc: "mem.accounted hist m"
    using mem.store_run_accounted [OF new_memory_accounted assms(1) _ assms(2)]
    by (simp add: memory_view_def new_memory_def)
  have t: "sv_token memory_view m a = Some t"
    using assms(3) by (simp add: mem_get_token_def memory_view_def split: option.splits)
  then have b: "charged hist a \<le> max 0 (tr_MaxCalls t)" "mem.scope_within m a t"
    using acc by (auto simp: mem.accounted_def mem.bounded_def mem.in_budget_def dest!: spec [of _ a])
  have "sv_scope_calls memory_view m a (int k) \<le> max 0 (tr_ScopeLimits t ! k)" for k
    using b(2) by (auto simp: mem.scope_within_def dest!: spec [of _ "int k"])
  then show ?thesis
    using acc b(1) by (simp add: mem.accounted_def mem.counted_def charged_def)
qed

definition ex_record :: "string \<Rightarrow> string \<Rightarrow> int \<Rightarrow> token_record" where
  "ex_record i p n = \<lparr>tr_ID = i, tr_Parent = p, tr_ParentActor = [], tr_GoalID = [], tr_Subject = ''w'',
     tr_Human = ''ann'', tr_Depth = 0, tr_MaxCalls = n, tr_ScopeLimits = [1, n], tr_Expires = 100,
     tr_Claims = []\<rparr>"

definition ex_events :: "store_event list" where
  "ex_events = [EvPutToken (ex_record ''root'' [] 2), EvPutToken (ex_record ''kid'' ''root'' 2),
     EvConsume ''kid'' 1 [''root'', ''kid''], EvUseApproval ''a1'' 100, EvConsume ''kid'' 1 [''root'', ''kid''],
     EvRevoke ''kid'' ''done'', EvConsume ''root'' 0 [''root''], EvUseApproval ''a1'' 100]"

definition ex_run :: "store_event list \<times> memory" where
  "ex_run = store_run memory_ops ex_events ([], new_memory)"

lemma ex_run: "legal ex_events" "store_run memory_ops ex_events ([], new_memory) = (fst ex_run, snd ex_run)"
  by (code_simp, simp add: ex_run_def)

theorem store_budget_witness:
  "length (filter (charges ''root'') (fst ex_run)) = 2
     \<and> int (length (filter (charges ''root'') (fst ex_run))) \<le> max 0 2"
proof -
  have "mem_get_token ''root'' (snd ex_run) = Inr (ex_record ''root'' [] 2)"
    and "length (filter (charges ''root'') (fst ex_run)) = 2" by code_simp+
  with store_budget [OF ex_run, of "''root''"] show ?thesis by (simp add: ex_record_def)
qed

text \<open>
  Marks are permanent over every history: an approval is accepted at most once, and the
  revocation check finds a lineage clear exactly when no id of it was ever revoked.
\<close>

theorem store_marks:
  assumes "legal es" and "store_run memory_ops es ([], new_memory) = (hist, m)" and "[] \<notin> set is"
  shows "length (filter (uses_approval a) hist) \<le> 1
     \<and> (mem_first_revoked is m = Inr [] \<longleftrightarrow> \<not> (\<exists>i \<in> set is. list_ex (revokes i) hist))"
proof -
  have m: "mem.marked hist m"
    using mem.store_run_marked [OF new_memory_marked _ assms(2)] assms(1) by (simp add: legal_def)
  then show ?thesis
    using mem.first_revoked_none [of m "is"] assms(3)
    by (simp add: mem.marked_def memory_ops_def)
qed

theorem store_marks_witness:
  "length (filter (uses_approval ''a1'') (fst ex_run)) \<le> 1
     \<and> mem_first_revoked [''root'', ''kid''] (snd ex_run) \<noteq> Inr []"
proof -
  have "list_ex (revokes ''kid'') (fst ex_run)" by code_simp
  with store_marks [OF ex_run, of "[''root'', ''kid'']" "''a1''"] show ?thesis by auto
qed

text \<open>
  \<^verbatim>\<open>Consume\<close> is all or nothing: it succeeds exactly when the token is known, the scope index is
  in range, the scope has budget left and every id of the lineage has budget left; then it adds
  one to the counter of the scope and one to the counter of every id. Otherwise nothing changes.
\<close>

theorem consume_atomic:
  assumes "distinct lin"
  shows "(case mem_consume i k lin m of
       (None, m') \<Rightarrow>
         (\<forall>a. mem_usage a m' = Inr (int_at (me_total m) a + (if a \<in> set lin then 1 else 0), per_scope m' a))
         \<and> (\<forall>a j. int_at (per_scope m' a) j = int_at (per_scope m a) j + (if a = i \<and> j = k then 1 else 0))
     | (Some e, m') \<Rightarrow> m' = m)
     \<and> (fst (mem_consume i k lin m) = None \<longleftrightarrow>
          (\<exists>t. mem_get_token i m = Inr t \<and> 0 \<le> k \<and> k < int (length (tr_ScopeLimits t))
             \<and> int_at (per_scope m i) k < tr_ScopeLimits t ! nat k)
          \<and> (\<forall>a \<in> set lin. \<exists>t. mem_get_token a m = Inr t \<and> int_at (me_total m) a < tr_MaxCalls t))"
proof -
  have get: "mem_get_token a m = Inr t \<longleftrightarrow> lookup (me_tokens m) a = Some t" for a t
    by (auto simp: mem_get_token_def split: option.splits)
  obtain r m' where c: "mem_consume i k lin m = (r, m')" by fastforce
  show ?thesis
  proof (cases r)
    case None
    have ps: "per_scope m' = (per_scope m)(i := AList.update k (int_at (per_scope m i) k + 1) (per_scope m i))"
      using c None by (auto simp: mem_consume_None per_scope_def update_conv' fun_eq_iff)
    have tot: "int_at (me_total m') a = int_at (me_total m) a + (if a \<in> set lin then 1 else 0)" for a
      using c None assms by (simp add: mem_consume_None int_at_charge count_list_distinct)
    have "int_at (per_scope m' a) j = int_at (per_scope m a) j + (if a = i \<and> j = k then 1 else 0)" for a j
      by (simp add: ps int_at_update)
    moreover have "mem_usage a m' = Inr (int_at (me_total m) a + (if a \<in> set lin then 1 else 0), per_scope m' a)" for a
      by (simp add: mem_usage_def tot)
    moreover have "(\<exists>t. mem_get_token i m = Inr t \<and> 0 \<le> k \<and> k < int (length (tr_ScopeLimits t))
             \<and> int_at (per_scope m i) k < tr_ScopeLimits t ! nat k)
          \<and> (\<forall>a \<in> set lin. \<exists>t. mem_get_token a m = Inr t \<and> int_at (me_total m) a < tr_MaxCalls t)"
      using c unfolding get None mem_consume_None by blast
    ultimately show ?thesis using c None by simp
  next
    case (Some e)
    moreover from this have "m' = m" using c mem_consume_Some by simp
    moreover have "fst (mem_consume i k lin m) \<noteq> None" using c Some by simp
    ultimately show ?thesis using c mem_consume_succeeds [of m i _ k lin] unfolding get by fastforce
  qed
qed

theorem consume_atomic_witness:
  "(case mem_consume ''kid'' 0 [''root'', ''kid''] (snd ex_run) of (None, m') \<Rightarrow> False | (Some e, m') \<Rightarrow> m' = snd ex_run)"
proof -
  have "fst (mem_consume ''kid'' 0 [''root'', ''kid''] (snd ex_run)) = Some (ErrExhausted ''token max_calls of root'')"
    by code_simp
  with consume_atomic [where lin = "[''root'', ''kid'']" and i = "''kid''" and k = 0 and m = "snd ex_run"] show ?thesis
    by (auto split: prod.splits option.splits)
qed

end
