(* ===== verification/Broker_Laws.thy ===== *)
theory Broker_Laws
  imports Broker Store_Memory
begin

section \<open>What the broker guarantees\<close>

text \<open>
  Facts about the operations of \<open>Broker\<close> over any store that meets the contract \<open>token_store\<close>.
  \<open>live_claims\<close> is the part of \<^verbatim>\<open>checkLive\<close> that needs no store: the claims a presented credential,
  plain token or chain, stands for.
\<close>

subsection \<open>Presented credentials\<close>

definition live_claims :: "'z chain_env_scheme \<Rightarrow> time \<Rightarrow> 's broker \<Rightarrow> string \<Rightarrow> claims option" where
  "live_claims E now B tok =
     (if looks_like_chain tok then
        (case ce_unmarshal_chain E tok of
           None \<Rightarrow> None
         | Some ch \<Rightarrow>
             (case chain_verify E (sg_Pub (br_Signer B)) ch now of
                Inl e \<Rightarrow> None
              | Inr eff \<Rightarrow>
                  if cm_Kind (ef_Base eff) \<noteq> ''capability'' then None
                  else Some ((ef_Base eff)\<lparr>cm_Scopes := ef_Scopes eff, cm_Expires := ef_Expires eff,
                         cm_Cnf := ef_Cnf eff, cm_ScopeOrigins := ef_Origins eff\<rparr>)))
      else
        (case verify_kind E B tok ''capability'' now of (c, Some e) \<Rightarrow> None | (c, None) \<Rightarrow> Some c))"

text \<open>The presented claims are those of a broker-signed token but for what a chain narrows.\<close>

definition same_bearer :: "claims \<Rightarrow> claims \<Rightarrow> bool" where
  "same_bearer b c \<longleftrightarrow>
     c\<lparr>cm_Scopes := cm_Scopes b, cm_Expires := cm_Expires b, cm_Cnf := cm_Cnf b,
       cm_ScopeOrigins := cm_ScopeOrigins b\<rparr> = b"

lemma lineage_frame [simp]:
  "lineage (c\<lparr>cm_Scopes := a, cm_Expires := b, cm_Cnf := d, cm_ScopeOrigins := e\<rparr>) = lineage c"
  by (simp add: lineage_def)

lemma same_bearerD:
  "same_bearer b c \<Longrightarrow> cm_ID c = cm_ID b \<and> cm_Subject c = cm_Subject b \<and> cm_Human c = cm_Human b
     \<and> cm_Depth c = cm_Depth b \<and> cm_MaxDepth c = cm_MaxDepth b \<and> cm_MaxCalls c = cm_MaxCalls b
     \<and> cm_Kind c = cm_Kind b \<and> lineage c = lineage b"
  unfolding same_bearer_def lineage_def by (cases b; cases c) simp

lemma verify_kind_None:
  "verify_kind E B tok kind now = (c, None) \<longleftrightarrow>
     well_signed E (sg_Pub (br_Signer B)) tok c \<and> unix now < cm_Expires c \<and> cm_Kind c = kind"
  unfolding jwt_verify_ok_iff [symmetric] conj_assoc [symmetric]
  by (auto simp: verify_kind_def split: prod.splits option.splits if_splits)

lemma check_revoked_frame [simp]:
  "check_revoked B (c\<lparr>cm_Scopes := a, cm_Expires := b, cm_Cnf := d, cm_ScopeOrigins := e\<rparr>) s = check_revoked B c s"
  by (simp add: check_revoked_def)

lemma check_live_None:
  "check_live E now B tok s = (c, None) \<longleftrightarrow> live_claims E now B tok = Some c \<and> check_revoked B c s = None"
  by (auto simp: check_live_def check_live_chain_def live_claims_def Let_def
      split: option.splits sum.splits prod.splits if_splits)

lemma live_claims_base:
  assumes "live_claims E now B tok = Some c"
  obtains raw b where "well_signed E (sg_Pub (br_Signer B)) raw b" and "cm_Kind b = ''capability''"
    and "same_bearer b c" and "unix now < cm_Expires c" and "cm_Expires c \<le> cm_Expires b"
proof (cases "looks_like_chain tok")
  case True
  then obtain ch eff where ch: "chain_verify E (sg_Pub (br_Signer B)) ch now = Inr eff"
    and c: "c = (ef_Base eff)\<lparr>cm_Scopes := ef_Scopes eff, cm_Expires := ef_Expires eff,
                         cm_Cnf := ef_Cnf eff, cm_ScopeOrigins := ef_Origins eff\<rparr>"
    and k: "cm_Kind (ef_Base eff) = ''capability''"
    using assms by (auto simp: live_claims_def split: option.splits sum.splits if_splits)
  note v = chain_verify_base [OF ch]
  obtain sig prev where "verify_blocks E 0 (ch_Blocks ch) (base_effective (ef_Base eff), sig) = Inr (eff, prev)"
    using v(2) by blast
  from verify_blocks_expires [OF this] have "ef_Expires eff \<le> cm_Expires (ef_Base eff)"
    by (simp add: base_effective_def)
  moreover have "well_signed E (sg_Pub (br_Signer B)) (ch_BaseToken ch) (ef_Base eff)"
    using v(1) by (simp add: jwt_verify_ok_iff)
  ultimately show thesis using that [of "ch_BaseToken ch" "ef_Base eff"] k v(3) c by (simp add: same_bearer_def)
next
  case False
  then have "verify_kind E B tok ''capability'' now = (c, None)"
    using assms by (auto simp: live_claims_def split: option.splits prod.splits)
  then show thesis using that [of tok c] by (simp add: verify_kind_None same_bearer_def)
qed

subsection \<open>The steps of \<open>authorize\<close>\<close>

definition call_request :: "time \<Rightarrow> claims \<Rightarrow> call \<Rightarrow> policy_request" where
  "call_request now c a = \<lparr>rq_Action = ActionCall, rq_Principal = cm_Subject c, rq_Human = cm_Human c,
     rq_Depth = cm_Depth c, rq_Call = a, rq_HourUTC = hour_utc now\<rparr>"

text \<open>The guards that only read: everything but approval and budget.\<close>

definition call_guards :: "'z chain_env_scheme \<Rightarrow> time \<Rightarrow> 's broker \<Rightarrow> authorize_request \<Rightarrow> claims \<Rightarrow> nat \<Rightarrow> bool" where
  "call_guards E now B r c k \<longleftrightarrow>
     live_claims E now B (au_Token r) = Some c
     \<and> (\<exists>svid. verify_kind E B (au_SVID r) ''svid'' now = (svid, None) \<and> cm_Subject svid = cm_Subject c)
     \<and> first_match (cm_Scopes c) (au_Call r) = int k
     \<and> pd_Allow (evaluate (br_Policy B) (call_request now c (au_Call r)))"

definition approval_step ::
    "'z env_scheme \<Rightarrow> time \<Rightarrow> 's broker \<Rightarrow> authorize_request \<Rightarrow> claims \<Rightarrow> nat \<Rightarrow> 's \<Rightarrow> broker_err option \<times> 's" where
  "approval_step E now B r c k s =
     (if sc_RequireApproval (cm_Scopes c ! k) then check_approval E now B r c (action_hash E (au_Call r)) s
      else (None, s))"

lemma first_match_nonneg: "\<not> first_match ss a < 0 \<Longrightarrow> first_match ss a = int (nat (first_match ss a))"
  by simp

lemma authorize_core_allowed:
  "dc_Allow (fst (authorize_core E now B r s)) \<longleftrightarrow>
     (\<exists>c k s1 s2. call_guards E now B r c k \<and> check_revoked B c s = None
        \<and> approval_step E now B r c k s = (None, s1)
        \<and> so_Consume (br_Ops B) (cm_ID c) (consume_index c (int k)) (lineage c) s1 = (None, s2)
        \<and> authorize_core E now B r s =
            (\<lparr>dc_Allow = True, dc_Reason = Permitted (pd_Reason (evaluate (br_Policy B) (call_request now c (au_Call r)))),
              dc_TokenID = cm_ID c, dc_ScopeIndex = int k, dc_ActionHash = action_hash E (au_Call r),
              dc_Claims = c\<rparr>, s2))"
  (is "?L \<longleftrightarrow> ?R")
proof
  assume L: ?L
  obtain c live where live: "check_live E now B (au_Token r) s = (c, live)" by fastforce
  have "live = None" using L live by (cases live) (auto simp: authorize_core_def)
  with live have cl: "live_claims E now B (au_Token r) = Some c" "check_revoked B c s = None"
    by (simp_all add: check_live_None)
  obtain svid e where sv: "verify_kind E B (au_SVID r) ''svid'' now = (svid, e)" by fastforce
  have e: "e = None" using L live \<open>live = None\<close> sv by (cases e) (auto simp: authorize_core_def)
  have sub: "cm_Subject svid = cm_Subject c"
    using L live \<open>live = None\<close> sv e by (auto simp: authorize_core_def Let_def split: if_splits)
  let ?k = "nat (first_match (cm_Scopes c) (au_Call r))"
  have k: "first_match (cm_Scopes c) (au_Call r) = int ?k"
    using L live \<open>live = None\<close> sv e sub by (intro first_match_nonneg) (auto simp: authorize_core_def Let_def)
  then have ge: "\<not> first_match (cm_Scopes c) (au_Call r) < 0" by linarith
  have pol: "pd_Allow (evaluate (br_Policy B) (call_request now c (au_Call r)))"
    using L live \<open>live = None\<close> sv e sub ge
    by (auto simp: authorize_core_def call_request_def Let_def split: if_splits)
  obtain ea s1 where ap: "approval_step E now B r c ?k s = (ea, s1)" by fastforce
  have ea: "ea = None"
    using L live \<open>live = None\<close> sv e sub ge pol ap
    by (cases ea) (auto simp: authorize_core_def call_request_def approval_step_def Let_def)
  obtain ec s2 where co: "so_Consume (br_Ops B) (cm_ID c) (consume_index c (int ?k)) (lineage c) s1 = (ec, s2)"
    by fastforce
  have "ec = None"
    using L live \<open>live = None\<close> sv e sub ge pol ap ea co
    by (cases ec) (auto simp: authorize_core_def call_request_def approval_step_def Let_def)
  then show ?R
    using live \<open>live = None\<close> cl sv e sub k ge pol ap ea co
    by (intro exI [of _ c] exI [of _ ?k] exI [of _ s1] exI [of _ s2])
      (simp add: authorize_core_def call_guards_def call_request_def approval_step_def Let_def)
next
  assume ?R
  then show ?L by (elim exE conjE) simp
qed

lemma authorize_coreI:
  assumes "call_guards E now B r c k" and "check_revoked B c s = None"
    and "approval_step E now B r c k s = (None, s1)"
    and "so_Consume (br_Ops B) (cm_ID c) (consume_index c (int k)) (lineage c) s1 = (None, s2)"
  shows "dc_Allow (fst (authorize_core E now B r s))"
proof -
  have "check_live E now B (au_Token r) s = (c, None)"
    using assms(1,2) by (simp add: check_live_None call_guards_def)
  moreover obtain svid where "verify_kind E B (au_SVID r) ''svid'' now = (svid, None)" "cm_Subject svid = cm_Subject c"
    using assms(1) by (auto simp: call_guards_def)
  ultimately show ?thesis
    using assms(1,3,4)
    by (auto simp: authorize_core_def call_guards_def call_request_def approval_step_def Let_def)
qed

text \<open>A denied call leaves the store as the approval step, if it came that far, or as it was.\<close>

lemma authorize_core_denied:
  assumes "authorize_core E now B r s = (d, s')" and "\<not> dc_Allow d"
  shows "s' = s \<or> (\<exists>c k ea s1. approval_step E now B r c k s = (ea, s1)
     \<and> (s' = s1 \<or> (\<exists>i j l e. so_Consume (br_Ops B) i j l s1 = (Some e, s'))))"
proof -
  obtain c live where live: "check_live E now B (au_Token r) s = (c, live)" by fastforce
  obtain svid e where sv: "verify_kind E B (au_SVID r) ''svid'' now = (svid, e)" by fastforce
  let ?k = "nat (first_match (cm_Scopes c) (au_Call r))"
  obtain ea s1 where ap: "approval_step E now B r c ?k s = (ea, s1)" by fastforce
  show ?thesis
  proof (cases "live = None \<and> e = None \<and> cm_Subject svid = cm_Subject c \<and> \<not> first_match (cm_Scopes c) (au_Call r) < 0
      \<and> pd_Allow (evaluate (br_Policy B) (call_request now c (au_Call r)))")
    case False
    then have "s' = s"
      using assms live sv
      by (auto simp: authorize_core_def call_request_def Let_def split: option.splits if_splits prod.splits)
    then show ?thesis ..
  next
    case True
    then have "s' = s1 \<or> (\<exists>i j l e. so_Consume (br_Ops B) i j l s1 = (Some e, s'))"
      using assms live sv ap
      by (auto simp: authorize_core_def call_request_def approval_step_def Let_def split: option.splits if_splits prod.splits)
    with ap show ?thesis by blast
  qed
qed

subsection \<open>Over any store\<close>

definition approval_for :: "'z env_scheme \<Rightarrow> time \<Rightarrow> 's broker \<Rightarrow> authorize_request \<Rightarrow> claims \<Rightarrow> claims \<Rightarrow> bool" where
  "approval_for E now B r c a \<longleftrightarrow>
     au_Approval r \<noteq> [] \<and> verify_kind E B (au_Approval r) ''approval'' now = (a, None)
     \<and> cm_Token a = cm_ID c \<and> cm_ActionHash a = action_hash E (au_Call r)"

lemma approval_for_unique: "approval_for E now B r c a \<Longrightarrow> approval_for E now B r c a' \<Longrightarrow> a = a'"
  by (simp add: approval_for_def)

lemma check_approval_for:
  "approval_for E now B r c a \<Longrightarrow> check_approval E now B r c (action_hash E (au_Call r)) s =
     (case so_UseApproval (br_Ops B) (cm_ID a) (time_unix (cm_Expires a)) s of
        (Inl e, s') \<Rightarrow> (Some (EStore e), s')
      | (Inr used, s') \<Rightarrow> if \<not> used then (Some EApprovalUsed, s') else (None, s'))"
  by (simp add: approval_for_def check_approval_def)

lemma check_approval_not_for:
  assumes "\<not> (\<exists>a. approval_for E now B r c a)"
  shows "\<exists>e. check_approval E now B r c (action_hash E (au_Call r)) s = (Some e, s)"
proof -
  obtain a e where "verify_kind E B (au_Approval r) ''approval'' now = (a, e)" by fastforce
  with assms show ?thesis by (cases e) (auto simp: check_approval_def approval_for_def)
qed

context token_store
begin

lemma check_revoked_clear:
  assumes "sv_inv V s" and "br_Ops B = S" and "\<not> sv_revoked V s []"
  shows "check_revoked B c s = None \<longleftrightarrow> (\<forall>i \<in> set (lineage c). \<not> sv_revoked V s i)"
proof (cases "find (sv_revoked V s) (lineage c)")
  case None
  moreover from None have "\<forall>i \<in> set (lineage c). \<not> sv_revoked V s i" by (simp add: find_None_iff)
  ultimately show ?thesis using assms by (simp add: check_revoked_def first_revoked)
next
  case (Some i)
  then have "i \<in> set (lineage c)" "sv_revoked V s i" "i \<noteq> []"
    using assms(3) by (auto simp: find_Some_iff)
  then show ?thesis using Some assms by (auto simp: check_revoked_def first_revoked)
qed

text \<open>The approval step touches no token, no budget and no revocation, and marks at most the approval.\<close>

lemma check_approval_frame:
  assumes "sv_inv V s" and "br_Ops B = S"
    and "check_approval E now B r c (action_hash E (au_Call r)) s = (e, s')"
  shows "sv_inv V s' \<and> sv_token V s' = sv_token V s \<and> same_budgets V s s' \<and> sv_revoked V s' = sv_revoked V s
     \<and> (\<forall>i. sv_used V s i \<longrightarrow> sv_used V s' i)
     \<and> (e = None \<longrightarrow> (\<exists>a. approval_for E now B r c a \<and> \<not> sv_used V s (cm_ID a)
          \<and> sv_used V s' = (sv_used V s)(cm_ID a := True)))"
proof (cases "\<exists>a. approval_for E now B r c a")
  case False
  then have "s' = s" "e \<noteq> None" using check_approval_not_for [OF False, of s] assms(3) by auto
  with assms(1) show ?thesis by auto
next
  case True
  then obtain a where a: "approval_for E now B r c a" ..
  obtain u s1 where u: "so_UseApproval S (cm_ID a) (time_unix (cm_Expires a)) s = (u, s1)" by fastforce
  show ?thesis
  proof (cases u)
    case (Inl x)
    then have "s1 = s" using u use_approval_err [OF assms(1)] by blast
    then have "s' = s" "e \<noteq> None" using assms(2,3) check_approval_for [OF a, of s] u Inl by auto
    with assms(1) show ?thesis by auto
  next
    case (Inr b)
    note l = token_store.use_approval [OF token_store_axioms assms(1) u [unfolded Inr]]
    have s': "s' = s1" "e = (if b then None else Some EApprovalUsed)"
      using assms(2,3) check_approval_for [OF a, of s] u Inr by (auto split: if_splits)
    with l a show ?thesis by auto
  qed
qed

lemma approval_step_frame:
  assumes "sv_inv V s" and "br_Ops B = S" and "approval_step E now B r c k s = (e, s')"
  shows "sv_inv V s' \<and> sv_token V s' = sv_token V s \<and> same_budgets V s s' \<and> sv_revoked V s' = sv_revoked V s
     \<and> (\<forall>i. sv_used V s i \<longrightarrow> sv_used V s' i)
     \<and> (e = None \<longrightarrow> sc_RequireApproval (cm_Scopes c ! k) \<longrightarrow>
          (\<exists>a. approval_for E now B r c a \<and> \<not> sv_used V s (cm_ID a)
             \<and> sv_used V s' = (sv_used V s)(cm_ID a := True)))"
  using check_approval_frame [OF assms(1,2), of E now r c e s'] assms(1,3)
  by (auto simp: approval_step_def split: if_splits)

text \<open>A call that is denied charges nothing.\<close>

lemma authorize_core_denied_frame:
  assumes "sv_inv V s" and "br_Ops B = S" and "authorize_core E now B r s = (d, s')" and "\<not> dc_Allow d"
  shows "sv_inv V s' \<and> sv_token V s' = sv_token V s \<and> same_budgets V s s' \<and> sv_revoked V s' = sv_revoked V s
     \<and> (\<forall>i. sv_used V s i \<longrightarrow> sv_used V s' i)"
proof -
  consider "s' = s" | c k ea where "approval_step E now B r c k s = (ea, s')"
    | c k ea s1 i j l e where "approval_step E now B r c k s = (ea, s1)" "so_Consume S i j l s1 = (Some e, s')"
    using authorize_core_denied [OF assms(3,4)] assms(2) by blast
  then show ?thesis
  proof cases
    case 1
    then show ?thesis using assms(1) by simp
  next
    case (2 c k ea)
    from approval_step_frame [OF assms(1,2) this] show ?thesis by simp
  next
    case (3 c k ea s1 i j l e)
    note a = approval_step_frame [OF assms(1,2) 3(1)]
    with 3(2) consume_err have "s' = s1" by blast
    with a show ?thesis by simp
  qed
qed

text \<open>A call that is allowed passed every guard, and charges its token, its lineage and its scope once.\<close>

definition has_budget :: "'s \<Rightarrow> claims \<Rightarrow> int \<Rightarrow> bool" where
  "has_budget s c j \<longleftrightarrow>
     (\<exists>t. sv_token V s (cm_ID c) = Some t \<and> 0 \<le> j \<and> j < int (length (tr_ScopeLimits t))
        \<and> sv_scope_calls V s (cm_ID c) j < tr_ScopeLimits t ! nat j)
     \<and> (\<forall>a \<in> set (lineage c). \<exists>t. sv_token V s a = Some t \<and> sv_calls V s a < tr_MaxCalls t)"

lemma has_budget_frame: "sv_token V s' = sv_token V s \<Longrightarrow> same_budgets V s s' \<Longrightarrow> has_budget s' c j = has_budget s c j"
  by (simp add: has_budget_def same_budgets_def)

lemma authorize_core_allowed_frame:
  assumes "sv_inv V s" and "br_Ops B = S" and "authorize_core E now B r s = (d, s')" and "dc_Allow d"
  shows "\<exists>c k. call_guards E now B r c k \<and> check_revoked B c s = None
     \<and> d = \<lparr>dc_Allow = True, dc_Reason = Permitted (pd_Reason (evaluate (br_Policy B) (call_request now c (au_Call r)))),
              dc_TokenID = cm_ID c, dc_ScopeIndex = int k, dc_ActionHash = action_hash E (au_Call r), dc_Claims = c\<rparr>
     \<and> (sc_RequireApproval (cm_Scopes c ! k) \<longrightarrow>
          (\<exists>a. approval_for E now B r c a \<and> \<not> sv_used V s (cm_ID a) \<and> sv_used V s' (cm_ID a)))
     \<and> has_budget s c (consume_index c (int k))
     \<and> sv_inv V s' \<and> sv_token V s' = sv_token V s \<and> sv_revoked V s' = sv_revoked V s
     \<and> sv_calls V s' = (\<lambda>a. sv_calls V s a + int (count_list (lineage c) a))
     \<and> sv_scope_calls V s' = (let j = consume_index c (int k) in (sv_scope_calls V s)
          (cm_ID c := (sv_scope_calls V s (cm_ID c))(j := sv_scope_calls V s (cm_ID c) j + 1)))"
proof -
  have "dc_Allow (fst (authorize_core E now B r s))" using assms(3,4) by simp
  then obtain c k s1 s2 where g: "call_guards E now B r c k" "check_revoked B c s = None"
    and ap: "approval_step E now B r c k s = (None, s1)"
    and co: "so_Consume S (cm_ID c) (consume_index c (int k)) (lineage c) s1 = (None, s2)"
    and eq: "(d, s') = (\<lparr>dc_Allow = True, dc_Reason = Permitted (pd_Reason (evaluate (br_Policy B) (call_request now c (au_Call r)))),
              dc_TokenID = cm_ID c, dc_ScopeIndex = int k, dc_ActionHash = action_hash E (au_Call r), dc_Claims = c\<rparr>, s2)"
    using assms(2,3) unfolding authorize_core_allowed by metis
  note f = approval_step_frame [OF assms(1,2) ap]
  have lin: "cm_ID c \<in> set (lineage c)" by (simp add: lineage_def)
  note u = consume [OF _ lin co]
  have b: "has_budget s1 c (consume_index c (int k))" using f u by (auto simp: has_budget_def)
  then have "has_budget s c (consume_index c (int k))" using f has_budget_frame [of s1 s] by simp
  moreover have "sc_RequireApproval (cm_Scopes c ! k) \<longrightarrow>
      (\<exists>a. approval_for E now B r c a \<and> \<not> sv_used V s (cm_ID a) \<and> sv_used V s' (cm_ID a))"
    using f u eq by (fastforce simp: same_marks_def)
  ultimately show ?thesis
    using g eq f u by (intro exI [of _ c] exI [of _ k]) (simp add: same_budgets_def same_marks_def Let_def)
qed

end

context reliable_store
begin

text \<open>The guards are also sufficient.\<close>

lemma authorize_core_iff:
  assumes inv: "sv_inv V s" and ops: "br_Ops B = S" and "\<not> sv_revoked V s []"
  shows "dc_Allow (fst (authorize_core E now B r s)) \<longleftrightarrow>
     (\<exists>c k. call_guards E now B r c k \<and> (\<forall>i \<in> set (lineage c). \<not> sv_revoked V s i)
        \<and> (sc_RequireApproval (cm_Scopes c ! k) \<longrightarrow> (\<exists>a. approval_for E now B r c a \<and> \<not> sv_used V s (cm_ID a)))
        \<and> has_budget s c (consume_index c (int k)))"
  (is "?L \<longleftrightarrow> ?R")
proof
  assume ?L
  then have allow: "dc_Allow (fst (authorize_core E now B r s))" .
  obtain d s' where core: "authorize_core E now B r s = (d, s')" by fastforce
  with allow have "dc_Allow d" by simp
  from authorize_core_allowed_frame [OF inv ops core this] show ?R
    unfolding check_revoked_clear [OF assms] by blast
next
  assume ?R
  then obtain c k where g: "call_guards E now B r c k" "\<forall>i \<in> set (lineage c). \<not> sv_revoked V s i"
    and ap: "sc_RequireApproval (cm_Scopes c ! k) \<Longrightarrow> \<exists>a. approval_for E now B r c a \<and> \<not> sv_used V s (cm_ID a)"
    and b: "has_budget s c (consume_index c (int k))" by blast
  have "\<exists>s1. approval_step E now B r c k s = (None, s1)"
  proof (cases "sc_RequireApproval (cm_Scopes c ! k)")
    case True
    with ap obtain a where a: "approval_for E now B r c a" "\<not> sv_used V s (cm_ID a)" by blast
    obtain x s1 where u: "so_UseApproval S (cm_ID a) (time_unix (cm_Expires a)) s = (Inr x, s1)"
      using answers [OF inv] by blast
    with token_store.use_approval [OF token_store_axioms inv u] a True ops show ?thesis
      by (simp add: approval_step_def check_approval_for)
  qed (simp add: approval_step_def)
  then obtain s1 where s1: "approval_step E now B r c k s = (None, s1)" ..
  note f = approval_step_frame [OF inv ops s1]
  then have "has_budget s1 c (consume_index c (int k))" using b has_budget_frame [of s1 s] by simp
  then have "fst (so_Consume S (cm_ID c) (consume_index c (int k)) (lineage c) s1) = None"
    using f consume_complete [of s1 "cm_ID c" "lineage c"] unfolding has_budget_def by (auto simp: lineage_def)
  then obtain s2 where "so_Consume S (cm_ID c) (consume_index c (int k)) (lineage c) s1 = (None, s2)"
    by (cases "so_Consume S (cm_ID c) (consume_index c (int k)) (lineage c) s1") simp
  with authorize_coreI [OF g(1) _ s1, of s2] check_revoked_clear [OF assms] g(2) ops show ?L by simp
qed

end

subsection \<open>The steps of \<open>delegate\<close> and \<open>mint_root\<close>\<close>

lemma persist_Inr:
  "persist E B c w = (Inr iss, w') \<longleftrightarrow>
     (\<exists>tok s. jwt_sign E (br_Signer B) c = Some tok
        \<and> so_PutToken (br_Ops B)
            (token_record_of c (case en_marshal_claims E c of None \<Rightarrow> [] | Some b \<Rightarrow> b)) (wd_Store w) = (None, s)
        \<and> iss = \<lparr>is_Token = tok, is_Claims = c\<rparr> \<and> w' = w\<lparr>wd_Store := s\<rparr>)"
  by (auto simp: persist_def Let_def split: option.splits prod.splits)

lemma persist_Inl:
  "persist E B c w = (Inl e, w') \<Longrightarrow> w' = w \<or>
     (\<exists>x. so_PutToken (br_Ops B)
        (token_record_of c (case en_marshal_claims E c of None \<Rightarrow> [] | Some b \<Rightarrow> b)) (wd_Store w) = (Some x, wd_Store w'))"
  by (auto simp: persist_def Let_def split: option.splits prod.splits)

lemma record_event_Store [simp]: "wd_Store (record_event E now B typ h as p w) = wd_Store w"
  by (simp add: record_event_def Let_def)

lemma token_record_of_simps [simp]:
  "tr_ID (token_record_of c b) = cm_ID c" "tr_MaxCalls (token_record_of c b) = cm_MaxCalls c"
  "tr_ScopeLimits (token_record_of c b) = map sc_MaxCalls (cm_Scopes c)"
  "tr_Parent (token_record_of c b) = cm_Parent c" "tr_Expires (token_record_of c b) = time_unix (cm_Expires c)"
  "tr_Claims (token_record_of c b) = b"
  by (simp_all add: token_record_of_def)

text \<open>What a grant presupposes.\<close>

definition delegate_guards ::
    "'z chain_env_scheme \<Rightarrow> time \<Rightarrow> 's broker \<Rightarrow> delegate_request \<Rightarrow> claims \<Rightarrow> claims \<Rightarrow> bool" where
  "delegate_guards E now B r parent csvid \<longleftrightarrow>
     live_claims E now B (dr_ParentToken r) = Some parent
     \<and> (\<exists>psvid. verify_kind E B (dr_ParentSVID r) ''svid'' now = (psvid, None) \<and> cm_Subject psvid = cm_Subject parent)
     \<and> verify_kind E B (dr_ChildSVID r) ''svid'' now = (csvid, None)
     \<and> cm_Depth parent + 1 \<le> cm_MaxDepth parent
     \<and> pd_Allow (evaluate (br_Policy B)
          \<lparr>rq_Action = ActionDelegate, rq_Principal = cm_Subject parent, rq_Human = cm_Human parent,
           rq_Depth = cm_Depth parent + 1, rq_Call = \<lparr>cl_Tool = [], cl_Resource = cm_Subject csvid, cl_Args = []\<rparr>,
           rq_HourUTC = hour_utc now\<rparr>)
     \<and> (\<forall>s \<in> set (dr_Scopes r). validate_scope s = None)
     \<and> attenuate (cm_Scopes parent) (dr_Scopes r) \<noteq> []"

definition granted_claims ::
    "'s broker \<Rightarrow> time \<Rightarrow> string \<Rightarrow> delegate_request \<Rightarrow> claims \<Rightarrow> claims \<Rightarrow> int \<Rightarrow> claims" where
  "granted_claims B now fresh r parent csvid used =
     (let scopes = attenuate (cm_Scopes parent) (dr_Scopes r)
      in child_claims B now fresh r parent csvid scopes (child_calls (cm_MaxCalls parent - used) (dr_MaxCalls r) scopes))"

lemma delegate_grant_Inr:
  assumes "delegate_grant E now B fresh r parent csvid w = (Inr iss, w')"
  shows "\<exists>used per w1. (\<forall>s \<in> set (dr_Scopes r). validate_scope s = None)
     \<and> attenuate (cm_Scopes parent) (dr_Scopes r) \<noteq> []
     \<and> so_Usage (br_Ops B) (cm_ID parent) (wd_Store w) = Inr (used, per)
     \<and> 0 < cm_MaxCalls (granted_claims B now fresh r parent csvid used)
     \<and> persist E B (granted_claims B now fresh r parent csvid used) w = (Inr iss, w1)
     \<and> wd_Store w' = wd_Store w1"
proof -
  have v: "first_err validate_scope (dr_Scopes r) = None"
    using assms by (auto simp: delegate_grant_def split: option.splits)
  have ne: "attenuate (cm_Scopes parent) (dr_Scopes r) \<noteq> []"
    using assms v by (auto simp: delegate_grant_def Let_def split: if_splits)
  obtain used per where u: "so_Usage (br_Ops B) (cm_ID parent) (wd_Store w) = Inr (used, per)"
    using assms v ne by (auto simp: delegate_grant_def Let_def split: if_splits sum.splits)
  have pos: "0 < cm_MaxCalls (granted_claims B now fresh r parent csvid used)"
    using assms v ne u
    by (auto simp: delegate_grant_def granted_claims_def child_claims_def Let_def split: if_splits)
  obtain res w1 where p: "persist E B (granted_claims B now fresh r parent csvid used) w = (res, w1)" by fastforce
  have "res = Inr iss" "wd_Store w' = wd_Store w1"
    using assms v ne u pos p
    by (auto simp: delegate_grant_def granted_claims_def Let_def child_claims_def split: if_splits sum.splits)
  with v ne u pos p show ?thesis by auto
qed

lemma delegate_grant_Inl:
  assumes "delegate_grant E now B fresh r parent csvid w = (Inl e, w')"
  shows "w' = w \<or> (\<exists>used. \<exists>x. persist E B (granted_claims B now fresh r parent csvid used) w = (Inl x, w'))"
  using assms
  by (auto simp: delegate_grant_def granted_claims_def Let_def split: option.splits if_splits sum.splits prod.splits)

lemma delegate_Inr:
  assumes "delegate E now B fresh r w = (Inr iss, w')"
  shows "\<exists>parent csvid used per w1. delegate_guards E now B r parent csvid
     \<and> check_revoked B parent (wd_Store w) = None
     \<and> so_Usage (br_Ops B) (cm_ID parent) (wd_Store w) = Inr (used, per)
     \<and> 0 < cm_MaxCalls (granted_claims B now fresh r parent csvid used)
     \<and> persist E B (granted_claims B now fresh r parent csvid used) w = (Inr iss, w1)
     \<and> wd_Store w' = wd_Store w1"
proof -
  obtain parent pe where p: "check_live E now B (dr_ParentToken r) (wd_Store w) = (parent, pe)" by fastforce
  have pe: "pe = None" using assms p by (cases pe) (auto simp: delegate_def)
  obtain psvid se where s: "verify_kind E B (dr_ParentSVID r) ''svid'' now = (psvid, se)" by fastforce
  have se: "se = None" using assms p pe s by (cases se) (auto simp: delegate_def)
  have sub: "cm_Subject psvid = cm_Subject parent"
    using assms p pe s se by (auto simp: delegate_def split: if_splits)
  obtain csvid ce where c: "verify_kind E B (dr_ChildSVID r) ''svid'' now = (csvid, ce)" by fastforce
  have ce: "ce = None" using assms p pe s se sub c by (cases ce) (auto simp: delegate_def)
  have dep: "cm_Depth parent + 1 \<le> cm_MaxDepth parent"
    using assms p pe s se sub c ce by (auto simp: delegate_def Let_def split: if_splits)
  have pol: "pd_Allow (evaluate (br_Policy B)
          \<lparr>rq_Action = ActionDelegate, rq_Principal = cm_Subject parent, rq_Human = cm_Human parent,
           rq_Depth = cm_Depth parent + 1, rq_Call = \<lparr>cl_Tool = [], cl_Resource = cm_Subject csvid, cl_Args = []\<rparr>,
           rq_HourUTC = hour_utc now\<rparr>)"
    using assms p pe s se sub c ce dep by (auto simp: delegate_def Let_def split: if_splits)
  have "delegate_grant E now B fresh r parent csvid w = (Inr iss, w')"
    using assms p pe s se sub c ce dep pol by (auto simp: delegate_def Let_def split: if_splits)
  note g = delegate_grant_Inr [OF this]
  have "live_claims E now B (dr_ParentToken r) = Some parent" and rev: "check_revoked B parent (wd_Store w) = None"
    using p pe by (simp_all add: check_live_None)
  then have "delegate_guards E now B r parent csvid"
    using s se sub c ce dep pol g unfolding delegate_guards_def by blast
  with rev g show ?thesis by blast
qed

lemma delegate_guarded:
  assumes "delegate_guards E now B r parent csvid" and "check_revoked B parent (wd_Store w) = None"
    and "so_Usage (br_Ops B) (cm_ID parent) (wd_Store w) = Inr (used, per)"
    and "0 < cm_MaxCalls (granted_claims B now fresh r parent csvid used)"
  shows "fst (delegate E now B fresh r w) = fst (persist E B (granted_claims B now fresh r parent csvid used) w)
     \<and> wd_Store (snd (delegate E now B fresh r w))
         = wd_Store (snd (persist E B (granted_claims B now fresh r parent csvid used) w))"
proof -
  obtain psvid where p: "verify_kind E B (dr_ParentSVID r) ''svid'' now = (psvid, None)" "cm_Subject psvid = cm_Subject parent"
    and c: "verify_kind E B (dr_ChildSVID r) ''svid'' now = (csvid, None)"
    using assms(1) by (auto simp: delegate_guards_def)
  have live: "check_live E now B (dr_ParentToken r) (wd_Store w) = (parent, None)"
    using assms(1,2) by (simp add: check_live_None delegate_guards_def)
  have v: "first_err validate_scope (dr_Scopes r) = None" and ne: "attenuate (cm_Scopes parent) (dr_Scopes r) \<noteq> []"
    and dep: "\<not> cm_MaxDepth parent < cm_Depth parent + 1"
    using assms(1) by (auto simp: delegate_guards_def)
  obtain res w1 where q: "persist E B (granted_claims B now fresh r parent csvid used) w = (res, w1)" by fastforce
  have "delegate E now B fresh r w = delegate_grant E now B fresh r parent csvid w"
    using assms(1) live p c dep by (simp add: delegate_def delegate_guards_def Let_def)
  moreover have "fst (delegate_grant E now B fresh r parent csvid w) = res
      \<and> wd_Store (snd (delegate_grant E now B fresh r parent csvid w)) = wd_Store w1"
    using assms(3,4) v ne q
    by (cases res) (simp_all add: delegate_grant_def granted_claims_def Let_def child_claims_def del: first_err_None)
  ultimately show ?thesis using q by simp
qed

lemma delegate_Inl:
  assumes "delegate E now B fresh r w = (Inl e, w')"
  shows "wd_Store w' = wd_Store w
     \<or> (\<exists>parent csvid used x. persist E B (granted_claims B now fresh r parent csvid used) w = (Inl x, w'))"
proof -
  have "wd_Store w' = wd_Store w \<or> (\<exists>parent csvid e. delegate_grant E now B fresh r parent csvid w = (Inl e, w'))"
    using assms by (auto simp: delegate_def Let_def split: option.splits if_splits prod.splits)
  then show ?thesis using delegate_grant_Inl by blast
qed

lemma child_calls_le: "child_calls m q ss \<le> m" "0 < q \<Longrightarrow> child_calls m q ss \<le> q" "child_calls m q ss \<le> sum_calls ss"
  by (auto simp: child_calls_def Let_def)

lemma token_ttl_cap: "cap \<noteq> zero_time \<Longrightarrow> token_ttl B now q cap \<le> cap"
  by (simp add: token_ttl_def Let_def)

lemma token_ttl_max: "token_ttl B now q cap \<le> now + cf_MaxTTL (br_Cfg B)"
  by (auto simp: token_ttl_def Let_def)

lemma granted_claims_simps [simp]:
  "cm_ID (granted_claims B now fresh r parent csvid used) = fresh"
  "cm_Kind (granted_claims B now fresh r parent csvid used) = ''capability''"
  "cm_Subject (granted_claims B now fresh r parent csvid used) = cm_Subject csvid"
  "cm_Human (granted_claims B now fresh r parent csvid used) = cm_Human parent"
  "cm_Chain (granted_claims B now fresh r parent csvid used) = lineage parent"
  "cm_Parent (granted_claims B now fresh r parent csvid used) = cm_ID parent"
  "cm_Depth (granted_claims B now fresh r parent csvid used) = cm_Depth parent + 1"
  "cm_MaxDepth (granted_claims B now fresh r parent csvid used) = child_depth (cm_MaxDepth parent) (dr_MaxDepth r)"
  "cm_Scopes (granted_claims B now fresh r parent csvid used) = attenuate (cm_Scopes parent) (dr_Scopes r)"
  "cm_MaxCalls (granted_claims B now fresh r parent csvid used)
     = child_calls (cm_MaxCalls parent - used) (dr_MaxCalls r) (attenuate (cm_Scopes parent) (dr_Scopes r))"
  "cm_Cnf (granted_claims B now fresh r parent csvid used) = dr_Cnf r"
  by (simp_all add: granted_claims_def child_claims_def Let_def)

lemma granted_claims_expires:
  assumes "cm_Expires parent \<noteq> -62135596800"
  shows "cm_Expires (granted_claims B now fresh r parent csvid used) \<le> min (cm_Expires parent) (cm_Expires csvid)
     \<and> cm_Expires (granted_claims B now fresh r parent csvid used) \<le> unix (now + cf_MaxTTL (br_Cfg B))"
proof -
  have "time_unix (cm_Expires parent) \<noteq> zero_time"
    using assms unix_time_unix by (metis zero_time_def)
  then have "unix (token_ttl B now (dr_TTL r) (time_unix (cm_Expires parent))) \<le> cm_Expires parent"
    by (intro unix_le_time_unix token_ttl_cap)
  moreover have "unix (token_ttl B now (dr_TTL r) (time_unix (cm_Expires parent))) \<le> unix (now + cf_MaxTTL (br_Cfg B))"
    by (intro unix_mono token_ttl_max)
  ultimately show ?thesis by (auto simp: granted_claims_def child_claims_def Let_def)
qed

text \<open>What minting asks of the policy, for each resource of each scope.\<close>

definition mint_policy_request :: "time \<Rightarrow> string \<Rightarrow> string \<Rightarrow> string \<Rightarrow> string \<Rightarrow> policy_request" where
  "mint_policy_request now prin human tool res = \<lparr>rq_Action = ActionMint, rq_Principal = prin, rq_Human = human,
     rq_Depth = 0, rq_Call = \<lparr>cl_Tool = tool, cl_Resource = res, cl_Args = []\<rparr>, rq_HourUTC = hour_utc now\<rparr>"

definition mint_decisions :: "'s broker \<Rightarrow> time \<Rightarrow> string \<Rightarrow> string \<Rightarrow> scope list \<Rightarrow> policy_decision list" where
  "mint_decisions B now prin human ss =
     concat (map (\<lambda>s. map (\<lambda>res. evaluate (br_Policy B) (mint_policy_request now prin human (sc_Tool s) res))
       (sc_Resources s)) ss)"

lemma mint_resources_Inr:
  "mint_resources B now prin human tool rs mad = Inr m \<longleftrightarrow>
     list_all (\<lambda>res. pd_Allow (evaluate (br_Policy B) (mint_policy_request now prin human tool res))) rs
     \<and> m = fold max (map (\<lambda>res. pd_AllowDepth (evaluate (br_Policy B) (mint_policy_request now prin human tool res))) rs) mad"
proof (induction rs arbitrary: mad)
  case (Cons res rs)
  have "(if mad < d then d else mad) = max d mad" for d :: int by simp
  then show ?case by (simp add: Cons.IH Let_def mint_policy_request_def [symmetric])
qed auto

lemma mint_scopes_Inr:
  "mint_scopes B now prin human ss mad = Inr m \<longleftrightarrow>
     list_all (\<lambda>s. validate_scope s = None) ss \<and> list_all pd_Allow (mint_decisions B now prin human ss)
     \<and> m = fold max (map pd_AllowDepth (mint_decisions B now prin human ss)) mad"
proof (induction ss arbitrary: mad)
  case (Cons s ss)
  let ?d = "map (\<lambda>res. evaluate (br_Policy B) (mint_policy_request now prin human (sc_Tool s) res)) (sc_Resources s)"
  have ds: "mint_decisions B now prin human (s # ss) = ?d @ mint_decisions B now prin human ss"
    by (simp add: mint_decisions_def)
  have res: "mint_resources B now prin human (sc_Tool s) (sc_Resources s) mad = Inr m' \<longleftrightarrow>
      list_all pd_Allow ?d \<and> m' = fold max (map pd_AllowDepth ?d) mad" for m'
    unfolding mint_resources_Inr by (simp add: list.pred_map comp_def)
  show ?case
  proof (cases "mint_resources B now prin human (sc_Tool s) (sc_Resources s) mad")
    case (Inl e)
    then have "\<not> list_all pd_Allow ?d" using res by fastforce
    then show ?thesis unfolding ds list_all_append using Inl by (simp split: option.split)
  next
    case (Inr m')
    then have "list_all pd_Allow ?d" and "m' = fold max (map pd_AllowDepth ?d) mad" using res by blast+
    then show ?thesis unfolding ds list_all_append map_append fold_append comp_apply
      using Inr Cons.IH [of m'] by (simp split: option.split)
  qed
qed (auto simp: mint_decisions_def)

definition mint_limit :: "mint_request \<Rightarrow> int" where
  "mint_limit r = (let total = sum_calls (mr_Scopes r)
     in if mr_MaxCalls r \<le> 0 \<or> total < mr_MaxCalls r then total else mr_MaxCalls r)"

definition mint_depth :: "'s broker \<Rightarrow> mint_request \<Rightarrow> int" where
  "mint_depth B r = (if mr_MaxDepth r \<le> 0 then cf_MaxDepth (br_Cfg B) else mr_MaxDepth r)"

definition mint_guards :: "'z env_scheme \<Rightarrow> time \<Rightarrow> 's broker \<Rightarrow> mint_request \<Rightarrow> claims \<Rightarrow> bool" where
  "mint_guards E now B r svid \<longleftrightarrow>
     verify_kind E B (mr_SVID r) ''svid'' now = (svid, None) \<and> mr_Human r \<noteq> [] \<and> mr_Scopes r \<noteq> []
     \<and> list_all (\<lambda>s. validate_scope s = None) (mr_Scopes r)
     \<and> (let ds = mint_decisions B now (cm_Subject svid) (mr_Human r) (mr_Scopes r)
        in list_all pd_Allow ds \<and> mint_depth B r \<le> fold max (map pd_AllowDepth ds) (cf_MaxDepth (br_Cfg B)))"

lemma mint_root_guarded:
  assumes "mint_guards E now B r svid"
  shows "mint_root E now B fresh r w =
     (let c = mint_claims B now fresh r svid (mint_depth B r) (mint_limit r) in
      case persist E B c w of
        (Inl e, w') \<Rightarrow> (Inl e, w')
      | (Inr iss, w') \<Rightarrow>
          (Inr iss, record_event E now B ''warrant.token.issued'' (cm_Human c) [cm_Subject c]
             [(''token_id'', pstr (cm_ID c)), (''subject'', pstr (cm_Subject c)), (''depth'', pint 0),
              (''max_depth'', pint (mint_depth B r)), (''max_calls'', pint (mint_limit r)),
              (''expires'', pint (cm_Expires c)), (''scopes'', pscopes E (cm_Scopes c)),
              (''goal_id'', pstr (mr_GoalID r))] w'))"
proof -
  obtain m where m: "mint_scopes B now (cm_Subject svid) (mr_Human r) (mr_Scopes r) (cf_MaxDepth (br_Cfg B)) = Inr m"
    and le: "\<not> m < mint_depth B r"
    using assms by (auto simp: mint_scopes_Inr mint_guards_def Let_def)
  have md: "(if mr_MaxDepth r \<le> 0 then cf_MaxDepth (br_Cfg B) else mr_MaxDepth r) = mint_depth B r"
    and mc: "(if mr_MaxCalls r \<le> 0 \<or> sum_calls (mr_Scopes r) < mr_MaxCalls r then sum_calls (mr_Scopes r)
        else mr_MaxCalls r) = mint_limit r"
    by (simp_all add: mint_depth_def mint_limit_def Let_def)
  show ?thesis
    using assms m le unfolding mint_guards_def mint_root_def Let_def md mc by simp
qed

lemma mint_root_not_guarded:
  assumes "\<not> (\<exists>svid. mint_guards E now B r svid)"
  shows "\<exists>e. mint_root E now B fresh r w = (Inl e, w)"
proof -
  obtain svid e where s: "verify_kind E B (mr_SVID r) ''svid'' now = (svid, e)" by fastforce
  show ?thesis
  proof (cases "e = None \<and> mr_Human r \<noteq> [] \<and> mr_Scopes r \<noteq> []")
    case False
    with s show ?thesis by (cases e) (auto simp: mint_root_def)
  next
    case True
    obtain res where m: "mint_scopes B now (cm_Subject svid) (mr_Human r) (mr_Scopes r) (cf_MaxDepth (br_Cfg B)) = res"
      by simp
    show ?thesis
    proof (cases res)
      case (Inl x)
      with s True m show ?thesis by (auto simp: mint_root_def)
    next
      case (Inr mad)
      then have "mad < mint_depth B r"
        using assms s True m by (auto simp: mint_guards_def Let_def mint_scopes_Inr)
      with s True m Inr show ?thesis by (auto simp: mint_root_def mint_depth_def Let_def)
    qed
  qed
qed

lemma mint_root_Inr:
  assumes "mint_root E now B fresh r w = (Inr iss, w')"
  shows "\<exists>svid w1. mint_guards E now B r svid
     \<and> persist E B (mint_claims B now fresh r svid (mint_depth B r) (mint_limit r)) w = (Inr iss, w1)
     \<and> wd_Store w' = wd_Store w1"
proof -
  obtain svid where g: "mint_guards E now B r svid"
    using assms mint_root_not_guarded [of E now B r fresh w] by fastforce
  obtain res w1 where p: "persist E B (mint_claims B now fresh r svid (mint_depth B r) (mint_limit r)) w = (res, w1)"
    by fastforce
  with g assms mint_root_guarded [OF g, of fresh w] show ?thesis
    by (cases res) (auto simp: Let_def)
qed

lemma mint_root_Inl:
  assumes "mint_root E now B fresh r w = (Inl e, w')"
  shows "w' = w \<or> (\<exists>svid x.
     persist E B (mint_claims B now fresh r svid (mint_depth B r) (mint_limit r)) w = (Inl x, w'))"
proof (cases "\<exists>svid. mint_guards E now B r svid")
  case True
  then obtain svid where g: "mint_guards E now B r svid" ..
  obtain res w1 where p: "persist E B (mint_claims B now fresh r svid (mint_depth B r) (mint_limit r)) w = (res, w1)"
    by fastforce
  with g assms mint_root_guarded [OF g, of fresh w] show ?thesis
    by (cases res) (auto simp: Let_def)
next
  case False
  from mint_root_not_guarded [OF this, of fresh w] assms show ?thesis by auto
qed

lemma mint_claims_simps [simp]:
  "cm_ID (mint_claims B now fresh r svid md mc) = fresh"
  "cm_Chain (mint_claims B now fresh r svid md mc) = []"
  "cm_Scopes (mint_claims B now fresh r svid md mc) = mr_Scopes r"
  "cm_MaxCalls (mint_claims B now fresh r svid md mc) = mc"
  "cm_Depth (mint_claims B now fresh r svid md mc) = 0"
  "cm_MaxDepth (mint_claims B now fresh r svid md mc) = md"
  "cm_Subject (mint_claims B now fresh r svid md mc) = cm_Subject svid"
  "cm_Human (mint_claims B now fresh r svid md mc) = mr_Human r"
  "cm_Kind (mint_claims B now fresh r svid md mc) = ''capability''"
  by (simp_all add: mint_claims_def zero_claims_def)

lemma mint_claims_expires:
  assumes "cm_Expires svid \<noteq> -62135596800"
  shows "cm_Expires (mint_claims B now fresh r svid md mc) \<le> cm_Expires svid
     \<and> cm_Expires (mint_claims B now fresh r svid md mc) \<le> unix (now + cf_MaxTTL (br_Cfg B))"
proof -
  have "time_unix (cm_Expires svid) \<noteq> zero_time"
    using assms unix_time_unix by (metis zero_time_def)
  then show ?thesis
    by (simp add: mint_claims_def unix_le_time_unix token_ttl_cap unix_mono token_ttl_max)
qed

subsection \<open>Records\<close>

text \<open>The record of an event, and its receipt.\<close>

definition record_of ::
    "'z env_scheme \<Rightarrow> time \<Rightarrow> 's broker \<Rightarrow> string \<Rightarrow> string \<Rightarrow> string list \<Rightarrow> payload \<Rightarrow> ledger_record" where
  "record_of E now B typ human agents p =
     \<lparr>lg_Chain = ''warrant'', lg_Type = typ, lg_GoalID = str_of (map_of p ''goal_id''),
      lg_ActorChain = actor_chain human agents, lg_PolicyVersion = policy_version B, lg_Payload = p,
      lg_Receipt = (case map_of receipt_kinds typ of None \<Rightarrow> None
        | Some kind \<Rightarrow> attach_receipt E now B kind (actor_chain human agents) p)\<rparr>"

lemma record_event_Ledger:
  "wd_Ledger (record_event E now B typ human agents p w) = wd_Ledger w @ [record_of E now B typ human agents p]"
  by (simp add: record_event_def record_of_def Let_def)

text \<open>A record of a kind that takes a receipt has one, that verifies under the broker's key.\<close>

lemma attach_receipt_verifies:
  assumes "env_ok E" and "now \<noteq> zero_time" and "\<And>x. length (en_sha256 E x) = 32"
    and "br_ReceiptKey B = None" and "sg_Priv (br_Signer B) \<noteq> []" and "kind \<noteq> []" and "payload_doc p = Some doc"
  shows "\<exists>e. attach_receipt E now B kind (actor_chain human agents) p = Some e
     \<and> receipt_verify E e (en_public E (sg_Priv (br_Signer B))) = None
     \<and> ev_PayloadHash e = payload_hash E doc \<and> ev_Subject e = str_of (map_of p ''token_id'') \<and> ev_Kind e = kind"
proof -
  let ?env = "\<lparr>ev_Version = [], ev_Product = ''warrant'', ev_Kind = kind,
      ev_GoalID = str_of (map_of p ''goal_id''),
      ev_Actors = map (\<lambda>a. \<lparr>ra_Kind = la_Kind a, ra_ID = la_ID a, ra_Model = la_Model a,
                          ra_ModelVersion = la_ModelVersion a\<rparr>) (actor_chain human agents),
      ev_Subject = str_of (map_of p ''token_id''), ev_PayloadHash = payload_hash E doc,
      ev_Links = [], ev_IssuedAt = zero_time, ev_SignerKeyID = [], ev_Signature = []\<rparr>"
  obtain a t where "ev_Actors ?env = a # t" "ra_Kind a = ''human''"
    by (simp add: actor_chain_def)
  then obtain e where e: "receipt_sign E now (sg_Priv (br_Signer B)) ?env = Inr e"
    using receipt_sign_total [of ?env a t now E "sg_Priv (br_Signer B)"] assms(2,3,6)
    by (auto simp: valid_product_def payload_hash_def)
  from receipt_sign_verifies [OF assms(1,2) e] show ?thesis
    using assms(4,5,7) e by (simp add: attach_receipt_def)
qed

end
