(* ===== verification/Broker_Trace.thy ===== *)
theory Broker_Trace
  imports Broker_Laws
begin

section \<open>Runs of the broker\<close>

text \<open>
  A run performs operations of the broker one after the other, each at a time of its own, and logs
  the decisions. Only the operations that change the world are steps: \<open>issue_svid\<close>, \<open>approve\<close> and
  \<open>peek\<close> return no new world. The lemmas, for any store that meets \<open>token_store\<close>, simulate a run by
  a history of store events, so that what holds of histories holds of runs.
\<close>

subsection \<open>Operations\<close>

datatype broker_op =
    OpRegister string string
  | OpMint string mint_request
  | OpDelegate string delegate_request
  | OpAuthorize authorize_request
  | OpRevoke string string string

type_synonym call_log = "(authorize_request \<times> decision) list"

definition broker_step ::
    "'z broker_env_scheme \<Rightarrow> 's broker \<Rightarrow> time \<times> broker_op \<Rightarrow> 's world \<Rightarrow> call_log \<times> 's world" where
  "broker_step E B p w =
     (let now = fst p in
      case snd p of
        OpRegister n sec \<Rightarrow> ([], snd (register_workload E B n sec w))
      | OpMint fresh r \<Rightarrow> ([], snd (mint_root E now B fresh r w))
      | OpDelegate fresh r \<Rightarrow> ([], snd (delegate E now B fresh r w))
      | OpAuthorize r \<Rightarrow> (let (d, w') = authorize E now B r w in ([(r, d)], w'))
      | OpRevoke i why actor \<Rightarrow> ([], snd (revoke_token E now B i why actor w)))"

fun broker_run ::
    "'z broker_env_scheme \<Rightarrow> 's broker \<Rightarrow> (time \<times> broker_op) list \<Rightarrow> call_log \<times> 's world \<Rightarrow> call_log \<times> 's world" where
  "broker_run E B [] lw = lw"
| "broker_run E B (p # ps) (lg, w) =
     (let (l, w') = broker_step E B p w in broker_run E B ps (lg @ l, w'))"

text \<open>The ids a run draws: \<^verbatim>\<open>NewID\<close> never repeats one and never returns the empty string.\<close>

definition op_ids :: "(time \<times> broker_op) list \<Rightarrow> string list" where
  "op_ids ps = List.map_filter (\<lambda>p. case snd p of OpMint i r \<Rightarrow> Some i | OpDelegate i r \<Rightarrow> Some i | _ \<Rightarrow> None) ps"

definition fresh_ids :: "(time \<times> broker_op) list \<Rightarrow> bool" where
  "fresh_ids ps \<longleftrightarrow> distinct (op_ids ps) \<and> [] \<notin> set (op_ids ps)"

text \<open>The allowed calls that count against a token, and those that present an approval where one is required.\<close>

definition call_under :: "string \<Rightarrow> authorize_request \<times> decision \<Rightarrow> bool" where
  "call_under a rd \<longleftrightarrow> dc_Allow (snd rd) \<and> a \<in> set (lineage (dc_Claims (snd rd)))"

definition call_approved_by :: "string \<Rightarrow> authorize_request \<times> decision \<Rightarrow> bool" where
  "call_approved_by t rd \<longleftrightarrow> dc_Allow (snd rd) \<and> au_Approval (fst rd) = t
     \<and> sc_RequireApproval (cm_Scopes (dc_Claims (snd rd)) ! nat (dc_ScopeIndex (snd rd)))"

definition count_log :: "(authorize_request \<times> decision \<Rightarrow> bool) \<Rightarrow> call_log \<Rightarrow> int" where
  "count_log P lg = int (length (filter P lg))"

lemma count_log_simps [simp]:
  "count_log P [] = 0" "count_log P (x # l) = (if P x then 1 else 0) + count_log P l"
  "count_log P (l @ m) = count_log P l + count_log P m"
  by (simp_all add: count_log_def)

lemma broker_run_append:
  "broker_run E B (xs @ ys) lw = broker_run E B ys (broker_run E B xs lw)"
  by (induction xs arbitrary: lw) (auto split: prod.splits)

lemma op_ids_simps [simp]:
  "op_ids [] = []" "op_ids (xs @ ys) = op_ids xs @ op_ids ys"
  "op_ids [(now, OpRegister n sec)] = []" "op_ids [(now, OpMint i q)] = [i]" "op_ids [(now, OpDelegate i dr)] = [i]"
  "op_ids [(now, OpAuthorize ar)] = []" "op_ids [(now, OpRevoke n sec m)] = []"
  by (simp_all add: op_ids_def List.map_filter_def)

lemma op_ids_Cons: "op_ids (p # ps) = op_ids [p] @ op_ids ps"
  by (simp add: op_ids_def List.map_filter_def)

subsection \<open>Simulation by store events\<close>

text \<open>A history explains a log that counts no more calls, under any token and any approval, than it holds.\<close>

definition explains :: "'z chain_env_scheme \<Rightarrow> string \<Rightarrow> store_event list \<Rightarrow> call_log \<Rightarrow> bool" where
  "explains E pub hist lg \<longleftrightarrow>
     (\<forall>a. count_log (call_under a) lg \<le> charged hist a)
     \<and> (\<forall>t c. well_signed E pub t c \<longrightarrow>
          count_log (call_approved_by t) lg \<le> int (length (filter (uses_approval (cm_ID c)) hist)))
     \<and> (\<forall>t. (\<nexists>c. well_signed E pub t c) \<longrightarrow> count_log (call_approved_by t) lg = 0)"

lemma charged_append [simp]: "charged (es @ hist) a = charged es a + charged hist a"
  by (simp add: charged_def)

lemma charged_nonneg [simp]: "0 \<le> charged es a"
  by (simp add: charged_def)

lemma charged_member: "e \<in> set es \<Longrightarrow> charges a e \<Longrightarrow> 1 \<le> charged es a"
  by (induction es) (auto simp: charged_Cons add_increasing2)

lemma filter_member: "e \<in> set es \<Longrightarrow> P e \<Longrightarrow> 1 \<le> length (filter P es)"
  by (induction es) auto

lemma explains_mono: "explains E pub hist lg \<Longrightarrow> explains E pub (es @ hist) lg"
  unfolding explains_def by (auto intro: add_increasing)

lemma explains_snoc:
  assumes "explains E (sg_Pub (br_Signer B)) hist lg"
    and "dc_Allow d \<Longrightarrow> \<exists>i j. EvConsume i j (lineage (dc_Claims d)) \<in> set es"
    and "dc_Allow d \<Longrightarrow> sc_RequireApproval (cm_Scopes (dc_Claims d) ! nat (dc_ScopeIndex d)) \<Longrightarrow>
      \<exists>a x. approval_for E now B r (dc_Claims d) a \<and> EvUseApproval (cm_ID a) x \<in> set es"
  shows "explains E (sg_Pub (br_Signer B)) (es @ hist) (lg @ [(r, d)])"
  unfolding explains_def
proof (intro conjI allI impI)
  fix a
  have "1 \<le> charged es a" if "call_under a (r, d)"
  proof -
    have "dc_Allow d" "a \<in> set (lineage (dc_Claims d))" using that by (simp_all add: call_under_def)
    then obtain i j where "EvConsume i j (lineage (dc_Claims d)) \<in> set es" using assms(2) by blast
    then show ?thesis using \<open>a \<in> set (lineage (dc_Claims d))\<close> charged_member [of _ es a]
      by (fastforce simp: charges_def)
  qed
  then have "count_log (call_under a) [(r, d)] \<le> charged es a" by simp
  moreover have "count_log (call_under a) lg \<le> charged hist a" using assms(1) by (simp add: explains_def)
  ultimately show "count_log (call_under a) (lg @ [(r, d)]) \<le> charged (es @ hist) a"
    unfolding count_log_simps(3) charged_append by linarith
next
  fix t c assume t: "well_signed E (sg_Pub (br_Signer B)) t c"
  have "1 \<le> length (filter (uses_approval (cm_ID c)) es)" if up: "call_approved_by t (r, d)"
  proof -
    obtain a x where a: "approval_for E now B r (dc_Claims d) a" "EvUseApproval (cm_ID a) x \<in> set es"
      using assms(3) up by (auto simp: call_approved_by_def)
    then have "well_signed E (sg_Pub (br_Signer B)) t a"
      using up by (simp add: approval_for_def verify_kind_None call_approved_by_def)
    then have "a = c" using t by (rule well_signed_unique)
    show ?thesis using a(2) unfolding \<open>a = c\<close> by (rule filter_member) (simp add: uses_approval_def)
  qed
  moreover have "count_log (call_approved_by t) lg \<le> int (length (filter (uses_approval (cm_ID c)) hist))"
    using assms(1) t by (simp add: explains_def)
  ultimately show "count_log (call_approved_by t) (lg @ [(r, d)])
      \<le> int (length (filter (uses_approval (cm_ID c)) (es @ hist)))"
    by auto
next
  fix t assume t: "\<nexists>c. well_signed E (sg_Pub (br_Signer B)) t c"
  have "\<not> call_approved_by t (r, d)"
    using assms(3) t by (fastforce simp: call_approved_by_def approval_for_def verify_kind_None)
  then show "count_log (call_approved_by t) (lg @ [(r, d)]) = 0"
    using assms(1) t by (simp add: explains_def)
qed

context token_store
begin

text \<open>A history is sound for the store it leads to.\<close>

definition sound :: "store_event list \<Rightarrow> 's \<Rightarrow> bool" where
  "sound hist s \<longleftrightarrow> accounted hist s \<and> marked hist s"

lemma sound_inv: "sound hist s \<Longrightarrow> sv_inv V s"
  by (simp add: sound_def accounted_def)

lemma sound_step:
  assumes "sound hist s" and "store_step S e s = (ok, s')" and "well_charged e"
    and "\<And>t. e = EvPutToken t \<Longrightarrow> sv_token V s (tr_ID t) = None"
  shows "sound (if ok then e # hist else hist) s'"
  using store_step_accounted [OF _ assms(2,4,3)] store_step_marked [OF _ assms(2,3)] assms(1)
  by (auto simp: sound_def)

lemma sound_put:
  assumes "sound hist s" and "so_PutToken S t s = (res, s')" and "sv_token V s (tr_ID t) = None"
  shows "sound (if res = None then EvPutToken t # hist else hist) s'
     \<and> (\<forall>i. i \<noteq> tr_ID t \<longrightarrow> sv_token V s' i = sv_token V s i) \<and> sv_revoked V s' = sv_revoked V s"
proof -
  have st: "store_step S (EvPutToken t) s = (res = None, s')" using assms(2) by (simp add: store_step_def)
  have wc: "well_charged (EvPutToken t)" by (simp add: well_charged_def)
  note m = store_step_marks [OF sound_inv [OF assms(1)] st wc]
  have "sv_revoked V s' a = sv_revoked V s a" for a using m(3) by (simp add: revokes_def)
  moreover have "sv_token V s' a = sv_token V s a" if "a \<noteq> tr_ID t" for a
    using m(2) that by (simp add: put_ids_def List.map_filter_def)
  ultimately show ?thesis using sound_step [OF assms(1) st wc] assms(3) by auto
qed

lemma persist_sound:
  assumes "sound hist (wd_Store w)" and "br_Ops B = S" and "sv_token V (wd_Store w) (cm_ID c) = None"
    and "persist E B c w = (res, w')"
  shows "\<exists>es. sound (es @ hist) (wd_Store w') \<and> (\<forall>i. i \<noteq> cm_ID c \<longrightarrow> sv_token V (wd_Store w') i = sv_token V (wd_Store w) i)
     \<and> sv_revoked V (wd_Store w') = sv_revoked V (wd_Store w)"
proof (cases "jwt_sign E (br_Signer B) c")
  case None
  then have "w' = w" using assms(4) by (simp add: persist_def)
  then show ?thesis using assms(1) by (intro exI [of _ "[]"]) simp
next
  case (Some tok)
  let ?t = "token_record_of c (case en_marshal_claims E c of None \<Rightarrow> [] | Some b \<Rightarrow> b)"
  obtain r s' where put: "so_PutToken S ?t (wd_Store w) = (r, s')" by fastforce
  then have "wd_Store w' = s'"
    using assms(2,4) Some by (cases r) (auto simp: persist_def Let_def)
  with sound_put [OF assms(1) put] assms(3) show ?thesis
    by (intro exI [of _ "if r = None then [EvPutToken ?t] else []"]) auto
qed

lemma approval_step_sound:
  assumes "sound hist s" and "br_Ops B = S" and "approval_step E now B r c k s = (e, s')"
  shows "\<exists>es. sound (es @ hist) s' \<and> sv_token V s' = sv_token V s \<and> sv_revoked V s' = sv_revoked V s
     \<and> (e = None \<longrightarrow> sc_RequireApproval (cm_Scopes c ! k) \<longrightarrow>
          (\<exists>a x. approval_for E now B r c a \<and> EvUseApproval (cm_ID a) x \<in> set es))"
proof -
  note f = approval_step_frame [OF sound_inv [OF assms(1)] assms(2,3)]
  show ?thesis
  proof (cases "sc_RequireApproval (cm_Scopes c ! k) \<and> (\<exists>a. approval_for E now B r c a)")
    case False
    then have "s' = s" using assms(3) check_approval_not_for [of E now B r c s]
      by (auto simp: approval_step_def split: if_splits)
    with f assms(1) False show ?thesis by (intro exI [of _ "[]"]) auto
  next
    case True
    then obtain a where a: "approval_for E now B r c a" by blast
    let ?x = "time_unix (cm_Expires a)" and ?e = "EvUseApproval (cm_ID a) (time_unix (cm_Expires a))"
    obtain u s1 where u: "so_UseApproval S (cm_ID a) ?x s = (u, s1)" by fastforce
    have r: "s' = s1" "e = None \<Longrightarrow> u = Inr True"
      using assms(2,3) True check_approval_for [OF a, of s] u
      by (auto simp: approval_step_def split: sum.splits if_splits)
    have "store_step S ?e s = (u = Inr True, s')" using u r(1) by (simp add: store_step_def)
    from sound_step [OF assms(1) this] have "sound (if u = Inr True then ?e # hist else hist) s'"
      by (simp add: well_charged_def)
    then show ?thesis using f r(2) a
      by (intro exI [of _ "if u = Inr True then [?e] else []"]) auto
  qed
qed

lemma authorize_core_sound:
  assumes "sound hist s" and "br_Ops B = S" and "authorize_core E now B r s = (d, s')"
  shows "\<exists>es. sound (es @ hist) s' \<and> sv_token V s' = sv_token V s \<and> sv_revoked V s' = sv_revoked V s
     \<and> (dc_Allow d \<longrightarrow>
          (\<exists>i j. EvConsume i j (lineage (dc_Claims d)) \<in> set es)
          \<and> (sc_RequireApproval (cm_Scopes (dc_Claims d) ! nat (dc_ScopeIndex d)) \<longrightarrow>
               (\<exists>a x. approval_for E now B r (dc_Claims d) a \<and> EvUseApproval (cm_ID a) x \<in> set es)))"
proof (cases "dc_Allow d")
  case True
  then have "dc_Allow (fst (authorize_core E now B r s))" using assms(3) by simp
  then obtain c k s1 s2 where ap: "approval_step E now B r c k s = (None, s1)"
    and co: "so_Consume S (cm_ID c) (consume_index c (int k)) (lineage c) s1 = (None, s2)"
    and d: "dc_Claims d = c" "dc_ScopeIndex d = int k" "s' = s2"
    using assms(2,3) unfolding authorize_core_allowed by fastforce
  obtain es where es: "sound (es @ hist) s1" "sv_token V s1 = sv_token V s" "sv_revoked V s1 = sv_revoked V s"
    "sc_RequireApproval (cm_Scopes c ! k) \<longrightarrow>
      (\<exists>a x. approval_for E now B r c a \<and> EvUseApproval (cm_ID a) x \<in> set es)"
    using approval_step_sound [OF assms(1,2) ap] by blast
  let ?e = "EvConsume (cm_ID c) (consume_index c (int k)) (lineage c)"
  have "store_step S ?e s1 = (True, s')" using co d by (simp add: store_step_def)
  moreover have wc: "well_charged ?e" by (simp add: well_charged_def lineage_def)
  ultimately have "sound (?e # es @ hist) s'" using sound_step [OF es(1)] by fastforce
  moreover have "cm_ID c \<in> set (lineage c)" by (simp add: lineage_def)
  from token_store.consume [OF token_store_axioms sound_inv [OF es(1)] this co]
  have "sv_token V s' = sv_token V s1" "sv_revoked V s' = sv_revoked V s1"
    using d by (simp_all add: same_marks_def)
  ultimately show ?thesis using es d by (intro exI [of _ "?e # es"]) auto
next
  case False
  consider "s' = s" | c k ea s1 where "approval_step E now B r c k s = (ea, s1)" "s' = s1"
    using authorize_core_denied [OF assms(3) False] assms(2) consume_err
      approval_step_frame [OF sound_inv [OF assms(1)] assms(2)] by metis
  then show ?thesis
  proof cases
    case 1
    with assms(1) False show ?thesis by (intro exI [of _ "[]"]) simp
  next
    case 2
    from approval_step_sound [OF assms(1,2) 2(1)] 2(2) False show ?thesis by auto
  qed
qed

text \<open>The invariant of a run; the empty string is never the id of a token.\<close>

definition tracked :: "'z broker_env_scheme \<Rightarrow> 's broker \<Rightarrow> store_event list \<Rightarrow> call_log \<Rightarrow> 's world \<Rightarrow> bool" where
  "tracked E B hist lg w \<longleftrightarrow> sound hist (wd_Store w) \<and> explains E (sg_Pub (br_Signer B)) hist lg
     \<and> sv_token V (wd_Store w) [] = None \<and> \<not> sv_revoked V (wd_Store w) []"

lemma tracked_store:
  assumes "tracked E B hist lg w" and "sound (es @ hist) (wd_Store w')"
    and "sv_token V (wd_Store w') [] = None" and "\<not> sv_revoked V (wd_Store w') []"
  shows "tracked E B (es @ hist) lg w'"
  using assms explains_mono [of E _ hist lg es] by (simp add: tracked_def)

lemma tracked_persist:
  assumes "tracked E B hist lg w" and "br_Ops B = S" and "sv_token V (wd_Store w) (cm_ID c) = None" and "cm_ID c \<noteq> []"
    and "persist E B c w = (res, w1)" and "wd_Store w' = wd_Store w1"
  shows "\<exists>es. tracked E B (es @ hist) lg w' \<and> (\<forall>i. i \<noteq> cm_ID c \<longrightarrow> sv_token V (wd_Store w') i = sv_token V (wd_Store w) i)"
proof -
  obtain es where es: "sound (es @ hist) (wd_Store w1)"
    "\<forall>i. i \<noteq> cm_ID c \<longrightarrow> sv_token V (wd_Store w1) i = sv_token V (wd_Store w) i"
    "sv_revoked V (wd_Store w1) = sv_revoked V (wd_Store w)"
    using persist_sound [OF _ assms(2,3,5), of hist] assms(1) by (auto simp: tracked_def)
  moreover have "sv_token V (wd_Store w') [] = None" "\<not> sv_revoked V (wd_Store w') []"
    using es(2,3) assms(1,4,6) by (auto simp: tracked_def)
  ultimately show ?thesis using tracked_store [OF assms(1), of es w'] assms(6) by auto
qed

lemma tracked_inv: "tracked E B hist lg w \<Longrightarrow> sv_inv V (wd_Store w)"
  unfolding tracked_def using sound_inv by blast

lemma tracked_same: "tracked E B hist lg w \<Longrightarrow> wd_Store w' = wd_Store w \<Longrightarrow> tracked E B hist lg w'"
  by (simp add: tracked_def)

lemma register_tracked:
  assumes "tracked E B hist lg w" and "br_Ops B = S"
  shows "\<exists>es. tracked E B (es @ hist) lg (snd (register_workload E B n sec w))
     \<and> sv_token V (wd_Store (snd (register_workload E B n sec w))) = sv_token V (wd_Store w)"
proof -
  let ?wl = "\<lparr>wl_Name = n, wl_SecretHash = hash_secret E sec, wl_CreatedAt = zero_time\<rparr>"
  obtain r s' where put: "so_PutWorkload S ?wl (wd_Store w) = (r, s')" by fastforce
  have inv: "sv_inv V (wd_Store w)" using assms(1) by (rule tracked_inv)
  note l = put_workload [OF inv put]
  have "store_step S (EvPutWorkload ?wl) (wd_Store w) = (r = None, s')" using put by (simp add: store_step_def)
  from sound_step [OF _ this] have "sound (if r = None then EvPutWorkload ?wl # hist else hist) s'"
    using assms(1) by (simp add: tracked_def well_charged_def)
  then have t: "tracked E B ((if r = None then [EvPutWorkload ?wl] else []) @ hist) lg (w\<lparr>wd_Store := s'\<rparr>)"
    using l assms(1) by (intro tracked_store) (auto simp: tracked_def unchanged_def same_marks_def)
  consider "register_workload E B n sec w = (Some EBadRequest, w)"
    | "register_workload E B n sec w = (map_option EStore r, w\<lparr>wd_Store := s'\<rparr>)"
    using put assms(2)
    by (cases "n = [] \<or> contains_any n ''/*'' \<or> length sec < 16") (auto simp: register_workload_def)
  then show ?thesis
  proof cases
    case 1
    with assms(1) show ?thesis by (intro exI [of _ "[]"]) simp
  next
    case 2
    with t l show ?thesis by (intro exI) (auto simp: unchanged_def)
  qed
qed

lemma mint_tracked:
  assumes "tracked E B hist lg w" and "br_Ops B = S" and "sv_token V (wd_Store w) i = None" and "i \<noteq> []"
  shows "\<exists>es. tracked E B (es @ hist) lg (snd (mint_root E now B i r w))
     \<and> (\<forall>j. j \<noteq> i \<longrightarrow> sv_token V (wd_Store (snd (mint_root E now B i r w))) j = sv_token V (wd_Store w) j)"
proof -
  obtain res w' where m: "mint_root E now B i r w = (res, w')" by fastforce
  consider "w' = w"
    | svid res' w1 where "persist E B (mint_claims B now i r svid (mint_depth B r) (mint_limit r)) w = (res', w1)"
        "wd_Store w' = wd_Store w1"
    using mint_root_Inr [of E now B i r w _ w'] mint_root_Inl [of E now B i r w _ w'] m
    by (cases res) blast+
  then show ?thesis
  proof cases
    case 1
    with assms(1) m show ?thesis by (intro exI [of _ "[]"]) simp
  next
    case 2
    from tracked_persist [OF assms(1,2) _ _ 2] assms(3,4) m show ?thesis by simp
  qed
qed

lemma delegate_tracked:
  assumes "tracked E B hist lg w" and "br_Ops B = S" and "sv_token V (wd_Store w) i = None" and "i \<noteq> []"
  shows "\<exists>es. tracked E B (es @ hist) lg (snd (delegate E now B i r w))
     \<and> (\<forall>j. j \<noteq> i \<longrightarrow> sv_token V (wd_Store (snd (delegate E now B i r w))) j = sv_token V (wd_Store w) j)"
proof -
  obtain res w' where m: "delegate E now B i r w = (res, w')" by fastforce
  consider "wd_Store w' = wd_Store w"
    | parent csvid used res' w1 where "persist E B (granted_claims B now i r parent csvid used) w = (res', w1)"
        "wd_Store w' = wd_Store w1"
    using delegate_Inr [of E now B i r w _ w'] delegate_Inl [of E now B i r w _ w'] m
    by (cases res) blast+
  then show ?thesis
  proof cases
    case 1
    with tracked_same [OF assms(1) 1] m show ?thesis by (intro exI [of _ "[]"]) simp
  next
    case 2
    from tracked_persist [OF assms(1,2) _ _ 2] assms(3,4) m show ?thesis by simp
  qed
qed

lemma revoke_tracked:
  assumes "tracked E B hist lg w" and "br_Ops B = S"
  shows "\<exists>es. tracked E B (es @ hist) lg (snd (revoke_token E now B i why actor w))
     \<and> sv_token V (wd_Store (snd (revoke_token E now B i why actor w))) = sv_token V (wd_Store w)"
proof -
  have inv: "sv_inv V (wd_Store w)" using assms(1) by (rule tracked_inv)
  show ?thesis
  proof (cases "sv_token V (wd_Store w) i")
    case None
    then have "revoke_token E now B i why actor w = (Some (EStore ErrNotFound), w)"
      using assms(2) by (simp add: revoke_token_def get_token [OF inv])
    with assms(1) show ?thesis by (intro exI [of _ "[]"]) simp
  next
    case (Some t)
    then have i: "i \<noteq> []" using assms(1) by (auto simp: tracked_def)
    obtain r s' where rv: "so_Revoke S i why (wd_Store w) = (r, s')" by fastforce
    let ?w = "snd (revoke_token E now B i why actor w)"
    have w: "wd_Store ?w = s'"
      using assms(2) Some rv by (simp add: revoke_token_def get_token [OF inv] split: option.split)
    have st: "store_step S (EvRevoke i why) (wd_Store w) = (r = None, s')" using rv by (simp add: store_step_def)
    have wc: "well_charged (EvRevoke i why)" by (simp add: well_charged_def)
    note m = store_step_marks [OF inv st wc]
    have tok: "sv_token V s' = sv_token V (wd_Store w)"
      using m(2) by (auto simp: put_ids_def List.map_filter_def)
    have "\<not> sv_revoked V s' []" using m(3) assms(1) i by (simp add: tracked_def revokes_def)
    then have "tracked E B ((if r = None then [EvRevoke i why] else []) @ hist) lg ?w"
      using sound_step [OF _ st wc] assms(1) tok w
      by (intro tracked_store [OF assms(1)]) (auto simp: tracked_def)
    then show ?thesis using tok w by (intro exI) simp
  qed
qed

lemma authorize_tracked:
  assumes "tracked E B hist lg w" and "br_Ops B = S" and "authorize E now B r w = (d, w')"
  shows "\<exists>es. tracked E B (es @ hist) (lg @ [(r, d)]) w' \<and> sv_token V (wd_Store w') = sv_token V (wd_Store w)"
proof -
  obtain s' where core: "authorize_core E now B r (wd_Store w) = (d, s')" and w': "wd_Store w' = s'"
    using assms(3) by (auto simp: authorize_def split: prod.splits)
  have "sound hist (wd_Store w)" using assms(1) by (simp add: tracked_def)
  from authorize_core_sound [OF this assms(2) core] obtain es where
    es: "sound (es @ hist) s'" "sv_token V s' = sv_token V (wd_Store w)" "sv_revoked V s' = sv_revoked V (wd_Store w)"
    and ev: "dc_Allow d \<Longrightarrow> \<exists>i j. EvConsume i j (lineage (dc_Claims d)) \<in> set es"
      "dc_Allow d \<Longrightarrow> sc_RequireApproval (cm_Scopes (dc_Claims d) ! nat (dc_ScopeIndex d)) \<Longrightarrow>
        \<exists>a x. approval_for E now B r (dc_Claims d) a \<and> EvUseApproval (cm_ID a) x \<in> set es"
    by blast
  have "explains E (sg_Pub (br_Signer B)) (es @ hist) (lg @ [(r, d)])"
    using explains_snoc [OF _ ev] assms(1) by (simp add: tracked_def)
  then show ?thesis using es assms(1) w' by (intro exI [of _ es]) (simp add: tracked_def)
qed

lemma broker_step_tracked:
  assumes "tracked E B hist lg w" and "br_Ops B = S" and "fresh_ids [p]"
    and "\<forall>i \<in> set (op_ids [p]). sv_token V (wd_Store w) i = None"
    and "broker_step E B p w = (l, w')"
  shows "\<exists>es. tracked E B (es @ hist) (lg @ l) w'
     \<and> (\<forall>j. j \<notin> set (op_ids [p]) \<longrightarrow> sv_token V (wd_Store w') j = sv_token V (wd_Store w) j)"
proof -
  obtain now oper where p: "p = (now, oper)" by fastforce
  show ?thesis
  proof (cases oper)
    case (OpRegister n sec)
    with register_tracked [OF assms(1,2), of n sec] assms(5) p show ?thesis
      by (auto simp: broker_step_def)
  next
    case (OpMint i r)
    with mint_tracked [OF assms(1,2), of i now r] assms(3,4,5) p show ?thesis
      by (auto simp: broker_step_def fresh_ids_def)
  next
    case (OpDelegate i r)
    with delegate_tracked [OF assms(1,2), of i now r] assms(3,4,5) p show ?thesis
      by (auto simp: broker_step_def fresh_ids_def)
  next
    case (OpAuthorize r)
    obtain d w1 where a: "authorize E now B r w = (d, w1)" by fastforce
    with authorize_tracked [OF assms(1,2) a] OpAuthorize assms(5) p show ?thesis
      by (auto simp: broker_step_def)
  next
    case (OpRevoke i why actor)
    with revoke_tracked [OF assms(1,2), of now i why actor] assms(5) p show ?thesis
      by (auto simp: broker_step_def)
  qed
qed

lemma broker_run_tracked:
  "tracked E B hist lg w \<Longrightarrow> br_Ops B = S \<Longrightarrow> fresh_ids ps \<Longrightarrow>
     \<forall>i \<in> set (op_ids ps). sv_token V (wd_Store w) i = None \<Longrightarrow>
     broker_run E B ps (lg, w) = (lg', w') \<Longrightarrow>
     \<exists>es. tracked E B (es @ hist) lg' w'
       \<and> (\<forall>j. j \<notin> set (op_ids ps) \<longrightarrow> sv_token V (wd_Store w') j = sv_token V (wd_Store w) j)"
proof (induction ps arbitrary: hist lg w)
  case Nil
  then show ?case by (intro exI [of _ "[]"]) simp
next
  case (Cons p ps)
  obtain l w1 where step: "broker_step E B p w = (l, w1)" by fastforce
  have f: "fresh_ids [p]" "fresh_ids ps" "set (op_ids [p]) \<inter> set (op_ids ps) = {}"
    using Cons.prems(3) by (auto simp: fresh_ids_def op_ids_Cons [of p ps])
  have ids: "set (op_ids (p # ps)) = set (op_ids [p]) \<union> set (op_ids ps)"
    by (simp add: op_ids_Cons [of p ps])
  obtain es where es: "tracked E B (es @ hist) (lg @ l) w1"
    "\<forall>j. j \<notin> set (op_ids [p]) \<longrightarrow> sv_token V (wd_Store w1) j = sv_token V (wd_Store w) j"
    using broker_step_tracked [OF Cons.prems(1,2) f(1) _ step] Cons.prems(4) ids by auto
  have "\<forall>i \<in> set (op_ids ps). sv_token V (wd_Store w1) i = None"
    using es(2) Cons.prems(4) f(3) ids by (metis UnCI disjoint_iff)
  from Cons.IH [OF es(1) Cons.prems(2) f(2) this] Cons.prems(5) step
  obtain es' where "tracked E B (es' @ es @ hist) lg' w'"
    "\<forall>j. j \<notin> set (op_ids ps) \<longrightarrow> sv_token V (wd_Store w') j = sv_token V (wd_Store w1) j"
    by auto
  then show ?case using es(2) ids by (intro exI [of _ "es' @ es"]) simp
qed

end

context token_store
begin

text \<open>Revocations are never taken back, and nothing is allowed under a revoked token.\<close>

lemma tracked_revoked: "tracked E B hist lg w \<Longrightarrow> sv_revoked V (wd_Store w) i \<longleftrightarrow> list_ex (revokes i) hist"
  by (simp add: tracked_def sound_def marked_def)

lemma broker_step_revoked:
  assumes "tracked E B hist lg w" and "br_Ops B = S" and "sv_revoked V (wd_Store w) i"
    and "broker_step E B p w = (l, w')"
  shows "count_log (call_under i) l = 0"
proof -
  have inv: "sv_inv V (wd_Store w)" using assms(1) by (rule tracked_inv)
  have e: "\<not> sv_revoked V (wd_Store w) []" using assms(1) by (simp add: tracked_def)
  obtain now oper where p: "p = (now, oper)" by fastforce
  show ?thesis
  proof (cases oper)
    case (OpAuthorize r)
    obtain d s' where core: "authorize_core E now B r (wd_Store w) = (d, s')" by fastforce
    then have l: "l = [(r, d)]"
      using assms(4) p OpAuthorize by (auto simp: broker_step_def authorize_def Let_def)
    have "\<not> call_under i (r, d)"
    proof (cases "dc_Allow d")
      case True
      from authorize_core_allowed_frame [OF inv assms(2) core this]
      obtain c k where "check_revoked B c (wd_Store w) = None" "dc_Claims d = c" by force
      then show ?thesis
        using check_revoked_clear [OF inv assms(2) e] assms(3) by (auto simp: call_under_def)
    qed (simp add: call_under_def)
    with l show ?thesis by simp
  qed (use assms(4) p in \<open>auto simp: broker_step_def\<close>)
qed

lemma broker_run_revoked:
  "tracked E B hist lg w \<Longrightarrow> br_Ops B = S \<Longrightarrow> fresh_ids ps \<Longrightarrow>
     \<forall>j \<in> set (op_ids ps). sv_token V (wd_Store w) j = None \<Longrightarrow> sv_revoked V (wd_Store w) i \<Longrightarrow>
     broker_run E B ps (lg, w) = (lg', w') \<Longrightarrow> count_log (call_under i) lg' = count_log (call_under i) lg"
proof (induction ps arbitrary: hist lg w)
  case (Cons p ps)
  obtain l w1 where step: "broker_step E B p w = (l, w1)" by fastforce
  have f: "fresh_ids [p]" "fresh_ids ps" "set (op_ids [p]) \<inter> set (op_ids ps) = {}"
    using Cons.prems(3) by (auto simp: fresh_ids_def op_ids_Cons [of p ps])
  have ids: "set (op_ids (p # ps)) = set (op_ids [p]) \<union> set (op_ids ps)"
    by (simp add: op_ids_Cons [of p ps])
  obtain es where es: "tracked E B (es @ hist) (lg @ l) w1"
    "\<forall>j. j \<notin> set (op_ids [p]) \<longrightarrow> sv_token V (wd_Store w1) j = sv_token V (wd_Store w) j"
    using broker_step_tracked [OF Cons.prems(1,2) f(1) _ step] Cons.prems(4) ids by auto
  have "\<forall>j \<in> set (op_ids ps). sv_token V (wd_Store w1) j = None"
    using es(2) Cons.prems(4) f(3) ids by (metis UnCI disjoint_iff)
  moreover have "sv_revoked V (wd_Store w1) i"
    using tracked_revoked [OF es(1)] tracked_revoked [OF Cons.prems(1)] Cons.prems(5) by simp
  moreover have "broker_run E B ps (lg @ l, w1) = (lg', w')" using Cons.prems(6) step by simp
  ultimately show ?case
    using Cons.IH [OF es(1) Cons.prems(2) f(2)] broker_step_revoked [OF Cons.prems(1,2,5) step] by simp
qed simp

lemma broker_run_bounds:
  assumes "tracked E B hist lg w"
  shows "sv_token V (wd_Store w) a = Some t \<Longrightarrow> count_log (call_under a) lg \<le> max 0 (tr_MaxCalls t)"
    and "count_log (call_approved_by ap) lg \<le> 1"
proof -
  have s: "sound hist (wd_Store w)" and e: "explains E (sg_Pub (br_Signer B)) hist lg"
    using assms by (simp_all add: tracked_def)
  { assume t: "sv_token V (wd_Store w) a = Some t"
    then have "charged hist a \<le> max 0 (tr_MaxCalls t)"
      using s by (auto simp: sound_def accounted_def bounded_def in_budget_def dest!: spec [of _ a])
    moreover have "count_log (call_under a) lg \<le> charged hist a" using e by (simp add: explains_def)
    ultimately show "count_log (call_under a) lg \<le> max 0 (tr_MaxCalls t)" by linarith }
  show "count_log (call_approved_by ap) lg \<le> 1"
  proof (cases "\<exists>c. well_signed E (sg_Pub (br_Signer B)) ap c")
    case True
    then obtain c where "well_signed E (sg_Pub (br_Signer B)) ap c" ..
    then have "count_log (call_approved_by ap) lg \<le> int (length (filter (uses_approval (cm_ID c)) hist))"
      using e unfolding explains_def by blast
    moreover have "length (filter (uses_approval (cm_ID c)) hist) \<le> 1"
      using s by (simp add: sound_def marked_def)
    ultimately show ?thesis by linarith
  next
    case False
    then have "count_log (call_approved_by ap) lg = 0"
      using e unfolding explains_def by blast
    then show ?thesis by simp
  qed
qed

end

lemma new_memory_tracked: "mem.tracked E B [] [] \<lparr>wd_Store = new_memory, wd_Ledger = l\<rparr>"
  using new_memory_accounted new_memory_marked new_memory_view
  by (simp add: mem.tracked_def mem.sound_def explains_def charged_def)

end
