(* ===== verification/Broker_Sample.thy ===== *)
theory Broker_Sample
  imports Broker_Trace
begin

section \<open>Sample data of the broker\<close>

text \<open>
  A broker with an in-memory store, a policy that permits everything, two workloads, a root token, a
  delegate of it and an approval, with the facts about them that the witnesses share.
\<close>

definition toy_broker_env :: "claims list \<Rightarrow> broker_env" where
  "toy_broker_env cs =
     \<lparr>en_sign = en_sign (toy_env cs), en_public = en_public (toy_env cs), en_verify = en_verify (toy_env cs),
      en_from_seed = en_from_seed (toy_env cs), en_sha256 = en_sha256 (toy_env cs),
      en_marshal_header = en_marshal_header (toy_env cs), en_unmarshal_alg = en_unmarshal_alg (toy_env cs),
      en_marshal_claims = en_marshal_claims (toy_env cs), en_unmarshal_claims = en_unmarshal_claims (toy_env cs),
      en_float_text = en_float_text (toy_env cs), en_norm_number = en_norm_number (toy_env cs),
      en_other_json = en_other_json (toy_env cs), en_time_text = en_time_text (toy_env cs),
      ce_marshal_block = (\<lambda>b. Some (bk_Nonce b @ bk_PrevSig b)), ce_unmarshal_chain = (\<lambda>_. None),
      be_error_text = (\<lambda>_. ''denied'')\<rparr>"

lemma toy_broker_env_ok [simp]: "env_ok (toy_broker_env cs)"
  using toy_env_ok [of cs] by (simp add: env_ok_def toy_broker_env_def)

lemma toy_broker_codec_ok [simp]: "codec_ok (toy_broker_env cs) c"
  using toy_codec_ok [of cs c] by (simp add: codec_ok_def toy_broker_env_def)

definition ex_permit_all :: policy_set where
  "ex_permit_all = \<lparr>ps_Version = ''v1'', ps_Rules = [\<lparr>ru_ID = ''p'', ru_Effect = ''permit'', ru_Action = [], ru_Principal = [],
     ru_Human = [], ru_Tool = [], ru_Resource = [], ru_When = None, ru_AllowDepth = 2\<rparr>]\<rparr>"

definition ex_broker :: "memory broker" where
  "ex_broker = new_broker \<lparr>cf_TrustDomain = ''d'', cf_MaxDepth = 0, cf_MaxTTL = 0, cf_DefaultTTL = 0, cf_SVIDTTL = 0,
     cf_ApprovalTTL = 0\<rparr> memory_ops ex_signer (Some ex_permit_all)"

definition ex_svid_a :: claims where
  "ex_svid_a = zero_claims\<lparr>cm_ID := ''s1'', cm_Subject := ''a'', cm_Expires := 600, cm_Kind := ''svid''\<rparr>"

definition ex_svid_b :: claims where
  "ex_svid_b = zero_claims\<lparr>cm_ID := ''s2'', cm_Subject := ''b'', cm_Expires := 600, cm_Kind := ''svid''\<rparr>"

definition ex_read :: scope where
  "ex_read = \<lparr>sc_Tool = ''fs.*'', sc_Resources = [''r/*''], sc_Args = [], sc_MaxCalls = 2, sc_RequireApproval = False\<rparr>"

definition ex_pay :: scope where
  "ex_pay = \<lparr>sc_Tool = ''pay'', sc_Resources = [''x''], sc_Args = [], sc_MaxCalls = 2, sc_RequireApproval = True\<rparr>"

definition ex_mint0 :: mint_request where
  "ex_mint0 = \<lparr>mr_SVID = [], mr_Human = ''ann'', mr_Scopes = [ex_read, ex_pay], mr_TTL = 0, mr_MaxCalls = 3,
     mr_MaxDepth = 2, mr_GoalID = [], mr_Cnf = None\<rparr>"

definition ex_delegate0 :: delegate_request where
  "ex_delegate0 = \<lparr>dr_ParentToken = [], dr_ParentSVID = [], dr_ChildSVID = [], dr_Scopes = [ex_read\<lparr>sc_Tool := ''fs.read''\<rparr>],
     dr_TTL = 0, dr_MaxCalls = 0, dr_MaxDepth = 0, dr_GoalID = [], dr_Cnf = None\<rparr>"

definition ex_root_claims :: claims where
  "ex_root_claims = mint_claims ex_broker 0 ''r1'' ex_mint0 ex_svid_a 2 3"

definition ex_kid_claims :: claims where
  "ex_kid_claims = granted_claims ex_broker 0 ''k1'' ex_delegate0 ex_root_claims ex_svid_b 0"

definition ex_call_read :: call where
  "ex_call_read = \<lparr>cl_Tool = ''fs.read'', cl_Resource = ''r/1'', cl_Args = []\<rparr>"

definition ex_call_pay :: call where
  "ex_call_pay = \<lparr>cl_Tool = ''pay'', cl_Resource = ''x'', cl_Args = []\<rparr>"

definition ex_approve :: approve_request where
  "ex_approve = \<lparr>ar_TokenID = ''r1'', ar_Call = ex_call_pay, ar_Approver = ''ann'', ar_TTL = 0\<rparr>"

definition ex_approval_claims :: claims where
  "ex_approval_claims = zero_claims\<lparr>cm_ID := ''p1'', cm_Issuer := issuer ex_broker, cm_Subject := ''ann'', cm_Human := ''ann'',
     cm_IssuedAt := 0, cm_Expires := 300, cm_Kind := ''approval'', cm_ActionHash := action_hash (toy_env []) ex_call_pay,
     cm_Token := ''r1''\<rparr>"

definition ex_big0 :: mint_request where
  "ex_big0 = ex_mint0\<lparr>mr_Scopes := [ex_read\<lparr>sc_MaxCalls := 2 ^ 62\<rparr>, ex_pay\<lparr>sc_MaxCalls := 2 ^ 62\<rparr>], mr_MaxCalls := 0\<rparr>"

definition ex_big_claims :: claims where
  "ex_big_claims = mint_claims ex_broker 0 ''r2'' ex_big0 ex_svid_a 2 (- (2 ^ 63))"

definition ex_issued :: "claims list" where
  "ex_issued = [ex_svid_a, ex_svid_b, ex_root_claims, ex_kid_claims, ex_approval_claims, ex_big_claims]"

definition ex_env :: broker_env where
  "ex_env = toy_broker_env ex_issued"

definition ex_token :: "claims \<Rightarrow> string" where
  "ex_token c = the (jwt_sign ex_env ex_signer c)"

definition ex_mint :: mint_request where
  "ex_mint = ex_mint0\<lparr>mr_SVID := ex_token ex_svid_a\<rparr>"

definition ex_delegate :: delegate_request where
  "ex_delegate = ex_delegate0\<lparr>dr_ParentToken := ex_token ex_root_claims, dr_ParentSVID := ex_token ex_svid_a,
     dr_ChildSVID := ex_token ex_svid_b\<rparr>"

definition ex_authorize :: authorize_request where
  "ex_authorize = \<lparr>au_Token = ex_token ex_kid_claims, au_SVID = ex_token ex_svid_b, au_Approval = [], au_Call = ex_call_read\<rparr>"

definition ex_world :: "memory world" where
  "ex_world = \<lparr>wd_Store = new_memory, wd_Ledger = []\<rparr>"

definition ex_authorize_pay :: authorize_request where
  "ex_authorize_pay = \<lparr>au_Token = ex_token ex_root_claims, au_SVID = ex_token ex_svid_a,
     au_Approval = ex_token ex_approval_claims, au_Call = ex_call_pay\<rparr>"

definition ex_big :: mint_request where
  "ex_big = ex_big0\<lparr>mr_SVID := ex_token ex_svid_a\<rparr>"

subsection \<open>The tokens of the sample\<close>

lemma position_ex: "c \<in> set xs \<Longrightarrow> position xs c \<noteq> None"
  by (induction xs) auto

lemma ex_wire: "list_all (\<lambda>c. wire_claims c = c \<and> list_all scope_numeric (cm_Scopes c)) ex_issued"
  by code_simp

lemma ex_env_ok [simp]: "env_ok ex_env" "codec_ok ex_env c"
  by (simp_all add: ex_env_def)

lemma ex_pub: "sg_Pub ex_signer = en_public ex_env (sg_Priv ex_signer)"
  by (simp add: ex_env_def ex_signer_def toy_broker_env_def toy_env_def)

lemma ex_token_sign: "c \<in> set ex_issued \<Longrightarrow> jwt_sign ex_env ex_signer c = Some (ex_token c)"
  using position_ex [of c ex_issued]
  by (auto simp: ex_token_def jwt_sign_def ex_env_def toy_broker_env_def toy_env_def Let_def)

lemma ex_token_signed: "c \<in> set ex_issued \<Longrightarrow> well_signed ex_env (sg_Pub ex_signer) (ex_token c) c"
  using jwt_sign_well_signed [of ex_env c ex_signer "ex_token c"] ex_token_sign [of c] ex_wire ex_pub
  by (simp add: list_all_iff)

lemma ex_broker_fields [simp]:
  "br_Signer ex_broker = ex_signer" "br_Ops ex_broker = memory_ops" "br_Policy ex_broker = Some ex_permit_all"
  "br_ReceiptKey ex_broker = None"
  by (simp_all add: ex_broker_def new_broker_def)

lemma ex_kinds [simp]:
  "cm_Kind ex_svid_a = ''svid''" "cm_Kind ex_svid_b = ''svid''" "cm_Kind ex_root_claims = ''capability''"
  "cm_Kind ex_kid_claims = ''capability''" "cm_Kind ex_approval_claims = ''approval''"
  "cm_Expires ex_svid_a = 600" "cm_Expires ex_svid_b = 600" "cm_Expires ex_root_claims = 300"
  "cm_Expires ex_kid_claims = 300" "cm_Expires ex_approval_claims = 300"
  "cm_Subject ex_svid_a = ''a''" "cm_Subject ex_svid_b = ''b''" "cm_Subject ex_root_claims = ''a''"
  "cm_Subject ex_kid_claims = ''b''" "lineage ex_root_claims = [''r1'']" "lineage ex_kid_claims = [''r1'', ''k1'']"
  "cm_ID ex_root_claims = ''r1''" "cm_ID ex_kid_claims = ''k1''" "cm_ScopeOrigins ex_kid_claims = []" "cm_ScopeOrigins ex_root_claims = []"
  "cm_Scopes ex_root_claims = [ex_read, ex_pay]" "cm_Scopes ex_kid_claims = [ex_read\<lparr>sc_Tool := ''fs.read''\<rparr>]"
  by code_simp+

lemma ex_issued_members [simp]:
  "ex_svid_a \<in> set ex_issued" "ex_svid_b \<in> set ex_issued" "ex_root_claims \<in> set ex_issued"
  "ex_kid_claims \<in> set ex_issued" "ex_approval_claims \<in> set ex_issued" "ex_big_claims \<in> set ex_issued"
  by (simp_all add: ex_issued_def)

lemma ex_verify: "c \<in> set ex_issued \<Longrightarrow> cm_Kind c = kind \<Longrightarrow> unix now < cm_Expires c \<Longrightarrow>
    verify_kind ex_env ex_broker (ex_token c) kind now = (c, None)"
  by (simp add: verify_kind_None ex_token_signed)

lemma not_chain: "\<not> is_space c \<Longrightarrow> c \<noteq> CHR 0x7B \<Longrightarrow> \<not> looks_like_chain (c # s)"
proof -
  assume "\<not> is_space c" and "c \<noteq> CHR 0x7B"
  moreover from this have "dropWhile is_space (rev s @ [c]) = dropWhile is_space (rev s) @ [c]"
    by (induction "rev s") (auto simp: dropWhile_append)
  ultimately show ?thesis by (simp add: looks_like_chain_def trim_space_def)
qed

lemma ex_token_not_chain: "c \<in> set ex_issued \<Longrightarrow> \<not> looks_like_chain (ex_token c)"
proof -
  assume c: "c \<in> set ex_issued"
  have h: "raw_url_encode (en_marshal_header ex_env (sg_KID ex_signer)) = ''e2sx''" by code_simp
  obtain t where "ex_token c = CHR ''e'' # t"
    using ex_token_sign [OF c] unfolding jwt_sign_Some Let_def h by auto
  moreover have "\<not> is_space (CHR ''e'')" by code_simp
  ultimately show ?thesis using not_chain [of "CHR ''e''" t] by simp
qed

lemma ex_live: "c \<in> set ex_issued \<Longrightarrow> cm_Kind c = ''capability'' \<Longrightarrow> unix now < cm_Expires c \<Longrightarrow>
    live_claims ex_env now ex_broker (ex_token c) = Some c"
  by (simp add: live_claims_def ex_token_not_chain ex_verify)

subsection \<open>A root token and a delegate\<close>

definition ex_record_of :: "claims \<Rightarrow> token_record" where
  "ex_record_of c = token_record_of c (case en_marshal_claims ex_env c of None \<Rightarrow> [] | Some b \<Rightarrow> b)"

definition ex_store1 :: memory where
  "ex_store1 = new_memory\<lparr>me_tokens := [(''r1'', ex_record_of ex_root_claims)]\<rparr>"

definition ex_store2 :: memory where
  "ex_store2 = new_memory\<lparr>me_tokens := [(''r1'', ex_record_of ex_root_claims), (''k1'', ex_record_of ex_kid_claims)]\<rparr>"

lemma ex_record_simps [simp]:
  "tr_ID (ex_record_of c) = cm_ID c" "tr_MaxCalls (ex_record_of c) = cm_MaxCalls c"
  "tr_ScopeLimits (ex_record_of c) = map sc_MaxCalls (cm_Scopes c)"
  by (simp_all add: ex_record_of_def)

lemma ex_persist:
  "c \<in> set ex_issued \<Longrightarrow> persist ex_env ex_broker c w =
     (Inr \<lparr>is_Token = ex_token c, is_Claims = c\<rparr>,
      w\<lparr>wd_Store := (wd_Store w)\<lparr>me_tokens := AList.update (cm_ID c) (ex_record_of c) (me_tokens (wd_Store w))\<rparr>\<rparr>)"
  by (simp add: persist_def ex_token_sign memory_ops_def mem_put_token_def ex_record_of_def Let_def)

lemma mint_svid [simp]:
  "mint_depth B (r\<lparr>mr_SVID := t\<rparr>) = mint_depth B r" "mint_limit (r\<lparr>mr_SVID := t\<rparr>) = mint_limit r"
  by (simp_all add: mint_depth_def mint_limit_def Let_def)

lemma ex_mint_guards:
  "mint_guards ex_env 0 ex_broker ex_mint ex_svid_a" "mint_guards ex_env 0 ex_broker ex_big ex_svid_a"
proof -
  have "list_all pd_Allow (mint_decisions ex_broker 0 (cm_Subject ex_svid_a) (mr_Human ex_mint0) (mr_Scopes ex_mint0))
      \<and> list_all (\<lambda>s. validate_scope s = None) (mr_Scopes ex_mint0)
      \<and> mint_depth ex_broker ex_mint0 \<le> fold max (map pd_AllowDepth
          (mint_decisions ex_broker 0 (cm_Subject ex_svid_a) (mr_Human ex_mint0) (mr_Scopes ex_mint0))) (cf_MaxDepth (br_Cfg ex_broker))"
    "mr_Human ex_mint0 \<noteq> [] \<and> mr_Scopes ex_mint0 \<noteq> []"
    by code_simp+
  moreover have "verify_kind ex_env ex_broker (ex_token ex_svid_a) ''svid'' 0 = (ex_svid_a, None)"
    by (rule ex_verify) (simp_all add: unix_def)
  ultimately show "mint_guards ex_env 0 ex_broker ex_mint ex_svid_a"
    by (simp add: mint_guards_def Let_def ex_mint_def)
next
  have "list_all pd_Allow (mint_decisions ex_broker 0 (cm_Subject ex_svid_a) (mr_Human ex_big0) (mr_Scopes ex_big0))
      \<and> list_all (\<lambda>s. validate_scope s = None) (mr_Scopes ex_big0)
      \<and> mint_depth ex_broker ex_big0 \<le> fold max (map pd_AllowDepth
          (mint_decisions ex_broker 0 (cm_Subject ex_svid_a) (mr_Human ex_big0) (mr_Scopes ex_big0))) (cf_MaxDepth (br_Cfg ex_broker))"
    "mr_Human ex_big0 \<noteq> [] \<and> mr_Scopes ex_big0 \<noteq> []"
    by code_simp+
  moreover have "verify_kind ex_env ex_broker (ex_token ex_svid_a) ''svid'' 0 = (ex_svid_a, None)"
    by (rule ex_verify) (simp_all add: unix_def)
  ultimately show "mint_guards ex_env 0 ex_broker ex_big ex_svid_a"
    by (simp add: mint_guards_def Let_def ex_big_def)
qed

lemma ex_minted:
  "fst (mint_root ex_env 0 ex_broker ''r1'' ex_mint w) = Inr \<lparr>is_Token = ex_token ex_root_claims, is_Claims = ex_root_claims\<rparr>"
  "wd_Store (snd (mint_root ex_env 0 ex_broker ''r1'' ex_mint \<lparr>wd_Store = new_memory, wd_Ledger = l\<rparr>)) = ex_store1"
proof -
  have c: "mint_claims ex_broker 0 ''r1'' ex_mint ex_svid_a (mint_depth ex_broker ex_mint) (mint_limit ex_mint) = ex_root_claims"
  proof -
    have "mint_depth ex_broker ex_mint0 = 2" "mint_limit ex_mint0 = 3" by code_simp+
    then have "mint_depth ex_broker ex_mint = 2" "mint_limit ex_mint = 3"
      by (simp_all add: ex_mint_def)
    then show ?thesis by (simp add: ex_root_claims_def mint_claims_def ex_mint_def)
  qed
  show "fst (mint_root ex_env 0 ex_broker ''r1'' ex_mint w) = Inr \<lparr>is_Token = ex_token ex_root_claims, is_Claims = ex_root_claims\<rparr>"
    unfolding mint_root_guarded [OF ex_mint_guards(1)] c Let_def by (simp add: ex_persist)
  show "wd_Store (snd (mint_root ex_env 0 ex_broker ''r1'' ex_mint \<lparr>wd_Store = new_memory, wd_Ledger = l\<rparr>)) = ex_store1"
    unfolding mint_root_guarded [OF ex_mint_guards(1)] c Let_def
    by (simp add: ex_persist ex_store1_def new_memory_def)
qed

lemma ex_big_minted: "\<exists>w'. mint_root ex_env 0 ex_broker ''r2'' ex_big w
    = (Inr \<lparr>is_Token = ex_token ex_big_claims, is_Claims = ex_big_claims\<rparr>, w')"
proof -
  have "mint_depth ex_broker ex_big0 = 2" "mint_limit ex_big0 = - (2 ^ 63)" by code_simp+
  then have "mint_depth ex_broker ex_big = 2" "mint_limit ex_big = - (2 ^ 63)"
    by (simp_all add: ex_big_def)
  then have c: "mint_claims ex_broker 0 ''r2'' ex_big ex_svid_a (mint_depth ex_broker ex_big) (mint_limit ex_big) = ex_big_claims"
    by (simp add: ex_big_claims_def mint_claims_def ex_big_def)
  show ?thesis
    unfolding mint_root_guarded [OF ex_mint_guards(2)] c Let_def by (simp add: ex_persist)
qed

lemma ex_delegate_guards: "delegate_guards ex_env 0 ex_broker ex_delegate ex_root_claims ex_svid_b"
proof -
  have v: "verify_kind ex_env ex_broker (ex_token ex_svid_a) ''svid'' 0 = (ex_svid_a, None)"
    "verify_kind ex_env ex_broker (ex_token ex_svid_b) ''svid'' 0 = (ex_svid_b, None)"
    "live_claims ex_env 0 ex_broker (ex_token ex_root_claims) = Some ex_root_claims"
    by (rule ex_verify ex_live; simp add: unix_def)+
  have "cm_Depth ex_root_claims + 1 \<le> cm_MaxDepth ex_root_claims
      \<and> pd_Allow (evaluate (Some ex_permit_all)
          \<lparr>rq_Action = ActionDelegate, rq_Principal = cm_Subject ex_root_claims, rq_Human = cm_Human ex_root_claims,
           rq_Depth = cm_Depth ex_root_claims + 1, rq_Call = \<lparr>cl_Tool = [], cl_Resource = cm_Subject ex_svid_b, cl_Args = []\<rparr>,
           rq_HourUTC = hour_utc 0\<rparr>)
      \<and> list_all (\<lambda>s. validate_scope s = None) (dr_Scopes ex_delegate0)
      \<and> attenuate (cm_Scopes ex_root_claims) (dr_Scopes ex_delegate0) \<noteq> []"
    by code_simp
  then show ?thesis
    using v by (simp add: delegate_guards_def ex_delegate_def list_all_iff del: ex_kinds(21))
qed

lemma ex_delegated:
  assumes "wd_Store w = ex_store1"
  shows "fst (delegate ex_env 0 ex_broker ''k1'' ex_delegate w) = Inr \<lparr>is_Token = ex_token ex_kid_claims, is_Claims = ex_kid_claims\<rparr>"
    and "wd_Store (snd (delegate ex_env 0 ex_broker ''k1'' ex_delegate w)) = ex_store2"
proof -
  have c: "granted_claims ex_broker 0 ''k1'' ex_delegate ex_root_claims ex_svid_b 0 = ex_kid_claims"
    by (simp add: ex_kid_claims_def granted_claims_def child_claims_def ex_delegate_def Let_def del: ex_kinds)
  have rv: "check_revoked ex_broker ex_root_claims (wd_Store w) = None"
    by (simp add: check_revoked_def memory_ops_def mem_first_revoked_def assms ex_store1_def new_memory_def)
  have u: "so_Usage (br_Ops ex_broker) (cm_ID ex_root_claims) (wd_Store w) = Inr (0, [])"
    by (simp add: memory_ops_def mem_usage_def assms ex_store1_def new_memory_def int_at_def per_scope_def)
  have pos: "0 < cm_MaxCalls (granted_claims ex_broker 0 ''k1'' ex_delegate ex_root_claims ex_svid_b 0)"
    unfolding c by code_simp
  note d = delegate_guarded [OF ex_delegate_guards rv u pos, unfolded c]
  show "fst (delegate ex_env 0 ex_broker ''k1'' ex_delegate w) = Inr \<lparr>is_Token = ex_token ex_kid_claims, is_Claims = ex_kid_claims\<rparr>"
    "wd_Store (snd (delegate ex_env 0 ex_broker ''k1'' ex_delegate w)) = ex_store2"
    using d by (simp_all add: ex_persist assms ex_store1_def ex_store2_def new_memory_def)
qed

lemma ex_store_inv:
  "memory_inv ex_store1" "memory_inv ex_store2" "lookup (me_revoked ex_store1) [] = None" "lookup (me_revoked ex_store2) [] = None"
  by (auto simp: memory_inv_def wf_map_def ex_store1_def ex_store2_def new_memory_def)

subsection \<open>Two calls\<close>

lemma ex_call_guards:
  "call_guards ex_env second ex_broker ex_authorize ex_kid_claims 0"
  "call_guards ex_env second ex_broker ex_authorize_pay ex_root_claims 1"
proof -
  have v: "verify_kind ex_env ex_broker (ex_token ex_svid_b) ''svid'' second = (ex_svid_b, None)"
    "verify_kind ex_env ex_broker (ex_token ex_svid_a) ''svid'' second = (ex_svid_a, None)"
    "live_claims ex_env second ex_broker (ex_token ex_kid_claims) = Some ex_kid_claims"
    "live_claims ex_env second ex_broker (ex_token ex_root_claims) = Some ex_root_claims"
    by (rule ex_verify ex_live; simp add: unix_def second_def)+
  have "first_match (cm_Scopes ex_kid_claims) ex_call_read = 0"
    "pd_Allow (evaluate (Some ex_permit_all) (call_request second ex_kid_claims ex_call_read))"
    by code_simp+
  with v show "call_guards ex_env second ex_broker ex_authorize ex_kid_claims 0"
    by (simp add: call_guards_def ex_authorize_def del: ex_kinds(22))
  have "first_match (cm_Scopes ex_root_claims) ex_call_pay = 1"
    "pd_Allow (evaluate (Some ex_permit_all) (call_request second ex_root_claims ex_call_pay))"
    by code_simp+
  with v show "call_guards ex_env second ex_broker ex_authorize_pay ex_root_claims 1"
    by (simp add: call_guards_def ex_authorize_pay_def del: ex_kinds(21))
qed

lemma action_hash_ex: "action_hash ex_env ex_call_pay = action_hash (toy_env []) ex_call_pay"
  by (simp add: action_hash_def canonical_json_def call_object_def ex_call_pay_def ex_env_def toy_broker_env_def
      toy_env_def write_canon_def)

lemma ex_token_not_Nil: "c \<in> set ex_issued \<Longrightarrow> ex_token c \<noteq> []"
  using ex_token_sign [of c] by (auto simp: jwt_sign_Some Let_def)

lemma ex_approval_for: "approval_for ex_env second ex_broker ex_authorize_pay ex_root_claims ex_approval_claims"
proof -
  have "verify_kind ex_env ex_broker (ex_token ex_approval_claims) ''approval'' second = (ex_approval_claims, None)"
    by (rule ex_verify) (simp_all add: unix_def second_def)
  then show ?thesis
    by (simp add: approval_for_def ex_authorize_pay_def ex_token_not_Nil action_hash_ex)
      (simp add: ex_approval_claims_def)
qed

lemma ex_has_budget:
  "mem.has_budget ex_store2 ex_kid_claims (consume_index ex_kid_claims 0)"
  "mem.has_budget ex_store2 ex_root_claims (consume_index ex_root_claims 1)"
proof -
  have "cm_MaxCalls ex_root_claims = 3" "cm_MaxCalls ex_kid_claims = 2" by code_simp+
  then show "mem.has_budget ex_store2 ex_kid_claims (consume_index ex_kid_claims 0)"
    "mem.has_budget ex_store2 ex_root_claims (consume_index ex_root_claims 1)"
    unfolding mem.has_budget_def
    by (auto simp: memory_view_def ex_store2_def new_memory_def consume_index_def int_at_def
        per_scope_def ex_read_def ex_pay_def)
qed

lemma ex_allowed:
  "dc_Allow (fst (authorize_core ex_env second ex_broker ex_authorize ex_store2))"
  "dc_Allow (fst (authorize_core ex_env second ex_broker ex_authorize_pay ex_store2))"
proof -
  have inv: "sv_inv memory_view ex_store2" "\<not> sv_revoked memory_view ex_store2 []"
    using ex_store_inv by (simp_all add: memory_view_def)
  have clear: "\<not> sv_revoked memory_view ex_store2 i" "\<not> sv_used memory_view ex_store2 i" for i
    by (simp_all add: memory_view_def ex_store2_def new_memory_def)
  show "dc_Allow (fst (authorize_core ex_env second ex_broker ex_authorize ex_store2))"
    unfolding rmem.authorize_core_iff [OF inv(1) ex_broker_fields(2) inv(2)]
    using ex_call_guards(1) ex_has_budget(1) clear
    by (intro exI [of _ ex_kid_claims] exI [of _ 0]) (simp add: ex_read_def)
  show "dc_Allow (fst (authorize_core ex_env second ex_broker ex_authorize_pay ex_store2))"
    unfolding rmem.authorize_core_iff [OF inv(1) ex_broker_fields(2) inv(2)]
    using ex_call_guards(2) ex_has_budget(2) clear ex_approval_for
    by (intro exI [of _ ex_root_claims] exI [of _ 1]) auto
qed

subsection \<open>The sample runs\<close>

definition ex_world1 :: "memory world" where
  "ex_world1 = \<lparr>wd_Store = ex_store1, wd_Ledger = []\<rparr>"

definition ex_world2 :: "memory world" where
  "ex_world2 = \<lparr>wd_Store = ex_store2, wd_Ledger = []\<rparr>"

lemma ex_world1_inv: "memory_inv (wd_Store ex_world1)" "lookup (me_revoked (wd_Store ex_world1)) [] = None"
  and ex_world2_inv: "memory_inv (wd_Store ex_world2)" "lookup (me_revoked (wd_Store ex_world2)) [] = None"
  using ex_store_inv by (simp_all add: ex_world1_def ex_world2_def)

lemma ex_decision_core:
  "fst (authorize_core ex_env second ex_broker ex_authorize ex_store2) = \<lparr>dc_Allow = True, dc_Reason = Permitted (pd_Reason
     (evaluate (br_Policy ex_broker) (call_request second ex_kid_claims (au_Call ex_authorize)))), dc_TokenID = ''k1'', dc_ScopeIndex = 0,
     dc_ActionHash = action_hash ex_env (au_Call ex_authorize), dc_Claims = ex_kid_claims\<rparr>"
  "fst (authorize_core ex_env second ex_broker ex_authorize_pay ex_store2) = \<lparr>dc_Allow = True, dc_Reason = Permitted (pd_Reason
     (evaluate (br_Policy ex_broker) (call_request second ex_root_claims (au_Call ex_authorize_pay)))), dc_TokenID = ''r1'', dc_ScopeIndex = 1,
     dc_ActionHash = action_hash ex_env (au_Call ex_authorize_pay), dc_Claims = ex_root_claims\<rparr>"
proof -
  obtain c k where "call_guards ex_env second ex_broker ex_authorize c k"
    "fst (authorize_core ex_env second ex_broker ex_authorize ex_store2) = \<lparr>dc_Allow = True, dc_Reason = Permitted (pd_Reason
     (evaluate (br_Policy ex_broker) (call_request second c (au_Call ex_authorize)))), dc_TokenID = cm_ID c, dc_ScopeIndex = int k,
     dc_ActionHash = action_hash ex_env (au_Call ex_authorize), dc_Claims = c\<rparr>"
    using ex_allowed(1) unfolding authorize_core_allowed by (metis fst_conv)
  moreover from this(1) have "c = ex_kid_claims" "k = 0"
    using ex_call_guards(1) by (simp_all add: call_guards_def)
  ultimately show "fst (authorize_core ex_env second ex_broker ex_authorize ex_store2) = \<lparr>dc_Allow = True, dc_Reason = Permitted (pd_Reason
     (evaluate (br_Policy ex_broker) (call_request second ex_kid_claims (au_Call ex_authorize)))), dc_TokenID = ''k1'', dc_ScopeIndex = 0,
     dc_ActionHash = action_hash ex_env (au_Call ex_authorize), dc_Claims = ex_kid_claims\<rparr>" by simp
next
  obtain c k where "call_guards ex_env second ex_broker ex_authorize_pay c k"
    "fst (authorize_core ex_env second ex_broker ex_authorize_pay ex_store2) = \<lparr>dc_Allow = True, dc_Reason = Permitted (pd_Reason
     (evaluate (br_Policy ex_broker) (call_request second c (au_Call ex_authorize_pay)))), dc_TokenID = cm_ID c, dc_ScopeIndex = int k,
     dc_ActionHash = action_hash ex_env (au_Call ex_authorize_pay), dc_Claims = c\<rparr>"
    using ex_allowed(2) unfolding authorize_core_allowed by (metis fst_conv)
  moreover from this(1) have "c = ex_root_claims" "k = 1"
    using ex_call_guards(2) by (simp_all add: call_guards_def)
  ultimately show "fst (authorize_core ex_env second ex_broker ex_authorize_pay ex_store2) = \<lparr>dc_Allow = True, dc_Reason = Permitted (pd_Reason
     (evaluate (br_Policy ex_broker) (call_request second ex_root_claims (au_Call ex_authorize_pay)))), dc_TokenID = ''r1'', dc_ScopeIndex = 1,
     dc_ActionHash = action_hash ex_env (au_Call ex_authorize_pay), dc_Claims = ex_root_claims\<rparr>" by simp
qed

lemma authorize_core_fst:
  "fst (authorize E now B r w) = fst (authorize_core E now B r (wd_Store w))"
  "wd_Store (snd (authorize E now B r w)) = snd (authorize_core E now B r (wd_Store w))"
  by (simp_all add: authorize_def split: prod.split)

lemma ex_decision:
  "fst (authorize ex_env second ex_broker ex_authorize ex_world2) = fst (authorize_core ex_env second ex_broker ex_authorize ex_store2)
     \<and> dc_Allow (fst (authorize_core ex_env second ex_broker ex_authorize ex_store2))
     \<and> dc_Claims (fst (authorize_core ex_env second ex_broker ex_authorize ex_store2)) = ex_kid_claims
     \<and> dc_TokenID (fst (authorize_core ex_env second ex_broker ex_authorize ex_store2)) = ''k1''"
  "fst (authorize ex_env second ex_broker ex_authorize_pay ex_world2) = fst (authorize_core ex_env second ex_broker ex_authorize_pay ex_store2)
     \<and> dc_Allow (fst (authorize_core ex_env second ex_broker ex_authorize_pay ex_store2))
     \<and> dc_Claims (fst (authorize_core ex_env second ex_broker ex_authorize_pay ex_store2)) = ex_root_claims
     \<and> dc_ScopeIndex (fst (authorize_core ex_env second ex_broker ex_authorize_pay ex_store2)) = 1"
  by (simp_all add: authorize_core_fst ex_world2_def ex_decision_core)

definition ex_run2 :: "call_log \<times> memory world" where
  "ex_run2 = broker_run ex_env ex_broker [(0, OpMint ''r1'' ex_mint), (0, OpDelegate ''k1'' ex_delegate)]
     ([], \<lparr>wd_Store = new_memory, wd_Ledger = []\<rparr>)"

definition ex_ops :: "(time \<times> broker_op) list" where
  "ex_ops = [(0, OpMint ''r1'' ex_mint), (0, OpDelegate ''k1'' ex_delegate), (second, OpAuthorize ex_authorize)]"

definition ex_run3 :: "call_log \<times> memory world" where
  "ex_run3 = broker_run ex_env ex_broker ex_ops ([], \<lparr>wd_Store = new_memory, wd_Ledger = []\<rparr>)"

definition ex_ops_pay :: "(time \<times> broker_op) list" where
  "ex_ops_pay = [(0, OpMint ''r1'' ex_mint), (second, OpAuthorize ex_authorize_pay), (second, OpAuthorize ex_authorize_pay)]"

definition ex_run_pay :: "call_log \<times> memory world" where
  "ex_run_pay = broker_run ex_env ex_broker ex_ops_pay ([], \<lparr>wd_Store = new_memory, wd_Ledger = []\<rparr>)"

lemma ex_ops_fresh: "fresh_ids ex_ops"
  by (simp add: fresh_ids_def ex_ops_def op_ids_def List.map_filter_def)

lemma ex_run2: "wd_Store (snd ex_run2) = ex_store2" "fst ex_run2 = []"
  using ex_delegated(2) [OF ex_minted(2) [of "[]"]] by (simp_all add: ex_run2_def broker_step_def)

lemma ex_run3:
  "count_log (call_under ''r1'') (fst ex_run3) = 1"
  "mem_get_token ''r1'' (wd_Store (snd ex_run3)) = Inr (ex_record_of ex_root_claims)"
proof -
  have "ex_run3 = broker_run ex_env ex_broker [(second, OpAuthorize ex_authorize)] ex_run2"
    by (simp add: ex_run3_def ex_run2_def ex_ops_def split: prod.split)
  also have "\<dots> = broker_run ex_env ex_broker [(second, OpAuthorize ex_authorize)] ([], snd ex_run2)"
    using ex_run2(2) by (metis prod.collapse)
  finally have r: "ex_run3 = ([(ex_authorize, fst (authorize ex_env second ex_broker ex_authorize (snd ex_run2)))],
      snd (authorize ex_env second ex_broker ex_authorize (snd ex_run2)))"
    by (simp add: broker_step_def case_prod_beta)
  have d: "fst (authorize ex_env second ex_broker ex_authorize (snd ex_run2))
      = fst (authorize_core ex_env second ex_broker ex_authorize ex_store2)"
    by (simp add: authorize_core_fst ex_run2)
  then show "count_log (call_under ''r1'') (fst ex_run3) = 1"
    by (simp add: r call_under_def ex_decision_core)
  obtain e s' where core: "authorize_core ex_env second ex_broker ex_authorize ex_store2 = (e, s')" by fastforce
  have "sv_inv memory_view ex_store2" using ex_store_inv by (simp add: memory_view_def)
  from mem.authorize_core_allowed_frame [OF this ex_broker_fields(2) core] ex_allowed(1) core
  have "lookup (me_tokens s') = lookup (me_tokens ex_store2)" by (auto simp: memory_view_def)
  moreover have "wd_Store (snd ex_run3) = s'" using core unfolding r snd_conv by (simp add: authorize_core_fst ex_run2)
  ultimately show "mem_get_token ''r1'' (wd_Store (snd ex_run3)) = Inr (ex_record_of ex_root_claims)"
    by (simp add: mem_get_token_def ex_store2_def)
qed

lemma ex_signed_numeric:
  assumes "well_signed ex_env pub raw b"
  shows "list_all scope_numeric (cm_Scopes b) \<and> cm_ScopeOrigins b = []"
proof -
  obtain bb where "en_unmarshal_claims ex_env bb = (b, True)"
    using assms by (auto simp: well_signed_def)
  then obtain n where "n < length ex_issued" "b = wire_claims (ex_issued ! n)"
    by (auto simp: ex_env_def toy_broker_env_def toy_env_def split: if_splits)
  then have "ex_issued ! n \<in> set ex_issued" by simp
  with ex_wire have "list_all scope_numeric (cm_Scopes b)" "wire_claims b = b"
    using \<open>b = wire_claims (ex_issued ! n)\<close> by (auto simp: list_all_iff)
  moreover have "cm_ScopeOrigins (wire_claims b) = []" by (simp add: wire_claims_def)
  ultimately show ?thesis by simp
qed

lemma ex_approved: "approve ex_env 0 ex_broker ''p1'' ex_approve ex_world2
    = Inr \<lparr>ap_Approval = ex_token ex_approval_claims, ap_ActionHash = action_hash ex_env ex_call_pay, ap_Expires = 300\<rparr>"
proof -
  have "mem_get_token ''r1'' ex_store2 = Inr (ex_record_of ex_root_claims)"
    by (simp add: mem_get_token_def ex_store2_def)
  moreover have "unix (cf_ApprovalTTL (br_Cfg ex_broker)) = 300" "cl_Tool ex_call_pay \<noteq> []" by code_simp+
  moreover have "zero_claims\<lparr>cm_ID := ''p1'', cm_Issuer := issuer ex_broker, cm_Subject := ''ann'',
      cm_Human := ''ann'', cm_IssuedAt := 0, cm_Expires := 300, cm_Kind := ''approval'',
      cm_ActionHash := action_hash ex_env ex_call_pay, cm_Token := ''r1''\<rparr> = ex_approval_claims"
    by (simp add: ex_approval_claims_def action_hash_ex)
  moreover have "unix 0 = 0" by (simp add: unix_def)
  ultimately show ?thesis
    using ex_token_sign [of ex_approval_claims]
    by (simp add: approve_def ex_approve_def memory_ops_def ex_world2_def Let_def)
qed

end
