(* ===== verification/Broker_Properties.thy ===== *)
theory Broker_Properties
  imports Broker_Sample
begin

section \<open>Properties of the broker\<close>

text \<open>
  The claims about \<^verbatim>\<open>internal/broker/service.go\<close> over the in-memory store, each from the lemmas of
  \<open>Broker_Laws\<close> and \<open>Broker_Trace\<close> through the interpretations \<open>mem\<close> and \<open>rmem\<close>.
\<close>

lemma validate_scope_budget: "validate_scope s = None \<Longrightarrow> 0 < sc_MaxCalls s"
  by (rule ccontr) (auto simp: validate_scope_def split: option.splits if_splits)

subsection \<open>One call\<close>

text \<open>
  \<^bold>\<open>C1.\<close> A call is allowed exactly when every guard holds: the credential is live and no id of its lineage is
  revoked, the SVID names the same workload, a scope matches, the policy permits, a scope that
  requires approval has an unused approval of this token and this action hash, and the scope and
  every token of the lineage have budget left.
\<close>

theorem authorize_exact:
  assumes "br_Ops B = memory_ops" and "memory_inv (wd_Store w)" and "lookup (me_revoked (wd_Store w)) [] = None"
  shows "dc_Allow (fst (authorize E now B r w)) \<longleftrightarrow>
     (\<exists>c svid k. live_claims E now B (au_Token r) = Some c
        \<and> \<not> (\<exists>i \<in> set (lineage c). lookup (me_revoked (wd_Store w)) i \<noteq> None)
        \<and> verify_kind E B (au_SVID r) ''svid'' now = (svid, None) \<and> cm_Subject svid = cm_Subject c
        \<and> first_match (cm_Scopes c) (au_Call r) = int k
        \<and> pd_Allow (evaluate (br_Policy B) (call_request now c (au_Call r)))
        \<and> (sc_RequireApproval (cm_Scopes c ! k) \<longrightarrow>
             (\<exists>a. au_Approval r \<noteq> [] \<and> verify_kind E B (au_Approval r) ''approval'' now = (a, None)
                \<and> cm_Token a = cm_ID c \<and> cm_ActionHash a = action_hash E (au_Call r)
                \<and> lookup (me_approvals (wd_Store w)) (cm_ID a) \<noteq> Some True))
        \<and> (\<exists>t. lookup (me_tokens (wd_Store w)) (cm_ID c) = Some t
             \<and> 0 \<le> consume_index c (int k) \<and> consume_index c (int k) < int (length (tr_ScopeLimits t))
             \<and> int_at (per_scope (wd_Store w) (cm_ID c)) (consume_index c (int k))
                 < tr_ScopeLimits t ! nat (consume_index c (int k)))
        \<and> (\<forall>a \<in> set (lineage c). \<exists>t. lookup (me_tokens (wd_Store w)) a = Some t
             \<and> int_at (me_total (wd_Store w)) a < tr_MaxCalls t))"
proof -
  have "dc_Allow (fst (authorize E now B r w)) = dc_Allow (fst (authorize_core E now B r (wd_Store w)))"
    by (simp add: authorize_def split: prod.split)
  also have "\<dots> \<longleftrightarrow> (\<exists>c k. call_guards E now B r c k \<and> (\<forall>i \<in> set (lineage c). lookup (me_revoked (wd_Store w)) i = None)
        \<and> (sc_RequireApproval (cm_Scopes c ! k) \<longrightarrow>
             (\<exists>a. approval_for E now B r c a \<and> lookup (me_approvals (wd_Store w)) (cm_ID a) \<noteq> Some True))
        \<and> mem.has_budget (wd_Store w) c (consume_index c (int k)))"
    using rmem.authorize_core_iff [of "wd_Store w" B E now r] assms by (simp add: memory_view_def)
  finally show ?thesis
    unfolding call_guards_def approval_for_def mem.has_budget_def by (simp add: memory_view_def) blast
qed

theorem authorize_exact_witness:
  "dc_Allow (fst (authorize ex_env second ex_broker ex_authorize_pay ex_world2))"
proof -
  have live: "live_claims ex_env second ex_broker (au_Token ex_authorize_pay) = Some ex_root_claims"
    using ex_call_guards(2) by (simp add: call_guards_def)
  obtain svid where svid: "verify_kind ex_env ex_broker (au_SVID ex_authorize_pay) ''svid'' second = (svid, None)"
    "cm_Subject svid = cm_Subject ex_root_claims" using ex_call_guards(2) by (auto simp: call_guards_def)
  have m: "first_match (cm_Scopes ex_root_claims) (au_Call ex_authorize_pay) = int 1"
    and pol: "pd_Allow (evaluate (br_Policy ex_broker) (call_request second ex_root_claims (au_Call ex_authorize_pay)))"
    using ex_call_guards(2) by (simp_all add: call_guards_def del: ex_kinds)
  have store: "lookup (me_tokens ex_store2) ''r1'' = Some (ex_record_of ex_root_claims)" "me_revoked ex_store2 = []"
    "me_approvals ex_store2 = []" "me_total ex_store2 = []" "me_perScope ex_store2 = []"
    by (simp_all add: ex_store2_def new_memory_def)
  have "cm_MaxCalls ex_root_claims = 3" by code_simp
  then show ?thesis
    using ex_approval_for live svid m pol store
    unfolding authorize_exact [OF ex_broker_fields(2) ex_world2_inv]
    by (intro exI [of _ ex_root_claims] exI [of _ svid] exI [of _ 1])
      (auto simp: ex_world2_def approval_for_def consume_index_def int_at_def per_scope_def ex_pay_def)
qed

text \<open>
  Charging is exact: an allowed call adds one to the counter of every token of the lineage and to the
  counter of the one scope it used; a denied call adds nothing. Neither changes a token.
\<close>

theorem authorize_charges:
  assumes "br_Ops B = memory_ops" and "memory_inv (wd_Store w)" and "authorize E now B r w = (d, w')"
  shows "mem_get_token i (wd_Store w') = mem_get_token i (wd_Store w)
     \<and> int_at (me_total (wd_Store w')) i
         = int_at (me_total (wd_Store w)) i
           + (if dc_Allow d then int (count_list (lineage (dc_Claims d)) i) else 0)
     \<and> int_at (per_scope (wd_Store w') i) j
         = int_at (per_scope (wd_Store w) i) j
           + (if dc_Allow d \<and> i = dc_TokenID d \<and> j = consume_index (dc_Claims d) (dc_ScopeIndex d) then 1 else 0)"
proof -
  obtain s' where core: "authorize_core E now B r (wd_Store w) = (d, s')" and w': "wd_Store w' = s'"
    using assms(3) by (auto simp: authorize_def split: prod.splits)
  have inv: "sv_inv memory_view (wd_Store w)" using assms(2) by (simp add: memory_view_def)
  show ?thesis
  proof (cases "dc_Allow d")
    case True
    from mem.authorize_core_allowed_frame [OF inv assms(1) core True] w' show ?thesis
      by (auto simp: memory_view_def mem_get_token_def Let_def fun_eq_iff)
  next
    case False
    from mem.authorize_core_denied_frame [OF inv assms(1) core False] w' False show ?thesis
      by (auto simp: memory_view_def same_budgets_def mem_get_token_def fun_eq_iff)
  qed
qed

theorem authorize_charges_witness:
  "int_at (me_total (wd_Store (snd (authorize ex_env second ex_broker ex_authorize ex_world2)))) ''r1'' = 1"
proof -
  obtain d w' where a: "authorize ex_env second ex_broker ex_authorize ex_world2 = (d, w')" by fastforce
  have d: "dc_Allow d" "dc_Claims d = ex_kid_claims" using ex_decision(1) a by simp_all
  have "int_at (me_total (wd_Store ex_world2)) ''r1'' = 0"
    by (simp add: ex_world2_def ex_store2_def new_memory_def int_at_def)
  with authorize_charges [OF ex_broker_fields(2) ex_world2_inv(1) a, of "''r1''" 0] d a show ?thesis by simp
qed

text \<open>A scope of a live credential lies within a scope of the token it rests on, the one that is charged.\<close>

definition rests_on :: "'z chain_env_scheme \<Rightarrow> time \<Rightarrow> 's broker \<Rightarrow> claims \<Rightarrow> nat \<Rightarrow> call \<Rightarrow> string \<Rightarrow> claims \<Rightarrow> bool" where
  "rests_on E now B c k a raw b \<longleftrightarrow> well_signed E (sg_Pub (br_Signer B)) raw b \<and> cm_Kind b = ''capability'' \<and> unix now < cm_Expires b
     \<and> cm_ID c = cm_ID b \<and> lineage c = lineage b
     \<and> (let j = consume_index c (int k) in
        0 \<le> j \<and> j < int (length (cm_Scopes b)) \<and> scope_allows (cm_Scopes b ! nat j) a
        \<and> (sc_RequireApproval (cm_Scopes b ! nat j) \<longrightarrow> sc_RequireApproval (cm_Scopes c ! k)))"

lemma plain_rests_on:
  assumes "verify_kind E B tok ''capability'' now = (c, None)" and "cm_ScopeOrigins c = []"
    and "k < length (cm_Scopes c)" and "scope_allows (cm_Scopes c ! k) a"
  shows "rests_on E now B c k a tok c"
  using assms by (auto simp: rests_on_def verify_kind_None consume_index_def Let_def)

lemma chain_rests_on:
  assumes "chain_verify E (sg_Pub (br_Signer B)) ch now = Inr eff" and "cm_Kind (ef_Base eff) = ''capability''"
    and "list_all finite_block (ch_Blocks ch)" and "list_all scope_numeric (cm_Scopes (ef_Base eff))"
    and "k < length (ef_Scopes eff)" and "scope_allows (ef_Scopes eff ! k) a" and "clean_call a"
  shows "rests_on E now B ((ef_Base eff)\<lparr>cm_Scopes := ef_Scopes eff, cm_Expires := ef_Expires eff,
      cm_Cnf := ef_Cnf eff, cm_ScopeOrigins := ef_Origins eff\<rparr>) k a (ch_BaseToken ch) (ef_Base eff)"
proof -
  have base: "well_signed E (sg_Pub (br_Signer B)) (ch_BaseToken ch) (ef_Base eff)" "unix now < cm_Expires (ef_Base eff)"
    using chain_verify_base(1) [OF assms(1)] by (simp_all add: jwt_verify_ok_iff)
  have desc: "descends (ef_Base eff) eff"
    using chain_verify_descends [OF assms(1)] assms(3,4) by (simp add: list_all_iff)
  then have len: "length (ef_Origins eff) = length (ef_Scopes eff)" by (simp add: descends_def)
  then have "(ef_Scopes eff ! k, ef_Origins eff ! k) \<in> set (zip (ef_Scopes eff) (ef_Origins eff))"
    using assms(5) by (auto simp: set_zip)
  then have "0 \<le> ef_Origins eff ! k" "ef_Origins eff ! k < int (length (cm_Scopes (ef_Base eff)))"
    "scope_meet.narrower (ef_Scopes eff ! k) (cm_Scopes (ef_Base eff) ! nat (ef_Origins eff ! k))"
    using desc by (auto simp: descends_def)
  then show ?thesis
    using base assms(2,5-7) len
    by (auto simp: rests_on_def Let_def consume_index_def scope_meet.narrower_def budget_below_def)
qed

lemma live_rests_on:
  assumes "live_claims E now B tok = Some c" and "clean_call a" and "first_match (cm_Scopes c) a = int k"
    and "\<forall>ch. ce_unmarshal_chain E tok = Some ch \<longrightarrow> list_all finite_block (ch_Blocks ch)"
    and "\<forall>raw b. well_signed E (sg_Pub (br_Signer B)) raw b \<longrightarrow>
      list_all scope_numeric (cm_Scopes b) \<and> cm_ScopeOrigins b = []"
  shows "\<exists>raw b. rests_on E now B c k a raw b"
proof -
  have k: "k < length (cm_Scopes c)" "scope_allows (cm_Scopes c ! k) a"
    using first_match_nth [of "cm_Scopes c" a] assms(3) by simp_all
  show ?thesis
  proof (cases "looks_like_chain tok")
    case False
    then have "verify_kind E B tok ''capability'' now = (c, None)"
      using assms(1) by (auto simp: live_claims_def split: option.splits prod.splits)
    then show ?thesis using plain_rests_on k assms(5) verify_kind_None by blast
  next
    case True
    then obtain ch eff where ch: "ce_unmarshal_chain E tok = Some ch"
      "chain_verify E (sg_Pub (br_Signer B)) ch now = Inr eff" "cm_Kind (ef_Base eff) = ''capability''"
      and c: "c = (ef_Base eff)\<lparr>cm_Scopes := ef_Scopes eff, cm_Expires := ef_Expires eff,
                         cm_Cnf := ef_Cnf eff, cm_ScopeOrigins := ef_Origins eff\<rparr>"
      using assms(1) by (auto simp: live_claims_def split: option.splits sum.splits if_splits)
    have "list_all scope_numeric (cm_Scopes (ef_Base eff))"
      using chain_verify_base(1) [OF ch(2)] assms(5) by (fastforce simp: jwt_verify_ok_iff)
    then show ?thesis using chain_rests_on [OF ch(2,3)] assms(2,4) ch(1) k c by fastforce
  qed
qed




subsection \<open>Runs\<close>

text \<open>
  The budget of a token covers its whole subtree: over any sequence of broker operations, at any times,
  the allowed calls of a token and of all its delegates together, plain or attenuated offline,
  are at most the token's \<^verbatim>\<open>max_calls\<close>.
\<close>

theorem subtree_budget:
  assumes "br_Ops B = memory_ops" and "fresh_ids ps"
    and "broker_run E B ps ([], \<lparr>wd_Store = new_memory, wd_Ledger = l\<rparr>) = (lg, w)"
    and "mem_get_token a (wd_Store w) = Inr t"
  shows "count_log (call_under a) lg \<le> max 0 (tr_MaxCalls t)"
proof -
  obtain es where "mem.tracked E B (es @ []) lg w"
    using mem.broker_run_tracked [OF new_memory_tracked assms(1,2) _ assms(3)] new_memory_view by auto
  then show ?thesis
    using mem.broker_run_bounds(1) [of E B es lg w a t] assms(4)
    by (simp add: mem_get_token_def memory_view_def split: option.splits)
qed

theorem subtree_budget_witness:
  "count_log (call_under ''r1'') (fst ex_run3) = 1 \<and> count_log (call_under ''r1'') (fst ex_run3) \<le> max 0 3"
proof -
  have run: "broker_run ex_env ex_broker ex_ops ([], \<lparr>wd_Store = new_memory, wd_Ledger = []\<rparr>) = (fst ex_run3, snd ex_run3)"
    by (simp add: ex_run3_def)
  have "cm_MaxCalls ex_root_claims = 3" by code_simp
  then show ?thesis
    using subtree_budget [OF ex_broker_fields(2) ex_ops_fresh run ex_run3(2)] ex_run3(1) by simp
qed

text \<open>
  \<^bold>\<open>C9.\<close> An approval is spent by one call: over any sequence of broker operations, at most one allowed call
  that required an approval presented a given one.
\<close>

theorem approval_used_once:
  assumes "br_Ops B = memory_ops" and "fresh_ids ps"
    and "broker_run E B ps ([], \<lparr>wd_Store = new_memory, wd_Ledger = l\<rparr>) = (lg, w)"
  shows "count_log (call_approved_by t) lg \<le> 1"
proof -
  obtain es where "mem.tracked E B (es @ []) lg w"
    using mem.broker_run_tracked [OF new_memory_tracked assms(1,2) _ assms(3)] new_memory_view by auto
  then show ?thesis by (rule mem.broker_run_bounds)
qed

theorem approval_used_once_witness:
  "count_log (call_approved_by (ex_token ex_approval_claims)) (fst ex_run_pay) \<le> 1"
proof -
  have "broker_run ex_env ex_broker ex_ops_pay ([], \<lparr>wd_Store = new_memory, wd_Ledger = []\<rparr>) = (fst ex_run_pay, snd ex_run_pay)"
    by (simp add: ex_run_pay_def)
  moreover have "fresh_ids ex_ops_pay" by (simp add: fresh_ids_def ex_ops_pay_def op_ids_def List.map_filter_def)
  ultimately show ?thesis using approval_used_once [OF ex_broker_fields(2)] by blast
qed

text \<open>
  \<^bold>\<open>C3.\<close> Revocation is immediate and permanent for the whole subtree: after a successful revocation no call
  of the token or of any descendant is ever allowed again, whatever is minted, delegated or
  presented afterwards.
\<close>

theorem revocation_permanent:
  assumes "br_Ops B = memory_ops" and "fresh_ids (ps @ qs)"
    and "broker_run E B ps ([], \<lparr>wd_Store = new_memory, wd_Ledger = l\<rparr>) = (lg1, w1)"
    and "revoke_token E now B i why actor w1 = (None, w2)"
    and "broker_run E B qs ([], w2) = (lg2, w3)"
  shows "count_log (call_under i) lg2 = 0"
proof -
  have fresh: "fresh_ids ps" "fresh_ids qs" "set (op_ids ps) \<inter> set (op_ids qs) = {}"
    using assms(2) by (auto simp: fresh_ids_def)
  obtain es where t1: "mem.tracked E B (es @ []) lg1 w1"
    and tok1: "\<forall>j. j \<notin> set (op_ids ps) \<longrightarrow> sv_token memory_view (wd_Store w1) j = None"
    using mem.broker_run_tracked [OF new_memory_tracked assms(1) fresh(1) _ assms(3)] new_memory_view by auto
  obtain es' where t2: "mem.tracked E B (es' @ es @ []) lg1 w2"
    and tok2: "sv_token memory_view (wd_Store w2) = sv_token memory_view (wd_Store w1)"
    using mem.revoke_tracked [OF t1 assms(1), of now i why actor] assms(4) by auto
  have rev: "sv_revoked memory_view (wd_Store w2) i"
    using assms(1,4)
    by (auto simp: revoke_token_def memory_ops_def mem_get_token_def mem_revoke_def memory_view_def update_conv'
        split: option.splits)
  have new: "\<forall>j \<in> set (op_ids qs). sv_token memory_view (wd_Store w2) j = None"
    using tok1 tok2 fresh(3) by auto
  have "explains E (sg_Pub (br_Signer B)) (es' @ es @ []) []" by (simp add: explains_def)
  then have "mem.tracked E B (es' @ es @ []) [] w2" using t2 by (simp add: mem.tracked_def)
  from mem.broker_run_revoked [OF this assms(1) fresh(2) new rev assms(5)] show ?thesis by simp
qed

theorem revocation_permanent_witness:
  "count_log (call_under ''r1'') (fst (broker_run ex_env ex_broker [(second, OpAuthorize ex_authorize)]
     ([], snd (revoke_token ex_env 0 ex_broker ''r1'' ''lost'' ''ann'' (snd ex_run2))))) = 0"
proof -
  have run: "broker_run ex_env ex_broker [(0, OpMint ''r1'' ex_mint), (0, OpDelegate ''k1'' ex_delegate)]
      ([], \<lparr>wd_Store = new_memory, wd_Ledger = []\<rparr>) = (fst ex_run2, snd ex_run2)"
    by (simp add: ex_run2_def)
  have "mem_get_token ''r1'' (wd_Store (snd ex_run2)) = Inr (ex_record_of ex_root_claims)"
    by (simp add: ex_run2 ex_store2_def mem_get_token_def)
  then have rev: "revoke_token ex_env 0 ex_broker ''r1'' ''lost'' ''ann'' (snd ex_run2)
      = (None, snd (revoke_token ex_env 0 ex_broker ''r1'' ''lost'' ''ann'' (snd ex_run2)))"
    by (simp add: revoke_token_def memory_ops_def mem_revoke_def)
  have "fresh_ids ([(0, OpMint ''r1'' ex_mint), (0, OpDelegate ''k1'' ex_delegate)] @ [(second, OpAuthorize ex_authorize)])"
    by (auto simp: fresh_ids_def op_ids_def List.map_filter_def)
  from revocation_permanent [OF ex_broker_fields(2) this run rev prod.collapse [symmetric]] show ?thesis .
qed

subsection \<open>Approvals\<close>



subsection \<open>Delegation\<close>

text \<open>
  \<^bold>\<open>C10.\<close> A delegate is within its parent: the child's lineage is the parent's with the new id at its end, it
  acts for the same human, its depth is one more and within the parent's cap, its own cap is no
  larger, its budget is positive and within what the parent has left, it expires no later than
  the parent, and none of the parent's lineage was revoked. This is what the store records.
\<close>

theorem delegate_narrows:
  assumes "br_Ops B = memory_ops" and "memory_inv (wd_Store w)" and "lookup (me_revoked (wd_Store w)) [] = None"
    and "delegate E now B fresh r w = (Inr iss, w')" and "-62135596800 \<le> unix now"
  shows "\<exists>parent. live_claims E now B (dr_ParentToken r) = Some parent
     \<and> list_all (\<lambda>i. lookup (me_revoked (wd_Store w)) i = None) (lineage parent)
     \<and> (let c = is_Claims iss in
          lineage c = lineage parent @ [fresh] \<and> cm_Human c = cm_Human parent
          \<and> cm_Depth c = cm_Depth parent + 1 \<and> cm_Depth c \<le> cm_MaxDepth parent \<and> cm_MaxDepth c \<le> cm_MaxDepth parent
          \<and> 0 < cm_MaxCalls c \<and> cm_MaxCalls c + int_at (me_total (wd_Store w)) (cm_ID parent) \<le> cm_MaxCalls parent
          \<and> cm_Expires c \<le> cm_Expires parent \<and> cm_Expires c \<le> unix (now + cf_MaxTTL (br_Cfg B))
          \<and> map_option tr_MaxCalls (lookup (me_tokens (wd_Store w')) fresh) = Some (cm_MaxCalls c))"
proof -
  obtain parent csvid used per w1 where g: "delegate_guards E now B r parent csvid"
    and rev: "check_revoked B parent (wd_Store w) = None"
    and u: "so_Usage (br_Ops B) (cm_ID parent) (wd_Store w) = Inr (used, per)"
    and pos: "0 < cm_MaxCalls (granted_claims B now fresh r parent csvid used)"
    and p: "persist E B (granted_claims B now fresh r parent csvid used) w = (Inr iss, w1)"
    and w': "wd_Store w' = wd_Store w1"
    using delegate_Inr [OF assms(4)] by blast
  have live: "live_claims E now B (dr_ParentToken r) = Some parent" using g by (simp add: delegate_guards_def)
  obtain raw b where "unix now < cm_Expires parent" using live by (rule live_claims_base)
  then have ex: "cm_Expires parent \<noteq> -62135596800" using assms(5) by linarith
  have inv: "sv_inv memory_view (wd_Store w)" "\<not> sv_revoked memory_view (wd_Store w) []"
    using assms(2,3) by (simp_all add: memory_view_def)
  have rv: "list_all (\<lambda>i. lookup (me_revoked (wd_Store w)) i = None) (lineage parent)"
    using mem.check_revoked_clear [OF inv(1) assms(1) inv(2), of parent] rev by (simp add: memory_view_def list_all_iff)
  have used: "used = int_at (me_total (wd_Store w)) (cm_ID parent)"
    using u assms(1) by (simp add: memory_ops_def mem_usage_def)
  have tok: "lookup (me_tokens (wd_Store w')) fresh = Some (token_record_of (granted_claims B now fresh r parent csvid used)
      (case en_marshal_claims E (granted_claims B now fresh r parent csvid used) of None \<Rightarrow> [] | Some b \<Rightarrow> b))"
    using p w' assms(1) by (auto simp: persist_Inr memory_ops_def mem_put_token_def update_conv')
  have "is_Claims iss = granted_claims B now fresh r parent csvid used" using p by (auto simp: persist_Inr)
  moreover have "cm_MaxCalls (granted_claims B now fresh r parent csvid used) \<le> cm_MaxCalls parent - used"
    by (simp add: child_calls_le)
  moreover have "cm_Depth parent + 1 \<le> cm_MaxDepth parent" using g by (simp add: delegate_guards_def)
  moreover have "child_depth (cm_MaxDepth parent) (dr_MaxDepth r) \<le> cm_MaxDepth parent" by (simp add: child_depth_def)
  ultimately show ?thesis
    using live rv pos used tok granted_claims_expires [OF ex, of B now fresh r csvid used]
    by (intro exI [of _ parent]) (simp add: Let_def lineage_def)
qed

theorem delegate_narrows_witness:
  "cm_MaxCalls ex_kid_claims \<le> cm_MaxCalls ex_root_claims \<and> cm_Expires ex_kid_claims \<le> cm_Expires ex_root_claims"
proof -
  obtain w' where d: "delegate ex_env 0 ex_broker ''k1'' ex_delegate ex_world1
      = (Inr \<lparr>is_Token = ex_token ex_kid_claims, is_Claims = ex_kid_claims\<rparr>, w')"
    using ex_delegated(1) [of ex_world1] by (cases "delegate ex_env 0 ex_broker ''k1'' ex_delegate ex_world1") (simp add: ex_world1_def)
  have "live_claims ex_env 0 ex_broker (dr_ParentToken ex_delegate) = Some ex_root_claims"
    using ex_delegate_guards by (simp add: delegate_guards_def)
  moreover have "me_total (wd_Store ex_world1) = []" by (simp add: ex_world1_def ex_store1_def new_memory_def)
  ultimately show ?thesis
    using delegate_narrows [OF ex_broker_fields(2) ex_world1_inv d]
    by (auto simp: Let_def int_at_def unix_def)
qed

text \<open>
  \<^bold>\<open>C11.\<close> The child's scopes are the intersection: a clean JSON call matches a scope of the child exactly when
  it matches one of the parent and one of the request.
\<close>

theorem delegate_scopes_exact:
  assumes "delegate E now B fresh r w = (Inr iss, w')"
    and "live_claims E now B (dr_ParentToken r) = Some parent"
    and "list_all (\<lambda>s. scope_numeric s \<and> 0 < sc_MaxCalls s) (cm_Scopes parent)" and "list_all scope_numeric (dr_Scopes r)"
    and "clean_call a" and "no_nan_call a"
  shows "0 \<le> first_match (cm_Scopes (is_Claims iss)) a
     \<longleftrightarrow> 0 \<le> first_match (cm_Scopes parent) a \<and> 0 \<le> first_match (dr_Scopes r) a"
proof -
  obtain parent' csvid used w1 where g: "delegate_guards E now B r parent' csvid"
    and p: "persist E B (granted_claims B now fresh r parent' csvid used) w = (Inr iss, w1)"
    using delegate_Inr [OF assms(1)] by blast
  have "parent' = parent" using g assms(2) by (simp add: delegate_guards_def)
  then have "cm_Scopes (is_Claims iss) = attenuate (cm_Scopes parent) (dr_Scopes r)" using p by (auto simp: persist_Inr)
  moreover have "\<forall>s \<in> set (dr_Scopes r). 0 < sc_MaxCalls s"
    using g validate_scope_budget by (simp add: delegate_guards_def)
  then have "\<forall>s \<in> set (cm_Scopes parent) \<union> set (dr_Scopes r). scope_numeric s \<and> 0 < sc_MaxCalls s"
    using assms(3,4) by (auto simp: list_all_iff)
  ultimately show ?thesis unfolding first_match_ex using attenuate_allows [OF assms(5,6)] by simp
qed

theorem delegate_scopes_exact_witness:
  "0 \<le> first_match (cm_Scopes ex_root_claims) ex_call_read"
proof -
  obtain w' where d: "delegate ex_env 0 ex_broker ''k1'' ex_delegate ex_world1
      = (Inr \<lparr>is_Token = ex_token ex_kid_claims, is_Claims = ex_kid_claims\<rparr>, w')"
    using ex_delegated(1) [of ex_world1] by (cases "delegate ex_env 0 ex_broker ''k1'' ex_delegate ex_world1") (simp add: ex_world1_def)
  have l: "live_claims ex_env 0 ex_broker (dr_ParentToken ex_delegate) = Some ex_root_claims"
    using ex_delegate_guards by (simp add: delegate_guards_def)
  have n: "list_all (\<lambda>s. scope_numeric s \<and> 0 < sc_MaxCalls s) (cm_Scopes ex_root_claims)"
    "list_all scope_numeric (dr_Scopes ex_delegate0)" "clean_call ex_call_read" "no_nan_call ex_call_read"
    "first_match (cm_Scopes ex_kid_claims) ex_call_read = 0"
    by code_simp+
  have n2: "list_all scope_numeric (dr_Scopes ex_delegate)" using n(2) by (simp add: ex_delegate_def)
  from delegate_scopes_exact [OF d l n(1) n2 n(3,4)] n(5) show ?thesis by simp
qed


subsection \<open>Issuing root tokens\<close>

lemma fold_max: "fold max xs (m :: int) = Max (insert m (set xs))"
  by (metis Max.set_eq_fold list.simps(15))

text \<open>
  \<^bold>\<open>C8.\<close> A root token grants what was asked and permitted, no more: it is bound to the workload of a verified
  SVID and to a named human, its scopes are the requested ones, all valid and each resource
  permitted by the policy, its depth cap is at most the largest the configuration or the policy
  allows, its budget at most the sum of the scopes, its expiry at most the SVID's and the
  maximal lifetime.
\<close>

theorem mint_root_authority:
  assumes "br_Ops B = memory_ops" and "mint_root E now B fresh r w = (Inr iss, w')" and "-62135596800 \<le> unix now"
  shows "\<exists>svid. verify_kind E B (mr_SVID r) ''svid'' now = (svid, None)
     \<and> (let c = is_Claims iss; ds = mint_decisions B now (cm_Subject svid) (mr_Human r) (mr_Scopes r) in
          cm_Subject c = cm_Subject svid \<and> cm_Human c = mr_Human r \<and> mr_Human r \<noteq> []
          \<and> lineage c = [fresh] \<and> cm_Depth c = 0
          \<and> cm_Scopes c = mr_Scopes r \<and> mr_Scopes r \<noteq> [] \<and> list_all (\<lambda>s. validate_scope s = None) (mr_Scopes r)
          \<and> list_all pd_Allow ds \<and> cm_MaxDepth c \<le> Max (insert (cf_MaxDepth (br_Cfg B)) (set (map pd_AllowDepth ds)))
          \<and> cm_MaxCalls c \<le> sum_calls (mr_Scopes r)
          \<and> cm_Expires c \<le> cm_Expires svid \<and> cm_Expires c \<le> unix (now + cf_MaxTTL (br_Cfg B))
          \<and> map_option tr_MaxCalls (lookup (me_tokens (wd_Store w')) fresh) = Some (cm_MaxCalls c))"
proof -
  obtain svid w1 where g: "mint_guards E now B r svid"
    and p: "persist E B (mint_claims B now fresh r svid (mint_depth B r) (mint_limit r)) w = (Inr iss, w1)"
    and w': "wd_Store w' = wd_Store w1"
    using mint_root_Inr [OF assms(2)] by blast
  let ?c = "mint_claims B now fresh r svid (mint_depth B r) (mint_limit r)"
  have v: "verify_kind E B (mr_SVID r) ''svid'' now = (svid, None)" using g by (simp add: mint_guards_def)
  then have "cm_Expires svid \<noteq> -62135596800" using assms(3) by (simp add: verify_kind_None)
  note ex = mint_claims_expires [OF this, of B now fresh r "mint_depth B r" "mint_limit r"]
  have c: "is_Claims iss = ?c" using p by (auto simp: persist_Inr)
  have tok: "lookup (me_tokens (wd_Store w')) fresh
      = Some (token_record_of ?c (case en_marshal_claims E ?c of None \<Rightarrow> [] | Some b \<Rightarrow> b))"
    using p w' assms(1) by (auto simp: persist_Inr memory_ops_def mem_put_token_def update_conv')
  have lim: "mint_limit r \<le> sum_calls (mr_Scopes r)" by (auto simp: mint_limit_def Let_def)
  show ?thesis
    using g v ex c tok lim
    by (intro exI [of _ svid]) (simp add: mint_guards_def Let_def lineage_def fold_max)
qed

theorem mint_root_authority_witness:
  "cm_MaxCalls ex_root_claims \<le> sum_calls (mr_Scopes ex_mint) \<and> cm_Expires ex_root_claims \<le> cm_Expires ex_svid_a"
proof -
  obtain w' where m: "mint_root ex_env 0 ex_broker ''r1'' ex_mint ex_world1
      = (Inr \<lparr>is_Token = ex_token ex_root_claims, is_Claims = ex_root_claims\<rparr>, w')"
    using ex_minted(1) [of ex_world1] by (cases "mint_root ex_env 0 ex_broker ''r1'' ex_mint ex_world1") simp
  have "verify_kind ex_env ex_broker (mr_SVID ex_mint) ''svid'' 0 = (ex_svid_a, None)"
    using ex_mint_guards(1) by (simp add: mint_guards_def)
  then show ?thesis
    using mint_root_authority [OF ex_broker_fields(2) m] by (auto simp: Let_def unix_def)
qed

lemma wrap64_wrap: "wrap64 (wrap64 a + b) = wrap64 (a + b)"
  by (simp add: wrap64_word)

lemma sum_calls_wrap: "sum_calls ss = wrap64 (sum_list (map sc_MaxCalls ss))"
proof -
  have "fold (\<lambda>x n. wrap64 (n + sc_MaxCalls x)) ss (wrap64 n) = wrap64 (n + sum_list (map sc_MaxCalls ss))" for n
    by (induction ss arbitrary: n) (simp_all add: wrap64_wrap add.assoc)
  from this [of 0] show ?thesis by (simp add: sum_calls_def wrap64_def)
qed



subsection \<open>Records\<close>



end
