(* ===== verification/Token_Types.thy ===== *)
theory Token_Types
  imports Broker_Properties
begin

section \<open>The type of a token\<close>

text \<open>
  A typed token is a capability with a human, valid scopes within the sum of whose budgets its own
  lies, and a lineage that its depth counts, its parent ends and no id repeats. The tokens a broker
  issues are a rule-based judgement, \<open>broker_issued\<close>: a root, or a delegate of a token it issued,
  presented as such or below blocks of its holder. Every token it issues is typed.
\<close>

subsection \<open>Types\<close>

definition valid_scopes :: "scope list \<Rightarrow> bool" where
  "valid_scopes = list_all (\<lambda>s. validate_scope s = None)"

definition token_typed :: "claims \<Rightarrow> bool" where
  "token_typed c \<longleftrightarrow> cm_Kind c = ''capability'' \<and> cm_Human c \<noteq> []
     \<and> cm_Depth c = int (length (cm_Chain c)) \<and> cm_Parent c = (if cm_Chain c = [] then [] else last (cm_Chain c))
     \<and> distinct (lineage c) \<and> [] \<notin> set (lineage c)
     \<and> cm_Scopes c \<noteq> [] \<and> valid_scopes (cm_Scopes c) \<and> cm_MaxCalls c \<le> sum_calls (cm_Scopes c)"

subsection \<open>Valid scopes\<close>

definition valid_arg :: "arg_constraint \<Rightarrow> bool" where
  "valid_arg c \<longleftrightarrow> ac_Pattern c = [] \<or> validate_pattern (ac_Pattern c) = None"

lemma validate_scope_None:
  "validate_scope s = None \<longleftrightarrow> validate_pattern (sc_Tool s) = None \<and> sc_Resources s \<noteq> []
     \<and> (\<forall>p \<in> set (sc_Resources s). validate_pattern p = None) \<and> list_all (valid_arg \<circ> snd) (sc_Args s) \<and> 0 < sc_MaxCalls s"
  by (fastforce simp: validate_scope_def valid_arg_def list_all_iff not_le
      split: option.splits if_splits prod.splits dest: first_err_Some)

lemma valid_arg_intersect: "valid_arg a \<Longrightarrow> valid_arg b \<Longrightarrow> valid_arg (intersect_arg a b)"
  by (auto simp: valid_arg_def intersect_arg_def fold_pattern_def intersect_pattern_def
      split: option.splits dest: validate_pattern_intersect)

lemma valid_merge_arg:
  assumes "list_all (valid_arg \<circ> snd) m" and "valid_arg (snd nc)"
  shows "list_all (valid_arg \<circ> snd) (merge_arg nc m)"
proof -
  have upd: "list_all (valid_arg \<circ> snd) (AList.update k v m)" if "valid_arg v" for k v
    using assms(1) that by (induction m) auto
  show ?thesis
  proof (cases "lookup m (fst nc)")
    case None
    with upd [OF assms(2)] show ?thesis by (simp add: merge_arg_def)
  next
    case (Some p)
    then have "valid_arg p" using assms(1) by (metis list_all_iff comp_apply map_of_SomeD snd_conv)
    with upd [OF valid_arg_intersect [OF _ assms(2)]] Some show ?thesis by (simp add: merge_arg_def)
  qed
qed

lemma valid_merge_args:
  "list_all (valid_arg \<circ> snd) a \<Longrightarrow> list_all (valid_arg \<circ> snd) b \<Longrightarrow> list_all (valid_arg \<circ> snd) (merge_args a b)"
  unfolding merge_args_def by (induction b arbitrary: a) (auto intro!: valid_merge_arg)

lemma validate_scope_intersect:
  assumes "scope_intersect a b = Some s" and "validate_scope a = None" and "validate_scope b = None"
  shows "validate_scope s = None"
proof -
  note s = scope_intersect_SomeD [OF assms(1)]
  have "validate_pattern p = None" if "p \<in> set (sc_Resources s)" for p
    using that assms(2,3) unfolding s(2) set_intersect_resources
    by (auto simp: validate_scope_None intro: validate_pattern_intersect)
  moreover have "validate_pattern (sc_Tool s) = None"
    using validate_pattern_intersect [OF s(1)] assms(2,3) by (simp add: validate_scope_None)
  moreover have "list_all (valid_arg \<circ> snd) (sc_Args s)"
    using valid_merge_args assms(2,3) by (simp add: validate_scope_None s(4))
  ultimately show ?thesis using s(3,7) by (simp add: validate_scope_None)
qed

lemma valid_attenuate: "valid_scopes parent \<Longrightarrow> valid_scopes requested \<Longrightarrow> valid_scopes (attenuate parent requested)"
  by (auto simp: valid_scopes_def list_all_iff elim!: attenuate_memberE intro: validate_scope_intersect)

lemma valid_wire_scopes: "valid_scopes (map wire_scope ss) = valid_scopes ss"
  by (simp add: valid_scopes_def list.pred_map list_all_iff validate_scope_None wire_scope_def valid_arg_def
      wire_constraint_def split_beta)

lemma sum_calls_wire: "sum_calls (map wire_scope ss) = sum_calls ss"
  by (simp add: sum_calls_def foldl_map fold_map comp_def)

lemma token_typed_wire: "token_typed (wire_claims c) = token_typed c"
  by (simp add: token_typed_def wire_claims_def lineage_def valid_wire_scopes sum_calls_wire)

lemma lineage_wire: "lineage (wire_claims c) = lineage c"
  by (simp add: lineage_def wire_claims_def)

subsection \<open>Issued tokens\<close>

text \<open>The token a presented credential rests on, and credentials whose blocks hold valid scopes.\<close>

definition base_token :: "'z chain_env_scheme \<Rightarrow> string \<Rightarrow> string" where
  "base_token E tok =
     (if looks_like_chain tok then (case ce_unmarshal_chain E tok of None \<Rightarrow> [] | Some ch \<Rightarrow> ch_BaseToken ch) else tok)"

definition valid_block :: "block \<Rightarrow> bool" where
  "valid_block b \<longleftrightarrow> (case bk_Scopes b of None \<Rightarrow> True | Some ss \<Rightarrow> valid_scopes ss)"

definition valid_credential :: "'z chain_env_scheme \<Rightarrow> string \<Rightarrow> bool" where
  "valid_credential E tok \<longleftrightarrow> looks_like_chain tok \<longrightarrow>
     (case ce_unmarshal_chain E tok of None \<Rightarrow> True | Some ch \<Rightarrow> list_all valid_block (ch_Blocks ch))"

text \<open>
  What a broker issues over time, whatever happens to its store between the operations; \<^verbatim>\<open>NewID\<close>
  draws an id that is neither empty nor in the lineage.
\<close>

inductive broker_issued :: "'z broker_env_scheme \<Rightarrow> 's broker \<Rightarrow> issued \<Rightarrow> bool" for E :: "'z broker_env_scheme" and B :: "'s broker" where
  issued_root: "mint_root E now B fresh r w = (Inr iss, w') \<Longrightarrow> fresh \<noteq> [] \<Longrightarrow> broker_issued E B iss"
| issued_child: "broker_issued E B p \<Longrightarrow> base_token E (dr_ParentToken r) = is_Token p \<Longrightarrow>
    valid_credential E (dr_ParentToken r) \<Longrightarrow> delegate E now B fresh r w = (Inr iss, w') \<Longrightarrow>
    fresh \<notin> set ([] # lineage (is_Claims p)) \<Longrightarrow> broker_issued E B iss"

lemma issued_signed: "broker_issued E B iss \<Longrightarrow> jwt_sign E (br_Signer B) (is_Claims iss) = Some (is_Token iss)"
  by (induction rule: broker_issued.induct) (auto simp: persist_Inr dest!: mint_root_Inr delegate_Inr)

lemma mint_root_typed:
  assumes "mint_root E now B fresh r w = (Inr iss, w')" and "fresh \<noteq> []"
  shows "token_typed (is_Claims iss)"
proof -
  obtain svid w1 where g: "mint_guards E now B r svid"
    and "persist E B (mint_claims B now fresh r svid (mint_depth B r) (mint_limit r)) w = (Inr iss, w1)"
    using mint_root_Inr [OF assms(1)] by blast
  then have "is_Claims iss = mint_claims B now fresh r svid (mint_depth B r) (mint_limit r)" by (auto simp: persist_Inr)
  moreover have "mint_limit r \<le> sum_calls (mr_Scopes r)" by (simp add: mint_limit_def Let_def)
  ultimately show ?thesis
    using g assms(2) by (simp add: token_typed_def mint_guards_def lineage_def valid_scopes_def mint_claims_def zero_claims_def)
qed

text \<open>A chain narrows the scopes and the expiry of its base; with valid blocks it stays typed but for the budget.\<close>

lemma verify_blocks_valid:
  "verify_blocks E i bs (eff, prev) = Inr (eff', prev') \<Longrightarrow> list_all valid_block bs \<Longrightarrow>
     length (ef_Origins eff) = length (ef_Scopes eff) \<Longrightarrow> valid_scopes (ef_Scopes eff) \<Longrightarrow> valid_scopes (ef_Scopes eff')"
proof (induction bs arbitrary: i eff prev)
  case (Cons b bs)
  obtain eff1 prev1 where s: "verify_block E i b (eff, prev) = Inr (eff1, prev1)"
    using Cons.prems(1) by (auto split: sum.splits)
  have "length (ef_Origins eff1) = length (ef_Scopes eff1) \<and> valid_scopes (ef_Scopes eff1)"
  proof (cases "bk_Scopes b")
    case None
    then show ?thesis using verify_block_InrD(6) [OF s] Cons.prems(3,4) by simp
  next
    case (Some req)
    then have a: "attenuate_with_origin (ef_Scopes eff) (ef_Origins eff) req = (ef_Scopes eff1, ef_Origins eff1)"
      using verify_block_InrD(6) [OF s] by simp
    then have "ef_Scopes eff1 = attenuate (ef_Scopes eff) req"
      using fst_attenuate_with_origin [of "ef_Scopes eff" "ef_Origins eff" req] Cons.prems(3) by simp
    then show ?thesis using attenuate_with_origin_zip [OF a] Cons.prems(2,4) Some valid_attenuate by (simp add: valid_block_def)
  qed
  with Cons s show ?case by simp
qed simp

lemma live_claims_typed:
  assumes "live_claims E now B tok = Some c" and "well_signed E (sg_Pub (br_Signer B)) (base_token E tok) b"
    and "valid_credential E tok" and "valid_scopes (cm_Scopes b)"
  shows "same_bearer b c \<and> valid_scopes (cm_Scopes c)"
proof (cases "looks_like_chain tok")
  case True
  then obtain ch eff where ch: "ce_unmarshal_chain E tok = Some ch" "chain_verify E (sg_Pub (br_Signer B)) ch now = Inr eff"
    and c: "c = (ef_Base eff)\<lparr>cm_Scopes := ef_Scopes eff, cm_Expires := ef_Expires eff,
                         cm_Cnf := ef_Cnf eff, cm_ScopeOrigins := ef_Origins eff\<rparr>"
    using assms(1) by (auto simp: live_claims_def split: option.splits sum.splits if_splits)
  note v = chain_verify_base [OF ch(2)]
  have "base_token E tok = ch_BaseToken ch" using True ch(1) by (simp add: base_token_def)
  then have b: "ef_Base eff = b" using v(1) assms(2) well_signed_unique by (fastforce simp: jwt_verify_ok_iff)
  obtain sig prev where vb: "verify_blocks E 0 (ch_Blocks ch) (base_effective b, sig) = Inr (eff, prev)"
    using v(2) b by blast
  have "valid_scopes (ef_Scopes eff)"
    using verify_blocks_valid [OF vb] assms(3,4) True ch(1) by (simp add: valid_credential_def base_effective_def)
  then show ?thesis by (simp add: c b same_bearer_def)
next
  case False
  then have "verify_kind E B tok ''capability'' now = (c, None)" "base_token E tok = tok"
    using assms(1) by (auto simp: live_claims_def base_token_def split: option.splits prod.splits)
  then have "c = b" using assms(2) well_signed_unique by (fastforce simp: verify_kind_None)
  then show ?thesis using assms(4) by (simp add: same_bearer_def)
qed

lemma delegate_typed:
  assumes "delegate E now B fresh r w = (Inr iss, w')" and "well_signed E (sg_Pub (br_Signer B)) (base_token E (dr_ParentToken r)) b"
    and "valid_credential E (dr_ParentToken r)" and "token_typed b" and "fresh \<notin> set ([] # lineage b)"
  shows "token_typed (is_Claims iss)"
proof -
  obtain parent csvid used w1 where g: "delegate_guards E now B r parent csvid"
    and p: "persist E B (granted_claims B now fresh r parent csvid used) w = (Inr iss, w1)"
    using delegate_Inr [OF assms(1)] by blast
  have c: "is_Claims iss = granted_claims B now fresh r parent csvid used" using p by (auto simp: persist_Inr)
  have live: "live_claims E now B (dr_ParentToken r) = Some parent" using g by (simp add: delegate_guards_def)
  have "valid_scopes (cm_Scopes b)" using assms(4) by (simp add: token_typed_def)
  from live_claims_typed [OF live assms(2,3) this]
  have pb: "same_bearer b parent" "valid_scopes (cm_Scopes parent)" by blast+
  have same: "lineage parent = lineage b" "cm_Human parent = cm_Human b" "cm_Depth parent = cm_Depth b" "cm_ID parent = cm_ID b"
    using same_bearerD [OF pb(1)] by simp_all
  have "valid_scopes (dr_Scopes r)" using g by (simp add: delegate_guards_def valid_scopes_def list_all_iff)
  then have "valid_scopes (attenuate (cm_Scopes parent) (dr_Scopes r))" using pb(2) by (rule valid_attenuate [rotated])
  moreover have "attenuate (cm_Scopes parent) (dr_Scopes r) \<noteq> []" using g by (simp add: delegate_guards_def)
  moreover have "cm_Chain (is_Claims iss) = lineage b" "cm_ID (is_Claims iss) = fresh" by (simp_all add: c same)
  moreover have "cm_Parent (is_Claims iss) = last (lineage b)" by (simp add: c same lineage_def)
  moreover have "cm_Depth (is_Claims iss) = int (length (lineage b))"
    using assms(4) by (simp add: c same token_typed_def lineage_def)
  ultimately show ?thesis
    using assms(4,5) child_calls_le(3) by (auto simp: token_typed_def lineage_def c same)
qed

subsection \<open>Properties\<close>



end
