(* ===== verification/Store_Postgres.thy ===== *)
theory Store_Postgres
  imports Store_Memory
begin

section \<open>The Postgres store (\<^verbatim>\<open>internal/store/postgres.go\<close>)\<close>

text \<open>
  The tables of the schema as a record, a row of \<^verbatim>\<open>warrant_tokens\<close> as a record of its columns, and
  one definition per method, which does what its SQL statements say: a primary key admits one row
  per key, \<^verbatim>\<open>ON CONFLICT\<close> decides what a second one does, \<^verbatim>\<open>INT\<close> columns hold 32 bits, \<^verbatim>\<open>NULL\<close>
  equals nothing, and the transaction of \<^verbatim>\<open>Consume\<close> is rolled back on every early return. Two
  things of the database are left open: \<^verbatim>\<open>jsonb\<close> (the parameter \<open>J\<close>: the spelling in which the
  column gives a document back, \<^const>\<open>None\<close> for text that is no JSON) and \<^verbatim>\<open>now()\<close> (the field
  \<open>pg_now\<close>). A lost connection, after which every method returns an error, is not modelled, and
  strings are assumed to be text the database takes (UTF-8 without a zero byte).

  The store meets the contract \<open>token_store\<close>, and behaves as the in-memory store does on
  every history the broker produces.
\<close>

subsection \<open>The schema\<close>

record token_row =
  ro_id :: string
  ro_parent :: "string option"
  ro_parent_actor :: "string option"
  ro_goal_id :: "string option"
  ro_subject :: string
  ro_human :: string
  ro_depth :: int
  ro_max_calls :: int
  ro_scope_limits :: "int list"
  ro_expires :: time
  ro_claims :: string

record postgres =
  pg_workloads :: "workload gomap"
  pg_tokens :: "token_row list"
  pg_revocations :: "string gomap"
  pg_counters :: "((string \<times> int) \<times> int) list"
  pg_approvals :: "time gomap"
  pg_now :: time

definition new_postgres :: "time \<Rightarrow> postgres" where
  "new_postgres t = \<lparr>pg_workloads = [], pg_tokens = [], pg_revocations = [], pg_counters = [],
     pg_approvals = [], pg_now = t\<rparr>"

definition totalIdx :: int where
  "totalIdx = -1"

text \<open>The range of an \<^verbatim>\<open>INT\<close> column, and the precision of a \<^verbatim>\<open>TIMESTAMPTZ\<close>, a microsecond.\<close>

definition fits_int4 :: "int \<Rightarrow> bool" where
  "fits_int4 n \<longleftrightarrow> - (2 ^ 31) \<le> n \<and> n < 2 ^ 31"

definition timestamptz :: "time \<Rightarrow> time" where
  "timestamptz t = t div 1000 * 1000"

text \<open>A Go string into a nullable column, and \<^verbatim>\<open>COALESCE(column,'')\<close>.\<close>

definition nullable :: "string \<Rightarrow> string option" where
  "nullable s = (if s = [] then None else Some s)"

definition coalesce :: "string option \<Rightarrow> string" where
  "coalesce x = (case x of None \<Rightarrow> [] | Some s \<Rightarrow> s)"

lemma coalesce_nullable [simp]: "coalesce (nullable s) = s"
  by (simp add: coalesce_def nullable_def)

subsection \<open>Workloads and tokens\<close>

definition pg_put_workload :: "workload \<Rightarrow> postgres \<Rightarrow> store_err option \<times> postgres" where
  "pg_put_workload w p =
     (None, p\<lparr>pg_workloads := AList.update (wl_Name w)
        (case lookup (pg_workloads p) (wl_Name w) of
           None \<Rightarrow> w\<lparr>wl_CreatedAt := pg_now p\<rparr>
         | Some old \<Rightarrow> old\<lparr>wl_SecretHash := wl_SecretHash w\<rparr>) (pg_workloads p)\<rparr>)"

definition pg_get_workload :: "string \<Rightarrow> postgres \<Rightarrow> store_err + workload" where
  "pg_get_workload n p = (case lookup (pg_workloads p) n of None \<Rightarrow> Inl ErrNotFound | Some w \<Rightarrow> Inr w)"

definition find_row :: "postgres \<Rightarrow> string \<Rightarrow> token_row option" where
  "find_row p i = find (\<lambda>r. ro_id r = i) (pg_tokens p)"

text \<open>The \<^verbatim>\<open>INSERT\<close> fails on a duplicate id, a number an \<^verbatim>\<open>INT\<close> cannot hold and claims that are no JSON.\<close>

definition pg_put_token :: "(string \<Rightarrow> string option) \<Rightarrow> token_record \<Rightarrow> postgres \<Rightarrow> store_err option \<times> postgres" where
  "pg_put_token J t p =
     (case J (tr_Claims t) of
        None \<Rightarrow> (Some ErrDatabase, p)
      | Some claims \<Rightarrow>
          if \<not> list_all fits_int4 (tr_Depth t # tr_MaxCalls t # tr_ScopeLimits t) \<or> find_row p (tr_ID t) \<noteq> None
          then (Some ErrDatabase, p)
          else (None, p\<lparr>pg_tokens := pg_tokens p @
            [\<lparr>ro_id = tr_ID t, ro_parent = nullable (tr_Parent t), ro_parent_actor = nullable (tr_ParentActor t),
              ro_goal_id = nullable (tr_GoalID t), ro_subject = tr_Subject t, ro_human = tr_Human t,
              ro_depth = tr_Depth t, ro_max_calls = tr_MaxCalls t, ro_scope_limits = tr_ScopeLimits t,
              ro_expires = timestamptz (tr_Expires t), ro_claims = claims\<rparr>]\<rparr>))"

definition scan_tok :: "token_row \<Rightarrow> token_record" where
  "scan_tok r =
     \<lparr>tr_ID = ro_id r, tr_Parent = coalesce (ro_parent r), tr_ParentActor = coalesce (ro_parent_actor r),
      tr_GoalID = coalesce (ro_goal_id r), tr_Subject = ro_subject r, tr_Human = ro_human r,
      tr_Depth = ro_depth r, tr_MaxCalls = ro_max_calls r, tr_ScopeLimits = ro_scope_limits r,
      tr_Expires = ro_expires r, tr_Claims = ro_claims r\<rparr>"

definition pg_get_token :: "string \<Rightarrow> postgres \<Rightarrow> store_err + token_record" where
  "pg_get_token i p = (case find_row p i of None \<Rightarrow> Inl ErrNotFound | Some r \<Rightarrow> Inr (scan_tok r))"

text \<open>The rows stand in the order of their \<^verbatim>\<open>created_at\<close>.\<close>

definition pg_children :: "string \<Rightarrow> postgres \<Rightarrow> store_err + token_record list" where
  "pg_children i p = Inr (map scan_tok (filter (\<lambda>r. ro_parent r = Some i) (pg_tokens p)))"

subsection \<open>Revocations and approvals\<close>

definition insert_new :: "string \<Rightarrow> 'v \<Rightarrow> 'v gomap \<Rightarrow> 'v gomap" where
  "insert_new k v m = (if lookup m k = None then AList.update k v m else m)"

definition pg_revoke :: "string \<Rightarrow> string \<Rightarrow> postgres \<Rightarrow> store_err option \<times> postgres" where
  "pg_revoke i reason p = (None, p\<lparr>pg_revocations := insert_new i reason (pg_revocations p)\<rparr>)"

definition pg_first_revoked :: "string list \<Rightarrow> postgres \<Rightarrow> store_err + string" where
  "pg_first_revoked is p =
     (let hit = filter (\<lambda>(i, _). i \<in> set is) (pg_revocations p) in Inr (first_in hit is))"

definition pg_use_approval :: "string \<Rightarrow> time \<Rightarrow> postgres \<Rightarrow> (store_err + bool) \<times> postgres" where
  "pg_use_approval i expires p =
     (Inr (lookup (pg_approvals p) i = None),
      p\<lparr>pg_approvals := insert_new i (timestamptz expires) (pg_approvals p)\<rparr>)"

subsection \<open>Budgets\<close>

text \<open>
  \<^verbatim>\<open>Consume\<close>: lock the rows of the lineage in the order of their ids and read the limits, check
  the scope and every token of the lineage, then add one to each counter.
\<close>

definition lock_order :: "string list \<Rightarrow> string list" where
  "lock_order lineage = sort lineage"

fun pg_lock :: "postgres \<Rightarrow> string \<Rightarrow> string list \<Rightarrow> int gomap \<times> int list \<Rightarrow> store_err + int gomap \<times> int list" where
  "pg_lock p i [] acc = Inr acc"
| "pg_lock p i (a # locked) (limits, scopeLimits) =
     (case find_row p a of
        None \<Rightarrow> Inl ErrNotFound
      | Some r \<Rightarrow> pg_lock p i locked
          (AList.update a (ro_max_calls r) limits, if a = i then ro_scope_limits r else scopeLimits))"

definition check_limit :: "postgres \<Rightarrow> int gomap \<Rightarrow> string \<Rightarrow> store_err option" where
  "check_limit p limits a =
     (if int_at limits a \<le> int_at (pg_counters p) (a, totalIdx)
      then Some (ErrExhausted (''token max_calls of '' @ a)) else None)"

text \<open>The upsert \<^verbatim>\<open>inc\<close>; an \<^verbatim>\<open>INT\<close> that overflows is an error of the statement.\<close>

definition pg_inc :: "string \<times> int \<Rightarrow> ((string \<times> int) \<times> int) list \<Rightarrow> ((string \<times> int) \<times> int) list option" where
  "pg_inc key c =
     (let n = int_at c key + 1 in if fits_int4 n then Some (AList.update key n c) else None)"

fun pg_inc_all :: "(string \<times> int) list \<Rightarrow> ((string \<times> int) \<times> int) list \<Rightarrow> ((string \<times> int) \<times> int) list option" where
  "pg_inc_all [] c = Some c"
| "pg_inc_all (key # keys) c = (case pg_inc key c of None \<Rightarrow> None | Some c' \<Rightarrow> pg_inc_all keys c')"

definition pg_consume :: "string \<Rightarrow> int \<Rightarrow> string list \<Rightarrow> postgres \<Rightarrow> store_err option \<times> postgres" where
  "pg_consume i k lineage p =
     (case pg_lock p i (lock_order lineage) ([], []) of
        Inl e \<Rightarrow> (Some e, p)
      | Inr (limits, scopeLimits) \<Rightarrow>
          if k < 0 \<or> int (length scopeLimits) \<le> k
          then (Some (ErrExhausted ''scope index out of range''), p)
          else if scopeLimits ! nat k \<le> int_at (pg_counters p) (i, k)
          then (Some (ErrExhausted ''scope max_calls''), p)
          else
            (case first_err (check_limit p limits) lineage of
               Some e \<Rightarrow> (Some e, p)
             | None \<Rightarrow>
                 (case pg_inc_all (map (\<lambda>a. (a, totalIdx)) lineage @ [(i, k)]) (pg_counters p) of
                    None \<Rightarrow> (Some ErrDatabase, p)
                  | Some c \<Rightarrow> (None, p\<lparr>pg_counters := c\<rparr>))))"

definition pg_usage :: "string \<Rightarrow> postgres \<Rightarrow> store_err + int \<times> (int \<times> int) list" where
  "pg_usage i p =
     (let rows = map (\<lambda>((_, k), n). (k, n)) (filter (\<lambda>((a, _), _). a = i) (pg_counters p))
      in Inr (int_at rows totalIdx, filter (\<lambda>(k, _). k \<noteq> totalIdx) rows))"

definition postgres_ops :: "(string \<Rightarrow> string option) \<Rightarrow> postgres store_ops" where
  "postgres_ops J = \<lparr>so_PutWorkload = pg_put_workload, so_GetWorkload = pg_get_workload,
     so_PutToken = pg_put_token J, so_GetToken = pg_get_token, so_Children = pg_children,
     so_Revoke = pg_revoke, so_FirstRevoked = pg_first_revoked, so_Consume = pg_consume,
     so_Usage = pg_usage, so_UseApproval = pg_use_approval\<rparr>"

subsection \<open>The contract\<close>

definition row_ok :: "token_row \<Rightarrow> bool" where
  "row_ok r \<longleftrightarrow> ro_parent r \<noteq> Some [] \<and> list_all fits_int4 (ro_max_calls r # ro_scope_limits r)"

definition postgres_inv :: "postgres \<Rightarrow> bool" where
  "postgres_inv p \<longleftrightarrow> distinct (map ro_id (pg_tokens p)) \<and> list_all row_ok (pg_tokens p)
     \<and> (\<forall>key. 0 \<le> int_at (pg_counters p) key)"

definition postgres_view :: "postgres store_view" where
  "postgres_view = \<lparr>sv_inv = postgres_inv, sv_token = (\<lambda>p i. map_option scan_tok (find_row p i)),
     sv_calls = (\<lambda>p i. int_at (pg_counters p) (i, totalIdx)),
     sv_scope_calls = (\<lambda>p i k. if k = totalIdx then 0 else int_at (pg_counters p) (i, k)),
     sv_revoked = (\<lambda>p i. lookup (pg_revocations p) i \<noteq> None),
     sv_used = (\<lambda>p i. lookup (pg_approvals p) i \<noteq> None)\<rparr>"

lemma scan_tok_simps [simp]:
  "tr_ID (scan_tok r) = ro_id r" "tr_Parent (scan_tok r) = coalesce (ro_parent r)"
  "tr_MaxCalls (scan_tok r) = ro_max_calls r" "tr_ScopeLimits (scan_tok r) = ro_scope_limits r"
  by (simp_all add: scan_tok_def)

lemma unix_timestamptz [simp]: "unix (timestamptz t) = unix t"
  by (simp add: unix_def timestamptz_def second_def zdiv_zmult2_eq [of 1000 _ 1000000, simplified])

lemma lookup_insert_new: "lookup (insert_new k v m) i = (if i = k \<and> lookup m k = None then Some v else lookup m i)"
  by (simp add: insert_new_def update_conv')

lemma find_row_id: "find_row p i = Some r \<Longrightarrow> ro_id r = i \<and> r \<in> set (pg_tokens p)"
  by (auto simp: find_row_def find_Some_iff)

lemma find_row_None: "find_row p i = None \<longleftrightarrow> i \<notin> ro_id ` set (pg_tokens p)"
  by (auto simp: find_row_def find_None_iff)

lemma find_append: "find P (xs @ ys) = (case find P xs of None \<Rightarrow> find P ys | Some x \<Rightarrow> Some x)"
  by (induction xs) auto

lemma find_row_member:
  assumes "distinct (map ro_id (pg_tokens p))" and "r \<in> set (pg_tokens p)"
  shows "find_row p (ro_id r) = Some r"
proof -
  have "distinct (map ro_id rs) \<Longrightarrow> r \<in> set rs \<Longrightarrow> find (\<lambda>x. ro_id x = ro_id r) rs = Some r" for rs
    by (induction rs) (auto simp: rev_image_eqI)
  with assms show ?thesis by (simp add: find_row_def)
qed

lemma find_row_ok: "postgres_inv p \<Longrightarrow> find_row p i = Some r \<Longrightarrow> row_ok r"
  using find_row_id [of p i r] by (auto simp: postgres_inv_def list_all_iff)

text \<open>The locks are taken, and the limits read, exactly when every row is there; the order is immaterial.\<close>

lemma pg_lock_Inl: "pg_lock p i ls acc = Inl e \<Longrightarrow> e = ErrNotFound \<and> (\<exists>a \<in> set ls. find_row p a = None)"
  by (induction p i ls acc rule: pg_lock.induct) (auto split: option.splits)

lemma pg_lock_Inr:
  "pg_lock p i ls (l0, s0) = Inr (limits, sl) \<Longrightarrow>
     (\<forall>a \<in> set ls. \<exists>r. find_row p a = Some r \<and> int_at limits a = ro_max_calls r)
     \<and> (\<forall>a. a \<notin> set ls \<longrightarrow> int_at limits a = int_at l0 a)
     \<and> sl = (if i \<in> set ls then (case find_row p i of Some r \<Rightarrow> ro_scope_limits r | None \<Rightarrow> []) else s0)"
proof (induction ls arbitrary: l0 s0)
  case (Cons a ls)
  from Cons.prems obtain r where r: "find_row p a = Some r"
    and lock: "pg_lock p i ls (AList.update a (ro_max_calls r) l0, if a = i then ro_scope_limits r else s0) = Inr (limits, sl)"
    by (auto split: option.splits)
  from Cons.IH [OF lock] r show ?case
    by (auto simp: int_at_update)
qed simp

lemma pg_lock_complete:
  "\<forall>a \<in> set ls. find_row p a \<noteq> None \<Longrightarrow> \<exists>limits sl. pg_lock p i ls acc = Inr (limits, sl)"
proof (cases "pg_lock p i ls acc")
  case (Inl e)
  assume "\<forall>a \<in> set ls. find_row p a \<noteq> None"
  with pg_lock_Inl [OF Inl] show ?thesis by blast
qed auto

text \<open>The increments add up, or one overflows and none is kept.\<close>

lemma pg_inc_all_Some:
  "pg_inc_all keys c = Some c' \<Longrightarrow> int_at c' key = int_at c key + int (count_list keys key)"
  by (induction keys arbitrary: c)
    (auto simp: pg_inc_def Let_def int_at_update split: option.splits if_splits)

lemma pg_inc_all_complete:
  "distinct keys \<Longrightarrow> \<forall>key \<in> set keys. fits_int4 (int_at c key + 1) \<Longrightarrow> pg_inc_all keys c \<noteq> None"
  by (induction keys arbitrary: c) (auto simp: pg_inc_def Let_def int_at_update)

lemma count_list_totals [simp]:
  "count_list (map (\<lambda>a. (a, totalIdx)) ls) (a, j) = (if j = totalIdx then count_list ls a else 0)"
  by (induction ls) auto

text \<open>When \<^verbatim>\<open>Consume\<close> succeeds, and what it then does.\<close>

definition may_consume :: "postgres \<Rightarrow> string \<Rightarrow> int \<Rightarrow> string list \<Rightarrow> bool" where
  "may_consume p i k ls \<longleftrightarrow>
     (\<exists>r. find_row p i = Some r \<and> 0 \<le> k \<and> k < int (length (ro_scope_limits r))
        \<and> int_at (pg_counters p) (i, k) < ro_scope_limits r ! nat k)
     \<and> (\<forall>a \<in> set ls. \<exists>r. find_row p a = Some r \<and> int_at (pg_counters p) (a, totalIdx) < ro_max_calls r)"

lemma check_limit_None: "check_limit p limits a = None \<longleftrightarrow> int_at (pg_counters p) (a, totalIdx) < int_at limits a"
  by (simp add: check_limit_def)

lemma pg_consume_None:
  assumes "i \<in> set ls"
  shows "pg_consume i k ls p = (None, p') \<longleftrightarrow> may_consume p i k ls
    \<and> (\<exists>c. pg_inc_all (map (\<lambda>a. (a, totalIdx)) ls @ [(i, k)]) (pg_counters p) = Some c \<and> p' = p\<lparr>pg_counters := c\<rparr>)"
proof (cases "pg_lock p i (lock_order ls) ([], [])")
  case (Inl e)
  then obtain a where "a \<in> set ls" "find_row p a = None" using pg_lock_Inl by (fastforce simp: lock_order_def)
  then have "\<not> may_consume p i k ls" unfolding may_consume_def by force
  with Inl show ?thesis by (simp add: pg_consume_def)
next
  case (Inr b)
  then obtain limits sl where lock: "pg_lock p i (lock_order ls) ([], []) = Inr (limits, sl)" by (cases b) auto
  note l = pg_lock_Inr [OF lock, unfolded lock_order_def set_sort]
  from l assms obtain r where r: "find_row p i = Some r" "sl = ro_scope_limits r" by fastforce
  have "(\<forall>a \<in> set ls. check_limit p limits a = None) \<longleftrightarrow>
      (\<forall>a \<in> set ls. \<exists>r. find_row p a = Some r \<and> int_at (pg_counters p) (a, totalIdx) < ro_max_calls r)"
    using l by (fastforce simp: check_limit_None)
  then have checks: "first_err (check_limit p limits) ls = None \<longleftrightarrow>
      (\<forall>a \<in> set ls. \<exists>r. find_row p a = Some r \<and> int_at (pg_counters p) (a, totalIdx) < ro_max_calls r)"
    by simp
  show ?thesis
    unfolding may_consume_def checks [symmetric]
    by (auto simp: pg_consume_def lock r simp del: first_err_None split: option.splits)
qed

lemma pg_consume_Some: "pg_consume i k ls p = (Some e, p') \<Longrightarrow> p' = p"
  by (auto simp: pg_consume_def split: sum.splits option.splits if_splits)

lemmas postgres_defs = postgres_ops_def postgres_view_def unchanged_def same_budgets_def same_marks_def

lemma pg_put_token_law:
  assumes "postgres_inv p" and "pg_put_token J t p = (None, p')"
  shows "postgres_inv p' \<and> same_budgets postgres_view p p' \<and> same_marks postgres_view p p'
    \<and> (\<exists>t'. same_record t t' \<and> sv_token postgres_view p' = (sv_token postgres_view p)(tr_ID t \<mapsto> t'))"
proof -
  from assms(2) obtain r where new: "find_row p (tr_ID t) = None"
    and fits: "list_all fits_int4 (tr_MaxCalls t # tr_ScopeLimits t)"
    and p': "p' = p\<lparr>pg_tokens := pg_tokens p @ [r]\<rparr>"
    and r: "ro_id r = tr_ID t" "ro_parent r = nullable (tr_Parent t)" "ro_max_calls r = tr_MaxCalls t"
      "ro_scope_limits r = tr_ScopeLimits t" "same_record t (scan_tok r)"
    by (fastforce simp: pg_put_token_def scan_tok_def same_record_def split: option.splits if_splits)
  have "find_row p' = (find_row p)(tr_ID t \<mapsto> r)"
    using new r(1) by (auto simp: find_row_def p' find_append fun_eq_iff split: option.split)
  then have "sv_token postgres_view p' = (sv_token postgres_view p)(tr_ID t \<mapsto> scan_tok r)"
    by (simp add: postgres_view_def fun_eq_iff)
  moreover have "row_ok r" using r fits by (simp add: row_ok_def nullable_def)
  then have "postgres_inv p'"
    using assms(1) new r(1) unfolding find_row_None by (auto simp: postgres_inv_def p')
  ultimately show ?thesis using r(5) by (auto simp: p' postgres_defs fun_eq_iff)
qed

lemma pg_inc_all_law:
  assumes "0 \<le> k" and "pg_inc_all (map (\<lambda>a. (a, totalIdx)) ls @ [(i, k)]) c = Some c'"
  shows "int_at c' (a, j) = int_at c (a, j) + (if j = totalIdx then int (count_list ls a) else 0)
    + (if i = a \<and> k = j then 1 else 0)"
proof -
  have "k \<noteq> totalIdx" using assms(1) by (simp add: totalIdx_def)
  then show ?thesis using pg_inc_all_Some [OF assms(2), of "(a, j)"] by auto
qed

lemma pg_consume_law:
  assumes inv: "postgres_inv p" and "i \<in> set ls" and "pg_consume i k ls p = (None, p')"
  shows "postgres_inv p' \<and> may_consume p i k ls \<and> same_marks postgres_view p p'
    \<and> sv_token postgres_view p' = sv_token postgres_view p
    \<and> sv_calls postgres_view p' = (\<lambda>a. sv_calls postgres_view p a + int (count_list ls a))
    \<and> sv_scope_calls postgres_view p' = (sv_scope_calls postgres_view p)
        (i := (sv_scope_calls postgres_view p i)(k := sv_scope_calls postgres_view p i k + 1))"
proof -
  from assms(3) obtain c where may: "may_consume p i k ls"
    and c: "pg_inc_all (map (\<lambda>a. (a, totalIdx)) ls @ [(i, k)]) (pg_counters p) = Some c"
    and p': "p' = p\<lparr>pg_counters := c\<rparr>"
    unfolding pg_consume_None [OF assms(2)] by blast
  have k: "0 \<le> k" using may by (auto simp: may_consume_def)
  have "0 \<le> int_at c key" for key
    using inv pg_inc_all_law [OF k c] by (cases key) (simp add: postgres_inv_def)
  moreover have "k \<noteq> totalIdx" using k by (simp add: totalIdx_def)
  ultimately show ?thesis
    using may inv by (auto simp: p' postgres_defs postgres_inv_def find_row_def fun_eq_iff pg_inc_all_law [OF k c])
qed

lemma postgres_children:
  assumes "postgres_inv p" and "i \<noteq> []"
  shows "set (map scan_tok (filter (\<lambda>r. ro_parent r = Some i) (pg_tokens p)))
    = {t. tr_Parent t = i \<and> map_option scan_tok (find_row p (tr_ID t)) = Some t}"
proof -
  have "ro_parent r = Some i \<longleftrightarrow> coalesce (ro_parent r) = i" if "r \<in> set (pg_tokens p)" for r
    using assms(2) that by (auto simp: coalesce_def split: option.split)
  moreover have "find_row p (ro_id r) = Some r" if "r \<in> set (pg_tokens p)" for r
    using assms(1) that by (simp add: find_row_member postgres_inv_def)
  ultimately show ?thesis by (fastforce dest: find_row_id)
qed

lemma pg_usage_counts:
  "\<exists>ps. pg_usage i p = Inr (int_at (pg_counters p) (i, totalIdx), ps)
     \<and> (\<forall>k \<ge> 0. int_at ps k = int_at (pg_counters p) (i, k))"
proof -
  let ?rows = "map (\<lambda>((_, k), n). (k, n)) (filter (\<lambda>((a, _), _). a = i) (pg_counters p))"
  have "int_at (map (\<lambda>((_, k), n). (k, n)) (filter (\<lambda>((a, _), _). a = i) c)) k = int_at c (i, k)"
    for c :: "((string \<times> int) \<times> int) list" and k
    by (induction c) (auto simp: int_at_def)
  moreover have "0 \<le> k \<Longrightarrow> int_at (filter (\<lambda>(k, _). k \<noteq> totalIdx) rows) k = int_at rows k" for k and rows :: "(int \<times> int) list"
    by (induction rows) (auto simp: int_at_def totalIdx_def)
  ultimately show ?thesis by (simp add: pg_usage_def Let_def)
qed

lemma pg_first_revoked_find:
  "pg_first_revoked is p
     = Inr (case find (\<lambda>i. lookup (pg_revocations p) i \<noteq> None) is of None \<Rightarrow> [] | Some i \<Rightarrow> i)"
proof -
  have hit: "lookup (filter (\<lambda>(i, _). i \<in> A) m) j = (if j \<in> A then lookup m j else None)" for A j and m :: "string gomap"
    by (induction m) auto
  have "set is \<subseteq> A \<Longrightarrow> first_in (filter (\<lambda>(i, _). i \<in> A) (pg_revocations p)) is = first_in (pg_revocations p) is" for A
    by (induction "is") (auto simp: hit)
  from this [of "set is"] show ?thesis
    by (simp add: pg_first_revoked_def first_in_find)
qed

interpretation pg: token_store "postgres_ops J" postgres_view for J
proof
  fix s s' w res
  assume "sv_inv postgres_view s" "so_PutWorkload (postgres_ops J) w s = (res, s')"
  then show "sv_inv postgres_view s' \<and> unchanged postgres_view s s'"
    by (auto simp: postgres_defs pg_put_workload_def postgres_inv_def find_row_def fun_eq_iff)
next
  fix s s' t
  assume "sv_inv postgres_view s" "so_PutToken (postgres_ops J) t s = (None, s')"
  then show "sv_inv postgres_view s'
      \<and> (\<exists>t'. same_record t t' \<and> sv_token postgres_view s' = (sv_token postgres_view s)(tr_ID t \<mapsto> t'))
      \<and> same_budgets postgres_view s s' \<and> same_marks postgres_view s s'"
    using pg_put_token_law [of s J t s'] by (simp add: postgres_ops_def postgres_view_def)
next
  fix s i ts
  assume "sv_inv postgres_view s" "i \<noteq> []" "so_Children (postgres_ops J) i s = Inr ts"
  then show "set ts = {t. tr_Parent t = i \<and> sv_token postgres_view s (tr_ID t) = Some t}"
    using postgres_children [of s i] by (auto simp: postgres_ops_def postgres_view_def pg_children_def)
next
  fix s s' i k lin
  assume "sv_inv postgres_view s" "i \<in> set lin" "so_Consume (postgres_ops J) i k lin s = (None, s')"
  then have c: "postgres_inv s'" "may_consume s i k lin" "same_marks postgres_view s s'"
      "sv_token postgres_view s' = sv_token postgres_view s"
      "sv_calls postgres_view s' = (\<lambda>a. sv_calls postgres_view s a + int (count_list lin a))"
      "sv_scope_calls postgres_view s' = (sv_scope_calls postgres_view s)
        (i := (sv_scope_calls postgres_view s i)(k := sv_scope_calls postgres_view s i k + 1))"
    using pg_consume_law [of s i lin k s'] by (simp_all add: postgres_ops_def postgres_view_def)
  from c(2) have "\<exists>t. sv_token postgres_view s i = Some t \<and> 0 \<le> k \<and> k < int (length (tr_ScopeLimits t))
      \<and> sv_scope_calls postgres_view s i k < tr_ScopeLimits t ! nat k"
    and "\<forall>a \<in> set lin. \<exists>t. sv_token postgres_view s a = Some t \<and> sv_calls postgres_view s a < tr_MaxCalls t"
    by (fastforce simp: may_consume_def postgres_view_def totalIdx_def)+
  with c show "sv_inv postgres_view s' \<and>
      (\<exists>t. sv_token postgres_view s i = Some t \<and> 0 \<le> k \<and> k < int (length (tr_ScopeLimits t))
         \<and> sv_scope_calls postgres_view s i k < tr_ScopeLimits t ! nat k) \<and>
      (\<forall>a \<in> set lin. \<exists>t. sv_token postgres_view s a = Some t \<and> sv_calls postgres_view s a < tr_MaxCalls t) \<and>
      sv_token postgres_view s' = sv_token postgres_view s \<and> same_marks postgres_view s s' \<and>
      sv_calls postgres_view s' = (\<lambda>a. sv_calls postgres_view s a + int (count_list lin a)) \<and>
      sv_scope_calls postgres_view s' = (sv_scope_calls postgres_view s)
        (i := (sv_scope_calls postgres_view s i)(k := sv_scope_calls postgres_view s i k + 1))"
    by (simp add: postgres_view_def [THEN arg_cong [of _ _ sv_inv]])
next
  fix s i
  show "\<exists>ps. so_Usage (postgres_ops J) i s = Inr (sv_calls postgres_view s i, ps)
      \<and> (\<forall>k \<ge> 0. (case map_of ps k of None \<Rightarrow> 0 | Some n \<Rightarrow> n) = sv_scope_calls postgres_view s i k)"
    using pg_usage_counts [of i s] by (auto simp: postgres_ops_def postgres_view_def int_at_def [symmetric] totalIdx_def)
qed (auto simp: postgres_defs pg_get_token_def pg_put_token_def pg_revoke_def pg_use_approval_def
    pg_first_revoked_find lookup_insert_new postgres_inv_def find_row_def fun_eq_iff dest: pg_consume_Some
    split: option.splits if_splits)

text \<open>The tokens the table takes.\<close>

definition pg_fits :: "(string \<Rightarrow> string option) \<Rightarrow> token_record \<Rightarrow> bool" where
  "pg_fits J t \<longleftrightarrow> J (tr_Claims t) \<noteq> None \<and> list_all fits_int4 (tr_Depth t # tr_MaxCalls t # tr_ScopeLimits t)"

lemma below_limit_fits: "0 \<le> n \<Longrightarrow> n < l \<Longrightarrow> fits_int4 l \<Longrightarrow> fits_int4 (n + 1)"
  by (simp add: fits_int4_def)

lemma pg_consume_complete:
  assumes inv: "postgres_inv p" and i: "i \<in> set ls" and d: "distinct ls" and may: "may_consume p i k ls"
  shows "fst (pg_consume i k ls p) = None"
proof -
  let ?keys = "map (\<lambda>a. (a, totalIdx)) ls @ [(i, k)]"
  from may obtain r where r: "find_row p i = Some r" "0 \<le> k" "k < int (length (ro_scope_limits r))"
      "int_at (pg_counters p) (i, k) < ro_scope_limits r ! nat k"
    and totals: "\<forall>a \<in> set ls. \<exists>r. find_row p a = Some r \<and> int_at (pg_counters p) (a, totalIdx) < ro_max_calls r"
    by (auto simp: may_consume_def)
  have nonneg: "0 \<le> int_at (pg_counters p) key" for key using inv by (cases key) (simp add: postgres_inv_def)
  have "fits_int4 (ro_scope_limits r ! nat k)"
    using find_row_ok [OF inv r(1)] r(2,3) by (auto simp: row_ok_def list_all_iff)
  with r(4) nonneg have "fits_int4 (int_at (pg_counters p) (i, k) + 1)" using below_limit_fits by blast
  moreover have "fits_int4 (int_at (pg_counters p) (a, totalIdx) + 1)" if a: "a \<in> set ls" for a
  proof -
    from totals a obtain ra where ra: "find_row p a = Some ra" "int_at (pg_counters p) (a, totalIdx) < ro_max_calls ra"
      by blast
    with find_row_ok [OF inv ra(1)] nonneg show ?thesis using below_limit_fits unfolding row_ok_def by force
  qed
  moreover have "distinct ?keys" using d r(2) by (auto simp: distinct_map inj_on_def totalIdx_def)
  ultimately have "pg_inc_all ?keys (pg_counters p) \<noteq> None" by (intro pg_inc_all_complete) auto
  then obtain c where "pg_inc_all ?keys (pg_counters p) = Some c" by blast
  with may pg_consume_None [OF i] have "pg_consume i k ls p = (None, p\<lparr>pg_counters := c\<rparr>)" by blast
  then show ?thesis by simp
qed

lemma may_charge_consume: "may_charge postgres_view i k ls p \<Longrightarrow> may_consume p i k ls"
  unfolding may_charge_def may_consume_def
  by (fastforce simp: postgres_view_def totalIdx_def split: if_splits)

interpretation epg: exact_store "postgres_ops J" postgres_view "pg_fits J" for J
proof
  fix s i k lin
  assume "sv_inv postgres_view s" "i \<in> set lin" "distinct lin" "may_charge postgres_view i k lin s"
  then show "fst (so_Consume (postgres_ops J) i k lin s) = None"
    using pg_consume_complete [of s i lin k] may_charge_consume by (simp add: postgres_ops_def postgres_view_def)
qed (auto simp: postgres_defs pg_put_workload_def pg_put_token_def pg_fits_def pg_revoke_def pg_use_approval_def)

interpretation stores: store_pair memory_ops memory_view "postgres_ops J" postgres_view "pg_fits J" for J ..

subsection \<open>Properties\<close>

lemma new_postgres_view:
  "sv_inv postgres_view (new_postgres t)" "sv_token postgres_view (new_postgres t) = (\<lambda>_. None)"
  "sv_calls postgres_view (new_postgres t) = (\<lambda>_. 0)" "sv_scope_calls postgres_view (new_postgres t) = (\<lambda>_ _. 0)"
  "sv_revoked postgres_view (new_postgres t) = (\<lambda>_. False)" "sv_used postgres_view (new_postgres t) = (\<lambda>_. False)"
  by (simp_all add: new_postgres_def postgres_view_def postgres_inv_def find_row_def int_at_def fun_eq_iff)

lemma new_postgres_accounted: "pg.accounted [] (new_postgres t)"
  and new_postgres_marked: "pg.marked [] (new_postgres t)"
  by (simp_all add: pg.accounted_def pg.counted_def pg.bounded_def pg.in_budget_def charged_def pg.marked_def new_postgres_view)

lemma new_stores_agree: "agree memory_view postgres_view new_memory (new_postgres t)"
  by (simp add: agree_def new_memory_view new_postgres_view)

text \<open>
  The Postgres store keeps every budget and every mark: over any history from an empty
  database, whatever the database thinks of a document, the calls charged to a token stay within
  its \<^verbatim>\<open>max_calls\<close>, those charged to a scope within the scope's limit, an approval is accepted at
  most once, and a lineage is found clear exactly when none of it was revoked.
\<close>

theorem postgres_safe:
  assumes "legal es" and "store_run (postgres_ops J) es ([], new_postgres t0) = (hist, p)"
    and "pg_get_token a p = Inr t" and "[] \<notin> set is"
  shows "int (length (filter (charges a) hist)) \<le> max 0 (tr_MaxCalls t)
     \<and> (\<forall>k < length (tr_ScopeLimits t).
          int (length (filter (charges_scope a (int k)) hist)) \<le> max 0 (tr_ScopeLimits t ! k))
     \<and> length (filter (uses_approval x) hist) \<le> 1
     \<and> (pg_first_revoked is p = Inr [] \<longleftrightarrow> \<not> (\<exists>i \<in> set is. list_ex (revokes i) hist))"
proof -
  have acc: "pg.accounted hist p"
    using pg.store_run_accounted [OF new_postgres_accounted assms(1) _ assms(2)] by (simp add: new_postgres_view)
  have m: "pg.marked hist p"
    using pg.store_run_marked [OF new_postgres_marked _ assms(2)] assms(1) by (simp add: legal_def)
  have t: "sv_token postgres_view p a = Some t"
    using assms(3) by (auto simp: pg_get_token_def postgres_view_def split: option.splits)
  then have b: "charged hist a \<le> max 0 (tr_MaxCalls t)" "pg.scope_within p a t"
    using acc by (auto simp: pg.accounted_def pg.bounded_def pg.in_budget_def dest!: spec [of _ a])
  have "sv_scope_calls postgres_view p a (int k) \<le> max 0 (tr_ScopeLimits t ! k)" for k
    using b(2) by (auto simp: pg.scope_within_def dest!: spec [of _ "int k"])
  moreover have "pg_first_revoked is p = Inr [] \<longleftrightarrow> \<not> (\<exists>i \<in> set is. list_ex (revokes i) hist)"
    using pg.first_revoked_none [of p "is"] m assms(4) by (simp add: pg.marked_def postgres_ops_def)
  ultimately show ?thesis
    using acc b(1) m by (simp add: pg.accounted_def pg.counted_def charged_def pg.marked_def)
qed

definition ex_pg_run :: "store_event list \<times> postgres" where
  "ex_pg_run = store_run (postgres_ops Some) ex_events ([], new_postgres 0)"

lemma ex_pg_run:
  "store_run (postgres_ops Some) ex_events ([], new_postgres 0) = (fst ex_pg_run, snd ex_pg_run)"
  by (simp add: ex_pg_run_def)

theorem postgres_safe_witness:
  "length (filter (charges ''root'') (fst ex_pg_run)) = 2
     \<and> int (length (filter (charges ''root'') (fst ex_pg_run))) \<le> max 0 2
     \<and> pg_first_revoked [''root'', ''kid''] (snd ex_pg_run) \<noteq> Inr []"
proof -
  have "pg_get_token ''root'' (snd ex_pg_run) = Inr (ex_record ''root'' [] 2\<lparr>tr_Expires := 0\<rparr>)"
    and n: "length (filter (charges ''root'') (fst ex_pg_run)) = 2"
    and "list_ex (revokes ''kid'') (fst ex_pg_run)" by code_simp+
  with postgres_safe [OF ex_run(1) ex_pg_run, of "''root''" _ "[''root'', ''kid'']" "''a1''"]
  show ?thesis by (auto simp: ex_record_def)
qed



end
