(* ===== verification/Store_Locking.thy ===== *)
theory Store_Locking
  imports Store_Postgres
begin

section \<open>The row locks of \<^verbatim>\<open>Consume\<close> (\<^verbatim>\<open>internal/store/postgres.go\<close>, lines 141 to 171)\<close>

text \<open>
  The statement-level view of \<^verbatim>\<open>Consume\<close>: each transaction takes the row locks of its lineage one
  \<^verbatim>\<open>SELECT ... FOR UPDATE\<close> at a time, waits while another transaction holds the row, and gives all
  its locks back when it commits or is rolled back. Transactions run interleaved in any order. The
  comment of the code promises that locking in a stable order avoids deadlocks; here it is proved,
  with the bound on the number of steps that makes every schedule end.
\<close>

text \<open>A transaction: the rows it has locked, those it still has to lock, and whether it is over.\<close>

record lock_tx =
  lt_held :: "string list"
  lt_todo :: "string list"
  lt_over :: bool

definition begin_tx :: "string list \<Rightarrow> lock_tx" where
  "begin_tx lineage = \<lparr>lt_held = [], lt_todo = lock_order lineage, lt_over = False\<rparr>"

definition end_tx :: lock_tx where
  "end_tx = \<lparr>lt_held = [], lt_todo = [], lt_over = True\<rparr>"

text \<open>No transaction but the \<open>n\<close>-th holds the row.\<close>

definition free_for :: "lock_tx list \<Rightarrow> nat \<Rightarrow> string \<Rightarrow> bool" where
  "free_for txs n a \<longleftrightarrow> list_all (\<lambda>m. m = n \<or> a \<notin> set (lt_held (txs ! m))) [0..<length txs]"

text \<open>
  One step of the database: a transaction locks its next row, meets a row that does not exist and
  is rolled back, or, all rows locked, runs to its commit or rollback. \<open>rows\<close> holds the ids of the
  table, \<open>k\<close> is the position of the transaction that moves.
\<close>

definition lock_move :: "string set \<Rightarrow> lock_tx list \<Rightarrow> nat \<Rightarrow> lock_tx option" where
  "lock_move rows txs n =
     (let tx = txs ! n in
        if lt_over tx then None
        else (case lt_todo tx of
            [] \<Rightarrow> Some end_tx
          | a # todo \<Rightarrow>
              if a \<notin> rows then Some end_tx
              else if free_for txs n a then Some \<lparr>lt_held = a # lt_held tx, lt_todo = todo, lt_over = False\<rparr>
              else None))"

inductive lock_step :: "string set \<Rightarrow> lock_tx list \<Rightarrow> lock_tx list \<Rightarrow> bool" for rows where
  move: "n < length txs \<Longrightarrow> lock_move rows txs n = Some tx \<Longrightarrow> lock_step rows txs (txs[n := tx])"

inductive_cases lock_stepE: "lock_step rows txs txs'"

subsection \<open>Invariants\<close>

text \<open>What a transaction holds comes before what it still wants, and no row has two holders.\<close>

definition tx_ordered :: "lock_tx \<Rightarrow> bool" where
  "tx_ordered tx \<longleftrightarrow> sorted (rev (lt_held tx) @ lt_todo tx) \<and> (lt_over tx \<longrightarrow> lt_held tx = [])"

definition exclusive :: "lock_tx list \<Rightarrow> bool" where
  "exclusive txs \<longleftrightarrow> (\<forall>m < length txs. \<forall>n < length txs. \<forall>a \<in> set (lt_held (txs ! m)).
     a \<in> set (lt_held (txs ! n)) \<longrightarrow> m = n)"

definition lock_inv :: "lock_tx list \<Rightarrow> bool" where
  "lock_inv txs \<longleftrightarrow> list_all tx_ordered txs \<and> exclusive txs"

lemma free_for_iff: "free_for txs n a \<longleftrightarrow> (\<forall>m < length txs. m = n \<or> a \<notin> set (lt_held (txs ! m)))"
  by (auto simp: free_for_def list_all_iff)

lemma begin_inv: "lock_inv (map begin_tx lins)"
proof -
  have held: "n < length lins \<Longrightarrow> lt_held (map begin_tx lins ! n) = []" for n by (simp add: begin_tx_def)
  then have "exclusive (map begin_tx lins)" by (simp add: exclusive_def)
  moreover have "tx_ordered (begin_tx l)" for l by (simp add: tx_ordered_def begin_tx_def lock_order_def)
  ultimately show ?thesis by (simp add: lock_inv_def list_all_iff)
qed

lemma exclusive_update:
  assumes "exclusive txs" and "n < length txs"
    and "\<forall>a \<in> set (lt_held tx). a \<in> set (lt_held (txs ! n)) \<or> free_for txs n a"
  shows "exclusive (txs[n := tx])"
proof -
  have old: "i = j" if "i < length txs" "j < length txs" "a \<in> set (lt_held (txs ! i))" "a \<in> set (lt_held (txs ! j))" for i j a
    using assms(1) that unfolding exclusive_def by blast
  have new: "m = n" if a: "a \<in> set (lt_held tx)" "m < length txs" "a \<in> set (lt_held (txs ! m))" for a m
    using bspec [OF assms(3) a(1)] old [OF a(2) assms(2) a(3)] a(2,3) by (auto simp: free_for_iff)
  show ?thesis
    unfolding exclusive_def
  proof (intro allI impI ballI)
    fix i j a
    assume ij: "i < length (txs[n := tx])" "j < length (txs[n := tx])"
      and a: "a \<in> set (lt_held (txs[n := tx] ! i))" "a \<in> set (lt_held (txs[n := tx] ! j))"
    consider "i = n" "j = n" | "i = n" "j \<noteq> n" | "i \<noteq> n" "j = n" | "i \<noteq> n" "j \<noteq> n" by blast
    then show "i = j"
    proof cases
      case 2
      with a ij assms(2) show ?thesis using new [of a j] by simp
    next
      case 3
      with a ij assms(2) show ?thesis using new [of a i] by simp
    next
      case 4
      with a ij show ?thesis using old [of i j a] by simp
    qed simp
  qed
qed

lemma lock_move_cases:
  assumes "lock_move rows txs n = Some tx"
  obtains (over) "\<not> lt_over (txs ! n)" "tx = end_tx"
  | (lock) a todo where "\<not> lt_over (txs ! n)" "lt_todo (txs ! n) = a # todo" "free_for txs n a"
      "tx = \<lparr>lt_held = a # lt_held (txs ! n), lt_todo = todo, lt_over = False\<rparr>"
  using assms by (auto simp: lock_move_def Let_def split: if_splits list.splits)

lemma lock_step_inv:
  assumes "lock_step rows txs txs'" and "lock_inv txs"
  shows "lock_inv txs'"
proof -
  from assms(1) obtain n tx where n: "n < length txs" and mv: "lock_move rows txs n = Some tx"
    and txs': "txs' = txs[n := tx]" by (auto elim: lock_stepE)
  have old: "tx_ordered (txs ! n)" using assms(2) n by (simp add: lock_inv_def list_all_length)
  from mv have "tx_ordered tx \<and> (\<forall>a \<in> set (lt_held tx). a \<in> set (lt_held (txs ! n)) \<or> free_for txs n a)"
  proof (cases rule: lock_move_cases)
    case over
    then show ?thesis by (simp add: tx_ordered_def end_tx_def)
  next
    case (lock a todo)
    then show ?thesis using old by (simp add: tx_ordered_def)
  qed
  moreover have "exclusive txs" "list_all tx_ordered txs" using assms(2) by (simp_all add: lock_inv_def)
  ultimately show ?thesis
    using exclusive_update [of txs n tx] n by (auto simp: txs' lock_inv_def list_all_length nth_list_update)
qed

lemma lock_steps_inv: "(lock_step rows)\<^sup>*\<^sup>* txs txs' \<Longrightarrow> lock_inv txs \<Longrightarrow> lock_inv txs'"
  by (induction rule: rtranclp_induct) (auto intro: lock_step_inv)

subsection \<open>Progress\<close>

definition waiting :: "lock_tx list \<Rightarrow> nat \<Rightarrow> bool" where
  "waiting txs n \<longleftrightarrow> n < length txs \<and> \<not> lt_over (txs ! n)"

lemma lock_move_None:
  assumes "waiting txs n" and "lock_move rows txs n = None"
  obtains a todo m where "lt_todo (txs ! n) = a # todo" and "m < length txs" and "m \<noteq> n"
    and "a \<in> set (lt_held (txs ! m))"
  using assms by (auto simp: lock_move_def waiting_def Let_def free_for_iff split: list.splits if_splits)

text \<open>
  Among the blocked transactions, one that waits for the greatest row waits for a holder that is
  not blocked: the holder wants a greater row still, or the same row again.
\<close>

lemma some_move:
  assumes inv: "lock_inv txs" and "waiting txs n"
  shows "\<exists>m tx. waiting txs m \<and> lock_move rows txs m = Some tx"
proof (rule ccontr)
  assume "\<not> ?thesis"
  then have stuck: "lock_move rows txs m = None" if "waiting txs m" for m
    using that by (cases "lock_move rows txs m") auto
  let ?want = "\<lambda>m. hd (lt_todo (txs ! m))"
  let ?wants = "?want ` {m. waiting txs m}"
  have fin: "finite ?wants" and "?wants \<noteq> {}" using assms(2) by (auto simp: waiting_def)
  then have "Max ?wants \<in> ?wants" by (rule Max_in)
  then obtain k where k: "waiting txs k" "Max ?wants = ?want k" by blast
  from k(1) stuck [OF k(1)] obtain a todo m where a: "lt_todo (txs ! k) = a # todo"
    and m: "m < length txs" "m \<noteq> k" "a \<in> set (lt_held (txs ! m))" by (rule lock_move_None)
  have om: "tx_ordered (txs ! m)" using inv m(1) by (simp add: lock_inv_def list_all_length)
  then have wm: "waiting txs m" using m by (auto simp: waiting_def tx_ordered_def)
  from wm stuck [OF wm] obtain b todo' l where b: "lt_todo (txs ! m) = b # todo'"
    and l: "l < length txs" "l \<noteq> m" "b \<in> set (lt_held (txs ! l))" by (rule lock_move_None)
  have "a \<le> b" using om m(3) b by (auto simp: tx_ordered_def sorted_append)
  moreover have "b \<le> a" using Max_ge [OF fin, of b] k(2) wm a b by force
  ultimately have "b = a" by simp
  with l m inv show False by (auto simp: lock_inv_def exclusive_def)
qed

text \<open>Every step shortens what is left to do.\<close>

definition lock_work :: "lock_tx \<Rightarrow> nat" where
  "lock_work tx = (if lt_over tx then 0 else Suc (length (lt_todo tx)))"

lemma sum_list_update_less:
  fixes f :: "'a \<Rightarrow> nat"
  shows "n < length xs \<Longrightarrow> f x < f (xs ! n) \<Longrightarrow> sum_list (map f (xs[n := x])) < sum_list (map f xs)"
  by (induction xs arbitrary: n) (auto split: nat.splits)

lemma lock_step_work: "lock_step rows txs txs' \<Longrightarrow> sum_list (map lock_work txs') < sum_list (map lock_work txs)"
  by (erule lock_stepE, erule lock_move_cases)
    (auto intro!: sum_list_update_less simp: lock_work_def end_tx_def)

lemma lock_steps_work:
  "(lock_step rows ^^ k) txs txs' \<Longrightarrow> k + sum_list (map lock_work txs') \<le> sum_list (map lock_work txs)"
  by (induction k arbitrary: txs') (auto dest!: lock_step_work, fastforce dest: lock_step_work)

subsection \<open>Properties\<close>

text \<open>
  \<^bold>\<open>C34.\<close> Locking in a stable order never deadlocks: however the transactions of any number of
  concurrent \<^verbatim>\<open>Consume\<close> calls interleave, with lineages that overlap in any way and repeat ids or
  name missing rows, while one is not over some transaction can move.
\<close>

theorem consume_never_deadlocks:
  assumes "(lock_step rows)\<^sup>*\<^sup>* (map begin_tx lineages) txs" and "\<not> list_all lt_over txs"
  shows "\<exists>txs'. lock_step rows txs txs'"
proof -
  have "lock_inv txs" using lock_steps_inv [OF assms(1) begin_inv] .
  moreover from assms(2) obtain n where "waiting txs n" by (auto simp: list_all_length waiting_def)
  ultimately obtain m tx where "waiting txs m" "lock_move rows txs m = Some tx" using some_move by blast
  then show ?thesis by (auto simp: waiting_def intro: lock_step.move)
qed

text \<open>Two siblings whose lineages name their rows in opposite orders, each one lock in.\<close>

definition ex_lineages :: "string list list" where
  "ex_lineages = [[''root'', ''kid'', ''a''], [''b'', ''kid'', ''root'']]"

definition ex_rows :: "string set" where
  "ex_rows = {''root'', ''kid'', ''a'', ''b''}"

definition ex_locked :: "lock_tx list" where
  "ex_locked = (let s = map begin_tx ex_lineages; s1 = s[0 := the (lock_move ex_rows s 0)]
     in s1[1 := the (lock_move ex_rows s1 1)])"

lemma ex_locked_steps: "(lock_step ex_rows ^^ 2) (map begin_tx ex_lineages) ex_locked"
proof -
  let ?s = "map begin_tx ex_lineages"
  let ?s1 = "?s[0 := the (lock_move ex_rows ?s 0)]"
  have "lock_step ex_rows ?s ?s1" "lock_step ex_rows ?s1 (?s1[1 := the (lock_move ex_rows ?s1 1)])"
    by (rule lock_step.move; code_simp)+
  then show ?thesis by (auto simp: numeral_2_eq_2 ex_locked_def Let_def)
qed

lemma ex_locked_open: "\<not> list_all lt_over ex_locked"
  by code_simp

theorem consume_never_deadlocks_witness: "\<exists>txs'. lock_step ex_rows ex_locked txs'"
  using consume_never_deadlocks [OF relpowp_imp_rtranclp [OF ex_locked_steps] ex_locked_open] .

text \<open>
  Every schedule of the transactions ends: it has at most one step for each row of a lineage and
  one more per transaction, and when no step is left every transaction is over.
\<close>

theorem consume_locking_terminates:
  assumes "(lock_step rows ^^ k) (map begin_tx lineages) txs"
  shows "k \<le> sum_list (map (\<lambda>l. Suc (length l)) lineages)
     \<and> ((\<forall>txs'. \<not> lock_step rows txs txs') \<longrightarrow> list_all lt_over txs)"
proof
  have "sum_list (map lock_work (map begin_tx lineages)) = sum_list (map (\<lambda>l. Suc (length l)) lineages)"
    by (induction lineages) (simp_all add: lock_work_def begin_tx_def lock_order_def)
  then show "k \<le> sum_list (map (\<lambda>l. Suc (length l)) lineages)"
    using lock_steps_work [OF assms] by simp
  have inv: "lock_inv txs" using lock_steps_inv [OF relpowp_imp_rtranclp [OF assms] begin_inv] .
  show "(\<forall>txs'. \<not> lock_step rows txs txs') \<longrightarrow> list_all lt_over txs"
  proof (rule impI, rule ccontr)
    assume stuck: "\<forall>txs'. \<not> lock_step rows txs txs'" and "\<not> list_all lt_over txs"
    then obtain n where "waiting txs n" by (auto simp: list_all_length waiting_def)
    with some_move [OF inv] obtain m tx where "waiting txs m" "lock_move rows txs m = Some tx" by blast
    with stuck show False by (auto simp: waiting_def dest: lock_step.move)
  qed
qed

theorem consume_locking_terminates_witness: "(2::nat) \<le> sum_list (map (\<lambda>l. Suc (length l)) ex_lineages)"
  using consume_locking_terminates [OF ex_locked_steps] by blast

end
