(* ===== verification/Pop.thy ===== *)
theory Pop
  imports Token_Jwt
begin

section \<open>Proof of possession (\<^verbatim>\<open>internal/pop\<close>)\<close>

text \<open>
  The proof a holder presents with a token bound to its key: \<open>pop_sign\<close> and \<open>pop_verify\<close> of
  \<^verbatim>\<open>pop.go\<close>, the interface \<^verbatim>\<open>ReplayStore\<close> with its contract, the locale \<open>replay_store\<close>, and the
  store of \<^verbatim>\<open>replay.go\<close>. The JSON codec of the proof is the record \<open>pop_codec\<close>. Both callers of
  \<^verbatim>\<open>Verify\<close> drop the claims it returns beside an error, so an error is the left of a sum. A
  verification reads the clock once.
\<close>

subsection \<open>Data\<close>

definition MaxTTL :: duration where
  "MaxTTL = 60 * second"

record pop_claims =
  pc_Jti :: string
  pc_Sub :: string
  pc_Aud :: string
  pc_Method :: string
  pc_Path :: string
  pc_TokenJTI :: string
  pc_IssuedAt :: int
  pc_Expires :: int

record pop_codec =
  po_header :: string
  po_marshal :: "pop_claims \<Rightarrow> string option"
  po_unmarshal :: "string \<Rightarrow> pop_claims option"

text \<open>
  What \<^verbatim>\<open>encoding/json\<close> documents: the header that was written names its algorithm, and claims
  come back as they were written (all their fields are strings and integers).
\<close>

definition pop_codec_ok :: "'z env_scheme \<Rightarrow> pop_codec \<Rightarrow> pop_claims \<Rightarrow> bool" where
  "pop_codec_ok E K c \<longleftrightarrow> en_unmarshal_alg E (po_header K) = Some ''EdDSA''
     \<and> (\<forall>b. po_marshal K c = Some b \<longrightarrow> po_unmarshal K b = Some c)"

datatype pop_err =
    PopNoCnf
  | PopMalformed
  | PopSignature
  | PopExpired
  | PopTooLong
  | PopAudience
  | PopTokenMismatch
  | PopReplay
  | PopKeyMismatch

subsection \<open>Signing\<close>

text \<open>\<^verbatim>\<open>nonce\<close> is the fresh value of \<^verbatim>\<open>newNonce\<close>.\<close>

definition pop_sign ::
    "'z env_scheme \<Rightarrow> pop_codec \<Rightarrow> string \<Rightarrow> string \<Rightarrow> string \<Rightarrow> string \<Rightarrow> string \<Rightarrow> string \<Rightarrow> duration \<Rightarrow> time \<Rightarrow> string option" where
  "pop_sign E K nonce priv tokenJTI aud method path ttl now =
     (let ttl = (if ttl \<le> 0 \<or> MaxTTL < ttl then MaxTTL else ttl);
          c = \<lparr>pc_Jti = nonce, pc_Sub = thumbprint E (en_public E priv), pc_Aud = aud, pc_Method = method,
               pc_Path = path, pc_TokenJTI = tokenJTI, pc_IssuedAt = unix now, pc_Expires = unix (now + ttl)\<rparr>
      in case po_marshal K c of
           None \<Rightarrow> None
         | Some body \<Rightarrow>
             let inp = raw_url_encode (po_header K) @ ''.'' @ raw_url_encode body
             in Some (inp @ ''.'' @ raw_url_encode (en_sign E priv inp)))"

subsection \<open>Verification\<close>

text \<open>
  \<^verbatim>\<open>time.Unix(sec, 0)\<close> for a number of seconds that a proof chose: Go counts from the year 1 in 64
  bits, and wraps.
\<close>

definition unix_epoch :: int where
  "unix_epoch = 62135596800"

definition go_unix :: "int \<Rightarrow> time" where
  "go_unix s = time_unix (wrap64 (s + unix_epoch) - unix_epoch)"

text \<open>The method \<^verbatim>\<open>Seen\<close> of a \<^verbatim>\<open>ReplayStore\<close>: nonce, expiry, the clock, the store.\<close>

type_synonym 'r seen_op = "string \<Rightarrow> time \<Rightarrow> time \<Rightarrow> 'r \<Rightarrow> bool \<times> 'r"

text \<open>\<^verbatim>\<open>Verify\<close> up to the replay check.\<close>

definition pop_check ::
    "'z env_scheme \<Rightarrow> pop_codec \<Rightarrow> string \<Rightarrow> string \<Rightarrow> claims \<Rightarrow> string \<Rightarrow> time \<Rightarrow> pop_err + pop_claims" where
  "pop_check E K pub proof tc aud now =
     (case cm_Cnf tc of
        None \<Rightarrow> Inl PopNoCnf
      | Some cnf \<Rightarrow>
          if thumbprint E pub \<noteq> cn_JKT cnf then Inl PopKeyMismatch
          else
            (case split_compact proof of
               None \<Rightarrow> Inl PopMalformed
             | Some (hdr, body, sig, inp) \<Rightarrow>
                 if Option.bind (raw_url_decode False hdr) (en_unmarshal_alg E) \<noteq> Some ''EdDSA''
                 then Inl PopMalformed
                 else
                   (case raw_url_decode False sig of
                      None \<Rightarrow> Inl PopMalformed
                    | Some sg \<Rightarrow>
                        if \<not> en_verify E pub inp sg then Inl PopSignature
                        else
                          (case Option.bind (raw_url_decode False body) (po_unmarshal K) of
                             None \<Rightarrow> Inl PopMalformed
                           | Some c \<Rightarrow>
                               if pc_Sub c \<noteq> cn_JKT cnf then Inl PopKeyMismatch
                               else if MaxTTL div second < wrap64 (pc_Expires c - pc_IssuedAt c) then Inl PopTooLong
                               else if pc_Expires c \<le> unix now then Inl PopExpired
                               else if pc_Aud c \<noteq> aud then Inl PopAudience
                               else if pc_TokenJTI c \<noteq> [] \<and> pc_TokenJTI c \<noteq> cm_ID tc then Inl PopTokenMismatch
                               else Inr c))))"

definition pop_verify ::
    "'z env_scheme \<Rightarrow> pop_codec \<Rightarrow> string \<Rightarrow> string \<Rightarrow> claims \<Rightarrow> string \<Rightarrow> time \<Rightarrow> 'r seen_op option \<Rightarrow> 'r \<Rightarrow>
       (pop_err + pop_claims) \<times> 'r" where
  "pop_verify E K pub proof tc aud now rs r =
     (case pop_check E K pub proof tc aud now of
        Inl e \<Rightarrow> (Inl e, r)
      | Inr c \<Rightarrow>
          (case rs of
             None \<Rightarrow> (Inr c, r)
           | Some seen \<Rightarrow>
               (case seen (pc_Jti c) (go_unix (pc_Expires c)) now r of
                  (replay, r') \<Rightarrow> (if replay then Inl PopReplay else Inr c, r'))))"

subsection \<open>The in-memory replay store\<close>

definition new_replay :: "time gomap" where
  "new_replay = []"

definition mem_seen :: "time gomap seen_op" where
  "mem_seen jti expires now m =
     (if (case lookup m jti of None \<Rightarrow> False | Some e \<Rightarrow> now < e) then (True, m)
      else
        let m' = AList.update jti expires m in
        (False, if length m' mod 256 = 0 then filter (\<lambda>(_, e). now < e) m' else m'))"

subsection \<open>The contract of a replay store\<close>

text \<open>
  \<open>live r j t\<close>: at time \<open>t\<close> the store still holds the nonce \<open>j\<close>.
\<close>

locale replay_store =
  fixes seen :: "'r seen_op" and live :: "'r \<Rightarrow> string \<Rightarrow> time \<Rightarrow> bool" and inv :: "'r \<Rightarrow> bool"
  assumes seen_inv: "inv r \<Longrightarrow> seen j e now r = (b, r') \<Longrightarrow> inv r'"
    and seen_live: "inv r \<Longrightarrow> seen j e now r = (b, r') \<Longrightarrow> b \<longleftrightarrow> live r j now"
    and seen_keeps: "inv r \<Longrightarrow> seen j e now r = (b, r') \<Longrightarrow> live r i t \<Longrightarrow> now \<le> t \<Longrightarrow> live r' i t"
    and seen_records: "inv r \<Longrightarrow> seen j e now r = (False, r') \<Longrightarrow> now \<le> t \<Longrightarrow> t < e \<Longrightarrow> live r' j t"

record pop_request =
  pq_Pub :: string
  pq_Proof :: string
  pq_Token :: claims
  pq_Aud :: string
  pq_Now :: time

text \<open>A sequence of verifications against one replay store; the proofs that were accepted.\<close>

fun pop_run :: "'z env_scheme \<Rightarrow> pop_codec \<Rightarrow> 'r seen_op \<Rightarrow> pop_request list \<Rightarrow> 'r \<Rightarrow> string list \<times> 'r" where
  "pop_run E K seen [] r = ([], r)"
| "pop_run E K seen (q # qs) r =
     (let (res, r1) = pop_verify E K (pq_Pub q) (pq_Proof q) (pq_Token q) (pq_Aud q) (pq_Now q) (Some seen) r;
          (accepted, r2) = pop_run E K seen qs r1
      in ((if isl res then accepted else pq_Proof q # accepted), r2))"

text \<open>The claims a proof carries, whoever it is presented to.\<close>

definition proof_claims :: "pop_codec \<Rightarrow> string \<Rightarrow> pop_claims option" where
  "proof_claims K proof =
     (case split_compact proof of
        None \<Rightarrow> None
      | Some (hdr, body, sig, inp) \<Rightarrow> Option.bind (raw_url_decode False body) (po_unmarshal K))"

text \<open>Everything that must hold for a proof to pass the checks before the replay store.\<close>

definition proof_valid ::
    "'z env_scheme \<Rightarrow> pop_codec \<Rightarrow> string \<Rightarrow> string \<Rightarrow> claims \<Rightarrow> string \<Rightarrow> time \<Rightarrow> pop_claims \<Rightarrow> bool" where
  "proof_valid E K pub proof tc aud now c \<longleftrightarrow>
     cm_Cnf tc = Some \<lparr>cn_JKT = thumbprint E pub\<rparr> \<and> pc_Sub c = thumbprint E pub
     \<and> (\<exists>h b s hb sg. split_compact proof = Some (h, b, s, h @ ''.'' @ b)
          \<and> raw_url_decode False h = Some hb \<and> en_unmarshal_alg E hb = Some ''EdDSA''
          \<and> raw_url_decode False s = Some sg \<and> en_verify E pub (h @ ''.'' @ b) sg)
     \<and> proof_claims K proof = Some c
     \<and> wrap64 (pc_Expires c - pc_IssuedAt c) \<le> 60 \<and> unix now < pc_Expires c \<and> pc_Aud c = aud
     \<and> (pc_TokenJTI c = [] \<or> pc_TokenJTI c = cm_ID tc)"

lemma split_compact_span: "split_compact p = Some (h, b, s, inp) \<Longrightarrow> inp = h @ ''.'' @ b"
  using split_compact_SomeD by fastforce

lemma MaxTTL_seconds [simp]: "MaxTTL div second = 60"
  by (simp add: MaxTTL_def second_def)

lemma pop_check_valid:
  assumes "pop_check E K pub proof tc aud now = Inr c"
  shows "proof_valid E K pub proof tc aud now c"
proof -
  obtain cnf where cnf: "cm_Cnf tc = Some cnf"
    using assms by (cases "cm_Cnf tc") (auto simp: pop_check_def)
  have key: "thumbprint E pub = cn_JKT cnf"
    using assms by (auto simp: pop_check_def cnf split: if_splits)
  obtain h b s inp where sp: "split_compact proof = Some (h, b, s, inp)"
    using assms by (cases "split_compact proof") (auto simp: pop_check_def cnf key)
  have hdr: "Option.bind (raw_url_decode False h) (en_unmarshal_alg E) = Some ''EdDSA''"
    using assms by (auto simp: pop_check_def cnf key sp split: if_splits)
  obtain sg where sg: "raw_url_decode False s = Some sg"
    using assms by (cases "raw_url_decode False s") (auto simp: pop_check_def cnf key sp hdr)
  have ver: "en_verify E pub inp sg"
    using assms by (auto simp: pop_check_def cnf key sp hdr sg split: if_splits)
  have body: "Option.bind (raw_url_decode False b) (po_unmarshal K) = Some c"
    using assms by (cases "Option.bind (raw_url_decode False b) (po_unmarshal K)")
      (auto simp: pop_check_def cnf key sp hdr sg ver split: if_splits)
  have "pc_Sub c = cn_JKT cnf \<and> wrap64 (pc_Expires c - pc_IssuedAt c) \<le> 60 \<and> unix now < pc_Expires c \<and> pc_Aud c = aud
     \<and> (pc_TokenJTI c = [] \<or> pc_TokenJTI c = cm_ID tc)"
    using assms by (simp add: pop_check_def cnf key sp hdr sg ver body linorder_not_less linorder_not_le split: if_splits)
  with cnf key sp split_compact_span [OF sp] hdr sg ver body show ?thesis
    by (cases cnf) (auto simp: proof_valid_def proof_claims_def bind_eq_Some_conv)
qed

lemma pop_check_Inr: "pop_check E K pub proof tc aud now = Inr c \<longleftrightarrow> proof_valid E K pub proof tc aud now c"
proof
  assume v: "proof_valid E K pub proof tc aud now c"
  then obtain h b s hb sg where p: "split_compact proof = Some (h, b, s, h @ ''.'' @ b)"
      "raw_url_decode False h = Some hb" "en_unmarshal_alg E hb = Some ''EdDSA''"
      "raw_url_decode False s = Some sg" "en_verify E pub (h @ ''.'' @ b) sg"
    by (auto simp: proof_valid_def)
  with v have "Option.bind (raw_url_decode False b) (po_unmarshal K) = Some c"
    by (simp add: proof_valid_def proof_claims_def)
  with v p show "pop_check E K pub proof tc aud now = Inr c"
    by (auto simp: pop_check_def proof_valid_def)
qed (rule pop_check_valid)

context replay_store
begin

text \<open>A proof that was accepted stays recorded until its expiry.\<close>

definition spent :: "pop_codec \<Rightarrow> 'r \<Rightarrow> string \<Rightarrow> time \<Rightarrow> bool" where
  "spent K r proof now \<longleftrightarrow>
     (\<exists>c. proof_claims K proof = Some c \<and> (\<forall>t. now \<le> t \<and> t < go_unix (pc_Expires c) \<longrightarrow> live r (pc_Jti c) t))"

lemma spent_later: "spent K r proof now \<Longrightarrow> now \<le> now' \<Longrightarrow> spent K r proof now'"
  unfolding spent_def by (meson order_trans)

lemma verify_seen:
  assumes "inv r" and "pop_verify E K pub proof tc aud now (Some seen) r = (res, r')"
  obtains (failed) "isl res" and "r' = r"
  | (checked) c b where "proof_valid E K pub proof tc aud now c" and "isl res = b"
      and "seen (pc_Jti c) (go_unix (pc_Expires c)) now r = (b, r')"
proof (cases "pop_check E K pub proof tc aud now")
  case (Inl e)
  with assms(2) have "res = Inl e" "r' = r" by (simp_all add: pop_verify_def)
  then show thesis by (intro failed) simp_all
next
  case (Inr c)
  obtain b r1 where "seen (pc_Jti c) (go_unix (pc_Expires c)) now r = (b, r1)" by fastforce
  moreover from this Inr assms(2) have "res = (if b then Inl PopReplay else Inr c)" "r1 = r'"
    by (auto simp: pop_verify_def)
  then have "isl res = b" "r1 = r'" by simp_all
  moreover have "proof_valid E K pub proof tc aud now c" using Inr by (simp add: pop_check_Inr)
  ultimately show thesis using checked by blast
qed

lemma verify_keeps:
  assumes "inv r" and "pop_verify E K pub proof tc aud now (Some seen) r = (res, r')"
  shows "inv r' \<and> (spent K r p now \<longrightarrow> spent K r' p now)"
  using assms
proof (cases rule: verify_seen)
  case (checked c b)
  from seen_inv [OF assms(1) checked(3)] seen_keeps [OF assms(1) checked(3)] show ?thesis
    unfolding spent_def by blast
qed (use assms in simp)

lemma verify_once:
  assumes "inv r" and "pop_verify E K pub proof tc aud now (Some seen) r = (res, r')" and "\<not> isl res"
    and "\<forall>c. proof_claims K proof = Some c \<longrightarrow> in_int64 (pc_Expires c + unix_epoch)"
  shows "\<not> spent K r proof now \<and> spent K r' proof now"
  using assms(1,2)
proof (cases rule: verify_seen)
  case (checked c b)
  then have c: "proof_claims K proof = Some c" "unix now < pc_Expires c" by (simp_all add: proof_valid_def)
  then have "go_unix (pc_Expires c) = time_unix (pc_Expires c)"
    using assms(4) by (simp add: go_unix_def wrap64_id)
  then have "now < go_unix (pc_Expires c)" using c(2) time_unix_le by simp
  moreover have "\<not> b" using assms(3) checked(2) by simp
  ultimately show ?thesis
    using seen_live [OF assms(1) checked(3)] seen_records [OF assms(1), of "pc_Jti c"] checked(3) c(1)
    by (auto simp: spent_def)
qed (use assms in simp)

lemma run_once:
  assumes "\<forall>c. proof_claims K p = Some c \<longrightarrow> in_int64 (pc_Expires c + unix_epoch)"
  shows "inv r \<Longrightarrow> sorted (now # map pq_Now qs) \<Longrightarrow> pop_run E K seen qs r = (accepted, r') \<Longrightarrow>
    inv r' \<and> count_list accepted p \<le> (if spent K r p now then 0 else 1)"
proof (induction qs arbitrary: r now accepted r')
  case (Cons q qs)
  obtain res r1 where v: "pop_verify E K (pq_Pub q) (pq_Proof q) (pq_Token q) (pq_Aud q) (pq_Now q) (Some seen) r = (res, r1)"
    by fastforce
  obtain acc r2 where run: "pop_run E K seen qs r1 = (acc, r2)" by fastforce
  have out: "accepted = (if isl res then acc else pq_Proof q # acc)" "r' = r2"
    using Cons.prems(3) v run by simp_all
  have keep: "inv r1" "spent K r p (pq_Now q) \<longrightarrow> spent K r1 p (pq_Now q)"
    using verify_keeps [OF Cons.prems(1) v] by simp_all
  have ih: "inv r2" "count_list acc p \<le> (if spent K r1 p (pq_Now q) then 0 else 1)"
    using Cons.IH [OF keep(1) _ run, of "pq_Now q"] Cons.prems(2) by simp_all
  have later: "spent K r p now \<Longrightarrow> spent K r p (pq_Now q)"
    using spent_later Cons.prems(2) by simp
  show ?case
  proof (cases "\<not> isl res \<and> pq_Proof q = p")
    case True
    then have "\<not> spent K r p (pq_Now q) \<and> spent K r1 p (pq_Now q)"
      using verify_once [OF Cons.prems(1) v] assms by simp
    with True ih out later show ?thesis by auto
  next
    case False
    then have "count_list accepted p = count_list acc p" using out by auto
    with ih keep later out show ?thesis by (auto split: if_splits)
  qed
qed simp

end

subsection \<open>The in-memory store meets it\<close>

definition mem_live :: "time gomap \<Rightarrow> string \<Rightarrow> time \<Rightarrow> bool" where
  "mem_live m j t \<longleftrightarrow> (case lookup m j of None \<Rightarrow> False | Some e \<Rightarrow> t < e)"

lemma lookup_filter_expired:
  "wf_map m \<Longrightarrow> mem_live (filter (\<lambda>(_, e). now < e) m) j t \<longleftrightarrow> mem_live m j t \<and> mem_live m j now"
proof (induction m)
  case (Cons x m)
  have "j \<notin> fst ` set m \<Longrightarrow> lookup (filter (\<lambda>(_, e). now < e) m) j = None"
    by (auto simp: map_of_eq_None_iff)
  moreover have "j \<notin> fst ` set m \<Longrightarrow> lookup m j = None" by (simp add: map_of_eq_None_iff)
  ultimately show ?case using Cons by (cases x) (auto simp: mem_live_def wf_map_def)
qed (simp add: mem_live_def)

lemma mem_seen_law:
  assumes "wf_map m" and "mem_seen j e now m = (b, m')"
  shows "wf_map m' \<and> (b \<longleftrightarrow> mem_live m j now)
    \<and> (now \<le> t \<longrightarrow> mem_live m' i t \<longleftrightarrow> (if i = j \<and> \<not> b then t < e else mem_live m i t))"
proof (cases "mem_live m j now")
  case True
  with assms show ?thesis by (auto simp: mem_seen_def mem_live_def)
next
  case False
  let ?m = "AList.update j e m"
  have wf: "wf_map ?m" "wf_map (filter (\<lambda>(_, e). now < e) ?m)"
    using wf_map_update [OF assms(1), of j e] by (simp_all add: wf_map_def distinct_map_filter)
  from False assms(2) have m': "\<not> b" "m' = ?m \<or> m' = filter (\<lambda>(_, e). now < e) ?m"
    by (auto simp: mem_seen_def mem_live_def Let_def split: if_splits)
  have "mem_live ?m i t \<longleftrightarrow> (if i = j then t < e else mem_live m i t)" for i t
    by (simp add: mem_live_def update_conv')
  moreover have "now \<le> t \<Longrightarrow> mem_live n i t \<Longrightarrow> mem_live n i now" for n i
    by (auto simp: mem_live_def split: option.splits)
  ultimately show ?thesis
    using m' wf False lookup_filter_expired [OF wf(1)] by auto
qed

interpretation mem_replay: replay_store mem_seen mem_live wf_map
proof
  fix r :: "time gomap" and j e now b r'
  assume "wf_map r" "mem_seen j e now r = (b, r')"
  note law = mem_seen_law [OF this]
  show "wf_map r'" "b \<longleftrightarrow> mem_live r j now" using law by blast+
  fix i t
  assume "now \<le> t"
  with law show "mem_live r i t \<Longrightarrow> mem_live r' i t"
    by (auto simp: mem_live_def split: option.splits if_splits)
next
  fix r :: "time gomap" and j e now r' t
  assume "wf_map r" "mem_seen j e now r = (False, r')" "now \<le> t" "t < e"
  with mem_seen_law [of r j e now False r' t j] show "mem_live r' j t" by simp
qed

text \<open>A proof as \<^verbatim>\<open>Sign\<close> makes it.\<close>

definition signed_claims :: "'z env_scheme \<Rightarrow> string \<Rightarrow> string \<Rightarrow> string \<Rightarrow> string \<Rightarrow> string \<Rightarrow> string \<Rightarrow> duration \<Rightarrow> time \<Rightarrow> pop_claims" where
  "signed_claims E nonce priv tid aud method path ttl now =
     \<lparr>pc_Jti = nonce, pc_Sub = thumbprint E (en_public E priv), pc_Aud = aud, pc_Method = method, pc_Path = path,
      pc_TokenJTI = tid, pc_IssuedAt = unix now,
      pc_Expires = unix (now + (if ttl \<le> 0 \<or> MaxTTL < ttl then MaxTTL else ttl))\<rparr>"

lemma unix_add_le: "d \<le> MaxTTL \<Longrightarrow> unix (now + d) - unix now \<le> 60"
  by (simp add: unix_def MaxTTL_def second_def)

lemma pop_sign_check:
  assumes "env_ok E" and "pop_codec_ok E K (signed_claims E nonce priv tid aud method path ttl now)"
    and "pop_sign E K nonce priv tid aud method path ttl now = Some proof"
    and "cm_Cnf tc = Some \<lparr>cn_JKT = thumbprint E (en_public E priv)\<rparr>" and "tid = [] \<or> tid = cm_ID tc"
  shows "pop_check E K (en_public E priv) proof tc aud t
     = (if unix t < pc_Expires (signed_claims E nonce priv tid aud method path ttl now)
        then Inr (signed_claims E nonce priv tid aud method path ttl now) else Inl PopExpired)"
proof -
  let ?c = "signed_claims E nonce priv tid aud method path ttl now"
  obtain body where body: "po_marshal K ?c = Some body"
    using assms(3) by (auto simp: pop_sign_def signed_claims_def Let_def split: option.splits)
  let ?h = "raw_url_encode (po_header K)" and ?b = "raw_url_encode body"
  let ?s = "raw_url_encode (en_sign E priv (?h @ ''.'' @ ?b))"
  have proof_eq: "proof = ?h @ CHR ''.'' # ?b @ CHR ''.'' # ?s"
    using assms(3) body by (simp add: pop_sign_def signed_claims_def Let_def)
  have sp: "split_compact proof = Some (?h, ?b, ?s, ?h @ ''.'' @ ?b)"
    unfolding proof_eq using split_compact_append [of ?h ?b ?s] by simp
  let ?d = "if ttl \<le> 0 \<or> MaxTTL < ttl then MaxTTL else ttl"
  have "unix now \<le> unix (now + ?d)" by (rule unix_mono) (simp add: MaxTTL_def second_def)
  moreover have "unix (now + ?d) - unix now \<le> 60" by (rule unix_add_le) simp
  ultimately have short: "wrap64 (pc_Expires ?c - pc_IssuedAt ?c) \<le> 60"
    by (subst wrap64_id) (simp_all add: in_int64_def signed_claims_def)
  have codec: "po_unmarshal K body = Some ?c" "en_unmarshal_alg E (po_header K) = Some ''EdDSA''"
    using assms(2) body by (simp_all add: pop_codec_ok_def)
  have sig: "en_verify E (en_public E priv) (?h @ ''.'' @ ?b) (en_sign E priv (?h @ ''.'' @ ?b))"
    using assms(1) by (simp add: env_ok_def)
  have fields: "pc_Sub ?c = thumbprint E (en_public E priv)" "pc_Aud ?c = aud" "pc_TokenJTI ?c = tid"
    by (simp_all add: signed_claims_def)
  show ?thesis
    using short assms(4,5) sig by (auto simp: pop_check_def sp codec fields)
qed

lemma wrap64_over:
  assumes "2 ^ 63 \<le> x" and "x < 2 ^ 64 + 2 ^ 63"
  shows "wrap64 x = x - 2 ^ 64"
proof -
  have "(x + 2 ^ 63) mod 2 ^ 64 = (x - 2 ^ 63 + 2 ^ 64) mod 2 ^ 64" by (simp add: add.commute)
  also have "\<dots> = (x - 2 ^ 63) mod 2 ^ 64" by (rule mod_add_self2)
  also have "\<dots> = x - 2 ^ 63" using assms by (intro mod_pos_pos_trivial) simp_all
  finally show ?thesis by (simp add: wrap64_def)
qed

text \<open>A nonce recorded with an expiry that has passed is not live.\<close>

lemma mem_seen_expired:
  assumes "wf_map m" and "\<not> mem_live m j now" and "e \<le> now"
  obtains m' where "mem_seen j e now m = (False, m')" and "wf_map m'" and "\<And>t. now \<le> t \<Longrightarrow> \<not> mem_live m' j t"
proof -
  obtain b m' where m': "mem_seen j e now m = (b, m')" by fastforce
  from mem_seen_law [OF assms(1) this, of _ j] assms(2,3) have "\<not> b" "wf_map m'" "\<And>t. now \<le> t \<Longrightarrow> \<not> mem_live m' j t"
    by auto
  with m' that show thesis by simp
qed

subsection \<open>A concrete codec\<close>

definition toy_pop_codec :: "pop_claims list \<Rightarrow> pop_codec" where
  "toy_pop_codec cs = \<lparr>po_header = ''{p'', po_marshal = (\<lambda>c. map_option (\<lambda>i. replicate i (CHR ''i'')) (position cs c)),
     po_unmarshal = (\<lambda>b. if length b < length cs then Some (cs ! length b) else None)\<rparr>"

lemma toy_pop_codec_ok [simp]: "pop_codec_ok (toy_env bs) (toy_pop_codec cs) c"
  by (auto simp: pop_codec_ok_def toy_env_def toy_pop_codec_def dest: position_Some)

definition ex_holder_token :: claims where
  "ex_holder_token = zero_claims\<lparr>cm_ID := ''t1'', cm_Cnf := Some \<lparr>cn_JKT = thumbprint (toy_env []) ''key''\<rparr>\<rparr>"

definition ex_pop_claims :: "time \<Rightarrow> pop_claims" where
  "ex_pop_claims now = signed_claims (toy_env []) ''n1'' ''key'' ''t1'' ''pep'' ''POST'' ''/call/x'' 0 now"

definition ex_pop :: "time \<Rightarrow> string" where
  "ex_pop now = the (pop_sign (toy_env []) (toy_pop_codec [ex_pop_claims now]) ''n1'' ''key'' ''t1'' ''pep'' ''POST'' ''/call/x'' 0 now)"

lemma ex_pop_signed:
  "pop_sign (toy_env []) (toy_pop_codec [ex_pop_claims now]) ''n1'' ''key'' ''t1'' ''pep'' ''POST'' ''/call/x'' 0 now = Some (ex_pop now)"
  by (simp add: ex_pop_def pop_sign_def ex_pop_claims_def signed_claims_def toy_pop_codec_def Let_def)

subsection \<open>Properties\<close>

text \<open>
  \<^verbatim>\<open>Verify\<close> accepts a proof exactly when the token is bound to the thumbprint of the presented
  key, the proof is a compact token signed by that key that names it as its subject, it claims at
  most 60 seconds from its issue to its expiry, has not expired, names the verifier's audience and,
  if it names a token, this one, and its nonce is not in the replay store.
\<close>

theorem pop_verify_exact:
  "fst (pop_verify E K pub proof tc aud now rs r) = Inr c \<longleftrightarrow>
     cm_Cnf tc = Some \<lparr>cn_JKT = thumbprint E pub\<rparr> \<and> pc_Sub c = thumbprint E pub
     \<and> (\<exists>h b s hb sg. split_compact proof = Some (h, b, s, h @ ''.'' @ b)
          \<and> raw_url_decode False h = Some hb \<and> en_unmarshal_alg E hb = Some ''EdDSA''
          \<and> raw_url_decode False s = Some sg \<and> en_verify E pub (h @ ''.'' @ b) sg)
     \<and> proof_claims K proof = Some c
     \<and> wrap64 (pc_Expires c - pc_IssuedAt c) \<le> 60 \<and> unix now < pc_Expires c \<and> pc_Aud c = aud
     \<and> (pc_TokenJTI c = [] \<or> pc_TokenJTI c = cm_ID tc)
     \<and> (case rs of None \<Rightarrow> True | Some seen \<Rightarrow> \<not> fst (seen (pc_Jti c) (go_unix (pc_Expires c)) now r))"
proof -
  have "fst (pop_verify E K pub proof tc aud now rs r) = Inr c \<longleftrightarrow> pop_check E K pub proof tc aud now = Inr c
      \<and> (case rs of None \<Rightarrow> True | Some seen \<Rightarrow> \<not> fst (seen (pc_Jti c) (go_unix (pc_Expires c)) now r))"
    by (auto simp: pop_verify_def split: sum.splits option.splits prod.splits)
  then show ?thesis by (simp add: pop_check_Inr proof_valid_def conj_assoc)
qed

text \<open>
  A proof is accepted at most once: in any sequence of verifications against one in-memory replay
  store, at times that do not go backwards, for any keys, tokens and audiences, and whenever the
  store prunes. The expiry must be one that Go's clock can represent.
\<close>

theorem pop_single_use:
  assumes "sorted (map pq_Now qs)" and "pop_run E K mem_seen qs new_replay = (accepted, m)"
    and "\<forall>c. proof_claims K p = Some c \<longrightarrow> in_int64 (pc_Expires c + unix_epoch)"
  shows "count_list accepted p \<le> 1"
proof -
  have "sorted (Min (set (0 # map pq_Now qs)) # map pq_Now qs)" using assms(1) by simp
  then show ?thesis
    using mem_replay.run_once [OF assms(3) _ _ assms(2)] by (fastforce simp: new_replay_def wf_map_def split: if_splits)
qed

definition ex_pop_requests :: "pop_request list" where
  "ex_pop_requests = map (\<lambda>t. \<lparr>pq_Pub = ''key'', pq_Proof = ex_pop 0, pq_Token = ex_holder_token, pq_Aud = ''pep'',
     pq_Now = t * second\<rparr>) [0, 1, 59, 60, 61]"

theorem pop_single_use_witness:
  "fst (pop_run (toy_env []) (toy_pop_codec [ex_pop_claims 0]) mem_seen ex_pop_requests new_replay) = [ex_pop 0]
     \<and> count_list (fst (pop_run (toy_env []) (toy_pop_codec [ex_pop_claims 0]) mem_seen ex_pop_requests new_replay)) (ex_pop 0) \<le> 1"
proof -
  let ?K = "toy_pop_codec [ex_pop_claims 0]"
  have run: "fst (pop_run (toy_env []) ?K mem_seen ex_pop_requests new_replay) = [ex_pop 0]"
    and claims: "proof_claims ?K (ex_pop 0) = Some (ex_pop_claims 0)"
    and "in_int64 (pc_Expires (ex_pop_claims 0) + unix_epoch)" and "sorted (map pq_Now ex_pop_requests)" by code_simp+
  with pop_single_use [of ex_pop_requests "toy_env []" ?K _ _ "ex_pop 0", OF _ prod.collapse [symmetric]]
  show ?thesis by simp
qed

text \<open>
  What the holder signs, the verifier accepts: a proof signed for a token bound to the holder's
  key verifies, with the claims as signed, at every time before its expiry. That includes every
  time before the proof was issued: nothing compares \<^verbatim>\<open>iat\<close> with the clock, so a proof dated ahead
  stays valid for as long as it is dated ahead, not for 60 seconds.
\<close>

theorem pop_roundtrip:
  assumes "env_ok E" and "pop_codec_ok E K (signed_claims E nonce priv tid aud method path ttl now)"
    and "pop_sign E K nonce priv tid aud method path ttl now = Some proof"
    and "cm_Cnf tc = Some \<lparr>cn_JKT = thumbprint E (en_public E priv)\<rparr>" and "tid = [] \<or> tid = cm_ID tc"
  shows "pop_verify E K (en_public E priv) proof tc aud t None r
     = (if unix t < pc_Expires (signed_claims E nonce priv tid aud method path ttl now)
        then Inr (signed_claims E nonce priv tid aud method path ttl now) else Inl PopExpired, r)"
  using pop_sign_check [OF assms, of t] by (simp add: pop_verify_def)

theorem pop_roundtrip_witness:
  "fst (pop_verify (toy_env []) (toy_pop_codec [ex_pop_claims (time_unix 1000000)]) ''key'' (ex_pop (time_unix 1000000))
     ex_holder_token ''pep'' 0 None ()) = Inr (ex_pop_claims (time_unix 1000000))"
proof -
  let ?c = "ex_pop_claims (time_unix 1000000)"
  have "unix 0 < pc_Expires ?c" by code_simp
  then show ?thesis
    using pop_roundtrip [OF toy_env_ok toy_pop_codec_ok ex_pop_signed, of ex_holder_token "time_unix 1000000" 0 "()"]
    by (simp add: ex_holder_token_def toy_env_def ex_pop_claims_def)
qed

text \<open>
  The exception to single use: a proof whose expiry exceeds what Go's clock can represent (within
  \<^verbatim>\<open>unix_epoch\<close> seconds of the largest \<^verbatim>\<open>int64\<close>) is recorded with an expiry in the past, and is
  accepted every time it is presented.
\<close>

theorem pop_overflow_replays:
  assumes "\<forall>q \<in> set qs. pq_Proof q = p \<and> 0 \<le> pq_Now q
      \<and> pop_check E K (pq_Pub q) p (pq_Token q) (pq_Aud q) (pq_Now q) = Inr c"
    and "sorted (map pq_Now qs)" and "in_int64 (pc_Expires c)" and "2 ^ 63 \<le> pc_Expires c + unix_epoch"
  shows "fst (pop_run E K mem_seen qs new_replay) = replicate (length qs) p"
proof -
  have "wrap64 (pc_Expires c + unix_epoch) = pc_Expires c + unix_epoch - 2 ^ 64"
    using assms(3,4) by (intro wrap64_over) (simp_all add: in_int64_def unix_epoch_def)
  then have wrap: "go_unix (pc_Expires c) \<le> 0"
    using assms(3) by (simp add: go_unix_def time_unix_def second_def in_int64_def)
  have "wf_map m \<Longrightarrow> \<forall>t. now \<le> t \<longrightarrow> \<not> mem_live m (pc_Jti c) t \<Longrightarrow> sorted (now # map pq_Now qs) \<Longrightarrow>
      fst (pop_run E K mem_seen qs m) = replicate (length qs) p" for m now
    using assms(1)
  proof (induction qs arbitrary: m now)
    case (Cons q qs)
    then have q: "pq_Proof q = p" "0 \<le> pq_Now q" "now \<le> pq_Now q"
      and check: "pop_check E K (pq_Pub q) p (pq_Token q) (pq_Aud q) (pq_Now q) = Inr c" by simp_all
    have "go_unix (pc_Expires c) \<le> pq_Now q" using wrap q by simp
    then obtain m' where m': "mem_seen (pc_Jti c) (go_unix (pc_Expires c)) (pq_Now q) m = (False, m')" "wf_map m'"
        "\<And>t. pq_Now q \<le> t \<Longrightarrow> \<not> mem_live m' (pc_Jti c) t"
      using mem_seen_expired [OF Cons.prems(1)] Cons.prems(2) q by metis
    then have "pop_verify E K (pq_Pub q) p (pq_Token q) (pq_Aud q) (pq_Now q) (Some mem_seen) m = (Inr c, m')"
      by (simp add: pop_verify_def check)
    then show ?case
      using Cons.IH [of m' "pq_Now q"] m' Cons.prems(3,4) q by (simp add: split_beta)
  qed simp
  from this [of new_replay "Min (set (0 # map pq_Now qs))"] assms(2) show ?thesis
    by (simp add: new_replay_def wf_map_def mem_live_def)
qed

definition ex_late :: time where
  "ex_late = time_unix (2 ^ 63 - 100)"

theorem pop_overflow_replays_witness:
  "fst (pop_run (toy_env []) (toy_pop_codec [ex_pop_claims ex_late]) mem_seen
     (replicate 3 \<lparr>pq_Pub = ''key'', pq_Proof = ex_pop ex_late, pq_Token = ex_holder_token, pq_Aud = ''pep'', pq_Now = 0\<rparr>)
     new_replay) = replicate 3 (ex_pop ex_late)"
proof -
  let ?c = "ex_pop_claims ex_late" and ?K = "toy_pop_codec [ex_pop_claims ex_late]"
  have "pop_check (toy_env []) ?K ''key'' (ex_pop ex_late) ex_holder_token ''pep'' 0 = Inr ?c" by code_simp
  moreover have "in_int64 (pc_Expires ?c)" "2 ^ 63 \<le> pc_Expires ?c + unix_epoch" by code_simp+
  ultimately show ?thesis
    using pop_overflow_replays [of "replicate 3 \<lparr>pq_Pub = ''key'', pq_Proof = ex_pop ex_late, pq_Token = ex_holder_token,
        pq_Aud = ''pep'', pq_Now = 0\<rparr>" "ex_pop ex_late" "toy_env []" ?K ?c] by simp
qed

end
