(* ===== verification/Pep.thy ===== *)
theory Pep
  imports Pop Broker_Sample
begin

section \<open>The policy enforcement point (\<^verbatim>\<open>internal/pep\<close>)\<close>

text \<open>
  The HTTP proxy in front of the tools: \<^verbatim>\<open>ServeHTTP\<close> is \<open>serve_pep\<close>, which returns the answer, the
  request it sent upstream, if any, and the next state: the world of the broker and the replay
  store. The JSON decoder of the body (with its limit of 1 MiB) and the upstream server are arguments.
  A request reads the clock once.
\<close>

subsection \<open>Requests\<close>

text \<open>\<open>hr_Header\<close> is \<^verbatim>\<open>Header.Get\<close>: the first value of a header, the empty string when it is absent.\<close>

record http_request =
  hr_Method :: string
  hr_Path :: string
  hr_Header :: "string \<Rightarrow> string"
  hr_Body :: string

subsection \<open>Routes\<close>

record route =
  rt_Tool :: string
  rt_Upstream :: string

text \<open>\<^verbatim>\<open>LoadRoutes\<close> after reading the file; \<open>parse\<close> is \<^verbatim>\<open>json.Unmarshal\<close>.\<close>

datatype routes_err = RoutesJson | RoutesPattern pattern_err

definition load_routes :: "(string \<Rightarrow> route list option) \<Rightarrow> string \<Rightarrow> routes_err + route list" where
  "load_routes parse b =
     (case parse b of
        None \<Rightarrow> Inl RoutesJson
      | Some rs \<Rightarrow>
          (case first_err (\<lambda>r. validate_pattern (rt_Tool r)) rs of Some e \<Rightarrow> Inl (RoutesPattern e) | None \<Rightarrow> Inr rs))"

record ('s, 'r) pep =
  pe_Svc :: "'s broker"
  pe_Routes :: "route list"
  pe_Replay :: "'r seen_op"
  pe_Audience :: string

definition new_pep :: "'s broker \<Rightarrow> route list \<Rightarrow> ('s, time gomap) pep" where
  "new_pep svc routes =
     \<lparr>pe_Svc = svc, pe_Routes = sort_key (\<lambda>r. - int (length (rt_Tool r))) routes, pe_Replay = mem_seen,
      pe_Audience = ''warrant-pep''\<rparr>"

fun find_route :: "route list \<Rightarrow> string \<Rightarrow> string option" where
  "find_route [] tool = None"
| "find_route (r # rs) tool = (if match_pat (rt_Tool r) tool then Some (rt_Upstream r) else find_route rs tool)"

definition upstream :: "('s, 'r) pep \<Rightarrow> string \<Rightarrow> string option" where
  "upstream g tool = find_route (pe_Routes g) tool"

subsection \<open>Proof of possession\<close>

datatype pop_refusal =
    NoProof
  | BadKey
  | BadKeyLength
  | PopRefused pop_err
  | BoundToMethod string
  | BoundToPath string

definition check_pop ::
    "'z env_scheme \<Rightarrow> pop_codec \<Rightarrow> time \<Rightarrow> 'r seen_op \<Rightarrow> string \<Rightarrow> http_request \<Rightarrow> string \<Rightarrow> string \<Rightarrow> claims \<Rightarrow> 'r
       \<Rightarrow> pop_refusal option \<times> 'r" where
  "check_pop E K now seen aud req keyB64 proof c r =
     (if keyB64 = [] \<or> proof = [] then (Some NoProof, r)
      else
        (case (case raw_url_decode False keyB64 of Some k \<Rightarrow> Some k | None \<Rightarrow> std_decode keyB64) of
           None \<Rightarrow> (Some BadKey, r)
         | Some key \<Rightarrow>
             if length key \<noteq> 32 then (Some BadKeyLength, r)
             else
               (case pop_verify E K key proof c aud now (Some seen) r of
                  (Inl e, r') \<Rightarrow> (Some (PopRefused e), r')
                | (Inr pc, r') \<Rightarrow>
                    (if pc_Method pc \<noteq> [] \<and> pc_Method pc \<noteq> hr_Method req then Some (BoundToMethod (pc_Method pc))
                     else if pc_Path pc \<noteq> [] \<and> pc_Path pc \<noteq> hr_Path req then Some (BoundToPath (pc_Path pc))
                     else None, r'))))"

definition pep_check_pop ::
    "'z env_scheme \<Rightarrow> pop_codec \<Rightarrow> time \<Rightarrow> ('s, 'r) pep \<Rightarrow> http_request \<Rightarrow> claims \<Rightarrow> 'r \<Rightarrow> pop_refusal option \<times> 'r" where
  "pep_check_pop E K now g req c r =
     check_pop E K now (pe_Replay g) (pe_Audience g) req
       (hr_Header req ''X-Warrant-PoP-Key'') (hr_Header req ''X-Warrant-PoP'') c r"

subsection \<open>Serving a call\<close>

text \<open>What goes upstream: the URL, the fields of the JSON body, and the headers that are set.\<close>

record forwarded =
  fw_URL :: string
  fw_Tool :: string
  fw_Resource :: string
  fw_Args :: "any gomap"
  fw_Subject :: string
  fw_Human :: string
  fw_TokenID :: string
  fw_ActionHash :: string

datatype upstream_result = UpBadURL | UpTimeout | UpFailed | UpReply int string string

datatype pep_reason =
    UsePost
  | BadBody
  | NoRoute string
  | NotAllowed reason
  | PopFailed pop_refusal
  | UpstreamBadURL
  | UpstreamTimeout
  | UpstreamFailed

text \<open>A denial carries the decision, if there is one; a reply the status, content type and body.\<close>

datatype pep_reply = PepDeny int pep_reason "decision option" | PepReply int string string

record ('s, 'r) pep_state =
  ps_World :: "'s world"
  ps_Replay :: 'r

definition forward_call ::
    "(forwarded \<Rightarrow> upstream_result) \<Rightarrow> string \<Rightarrow> call \<Rightarrow> decision \<Rightarrow> pep_reply \<times> forwarded" where
  "forward_call up url a d =
     (let f = \<lparr>fw_URL = url, fw_Tool = cl_Tool a, fw_Resource = cl_Resource a, fw_Args = cl_Args a,
               fw_Subject = cm_Subject (dc_Claims d), fw_Human = cm_Human (dc_Claims d),
               fw_TokenID = cm_ID (dc_Claims d), fw_ActionHash = dc_ActionHash d\<rparr>
      in (case up f of
            UpBadURL \<Rightarrow> PepDeny 502 UpstreamBadURL None
          | UpTimeout \<Rightarrow> PepDeny 504 UpstreamTimeout None
          | UpFailed \<Rightarrow> PepDeny 502 UpstreamFailed None
          | UpReply code ct body \<Rightarrow> PepReply code ct body, f))"

definition serve_pep ::
    "'z broker_env_scheme \<Rightarrow> pop_codec \<Rightarrow> (string \<Rightarrow> (string \<times> any gomap) option) \<Rightarrow> (forwarded \<Rightarrow> upstream_result) \<Rightarrow>
       time \<Rightarrow> ('s, 'r) pep \<Rightarrow> http_request \<Rightarrow> ('s, 'r) pep_state
       \<Rightarrow> (pep_reply \<times> forwarded option) \<times> ('s, 'r) pep_state" where
  "serve_pep E K decode up now g req st =
     (if hr_Method req \<noteq> ''POST'' \<or> \<not> has_prefix (hr_Path req) ''/call/'' then ((PepDeny 404 UsePost None, None), st)
      else
        let tool = trim_prefix (hr_Path req) ''/call/'' in
        (case decode (hr_Body req) of
           None \<Rightarrow> ((PepDeny 400 BadBody None, None), st)
         | Some (resource, args) \<Rightarrow>
             let a = \<lparr>cl_Tool = tool, cl_Resource = resource, cl_Args = args\<rparr> in
             (case upstream g tool of
                None \<Rightarrow> ((PepDeny 404 (NoRoute tool) None, None), st)
              | Some url \<Rightarrow>
                  let tok = trim_prefix (hr_Header req ''Authorization'') ''Bearer '' in
                  (case authorize E now (pe_Svc g)
                      \<lparr>au_Token = tok, au_SVID = hr_Header req ''X-Warrant-SVID'',
                       au_Approval = hr_Header req ''X-Warrant-Approval'', au_Call = a\<rparr> (ps_World st) of
                     (d, w') \<Rightarrow>
                       let st1 = st\<lparr>ps_World := w'\<rparr> in
                       if \<not> dc_Allow d then ((PepDeny 403 (NotAllowed (dc_Reason d)) (Some d), None), st1)
                       else
                         (case (if cm_Cnf (dc_Claims d) = None then (None, ps_Replay st1)
                                else pep_check_pop E K now g req (dc_Claims d) (ps_Replay st1)) of
                            (Some e, r') \<Rightarrow> ((PepDeny 401 (PopFailed e) (Some d), None), st1\<lparr>ps_Replay := r'\<rparr>)
                          | (None, r') \<Rightarrow>
                              (case forward_call up url a d of
                                 (reply, f) \<Rightarrow> ((reply, Some f), st1\<lparr>ps_Replay := r'\<rparr>)))))))"

subsection \<open>Lemmas\<close>

text \<open>The request to the broker that an HTTP request becomes.\<close>

definition pep_request :: "http_request \<Rightarrow> call \<Rightarrow> authorize_request" where
  "pep_request req a = \<lparr>au_Token = trim_prefix (hr_Header req ''Authorization'') ''Bearer '', au_SVID = hr_Header req ''X-Warrant-SVID'',
     au_Approval = hr_Header req ''X-Warrant-Approval'', au_Call = a\<rparr>"

text \<open>The call and the URL of a well-formed request for a tool that has a route.\<close>

definition pep_call :: "(string \<Rightarrow> (string \<times> any gomap) option) \<Rightarrow> ('s, 'r) pep \<Rightarrow> http_request \<Rightarrow> (call \<times> string) option" where
  "pep_call decode g req =
     (if hr_Method req \<noteq> ''POST'' \<or> \<not> has_prefix (hr_Path req) ''/call/'' then None
      else
        let tool = trim_prefix (hr_Path req) ''/call/'' in
        Option.bind (decode (hr_Body req)) (\<lambda>(resource, args).
          map_option (Pair \<lparr>cl_Tool = tool, cl_Resource = resource, cl_Args = args\<rparr>) (upstream g tool)))"

text \<open>The check of a holder-bound token; a token without \<^verbatim>\<open>cnf\<close> needs none.\<close>

definition pop_step ::
    "'z env_scheme \<Rightarrow> pop_codec \<Rightarrow> time \<Rightarrow> ('s, 'r) pep \<Rightarrow> http_request \<Rightarrow> claims \<Rightarrow> 'r \<Rightarrow> pop_refusal option \<times> 'r" where
  "pop_step E K now g req c r = (if cm_Cnf c = None then (None, r) else pep_check_pop E K now g req c r)"

lemma serve_pep_none: "pep_call decode g req = None \<Longrightarrow> \<exists>reply. serve_pep E K decode up now g req st = ((reply, None), st)"
  by (auto simp: pep_call_def serve_pep_def Let_def split: option.splits prod.splits if_splits)

lemma serve_pep_some:
  assumes "pep_call decode g req = Some (a, url)" and "authorize E now (pe_Svc g) (pep_request req a) (ps_World st) = (d, w')"
  shows "serve_pep E K decode up now g req st =
     (if \<not> dc_Allow d then ((PepDeny 403 (NotAllowed (dc_Reason d)) (Some d), None), st\<lparr>ps_World := w'\<rparr>)
      else
        (case pop_step E K now g req (dc_Claims d) (ps_Replay st) of
           (Some e, r') \<Rightarrow> ((PepDeny 401 (PopFailed e) (Some d), None), st\<lparr>ps_World := w', ps_Replay := r'\<rparr>)
         | (None, r') \<Rightarrow> ((fst (forward_call up url a d), Some (snd (forward_call up url a d))),
             st\<lparr>ps_World := w', ps_Replay := r'\<rparr>)))"
proof -
  have m: "(hr_Method req \<noteq> ''POST'' \<or> \<not> has_prefix (hr_Path req) ''/call/'') = False"
    using assms(1) by (simp only: pep_call_def split: if_splits) simp_all
  obtain resource args where b: "decode (hr_Body req) = Some (resource, args)"
    and a: "a = \<lparr>cl_Tool = trim_prefix (hr_Path req) ''/call/'', cl_Resource = resource, cl_Args = args\<rparr>"
    and u: "upstream g (trim_prefix (hr_Path req) ''/call/'') = Some url"
    using assms(1) m by (cases "decode (hr_Body req)") (auto simp: pep_call_def Let_def)
  have au: "authorize E now (pe_Svc g) \<lparr>au_Token = trim_prefix (hr_Header req ''Authorization'') ''Bearer '',
      au_SVID = hr_Header req ''X-Warrant-SVID'', au_Approval = hr_Header req ''X-Warrant-Approval'',
      au_Call = \<lparr>cl_Tool = trim_prefix (hr_Path req) ''/call/'', cl_Resource = resource, cl_Args = args\<rparr>\<rparr> (ps_World st) = (d, w')"
    using assms(2) by (simp only: pep_request_def a)
  obtain e r' where p: "(if cm_Cnf (dc_Claims d) = None then (None, ps_Replay st)
      else pep_check_pop E K now g req (dc_Claims d) (ps_Replay st)) = (e, r')" by fastforce
  then have p': "pop_step E K now g req (dc_Claims d) (ps_Replay st) = (e, r')" by (simp only: pop_step_def)
  obtain reply f where f: "forward_call up url a d = (reply, f)" by fastforce
  have st: "ps_Replay (st\<lparr>ps_World := w'\<rparr>) = ps_Replay st" by simp
  show ?thesis
    unfolding serve_pep_def m if_False Let_def b u option.case prod.case au st p p' f [unfolded a] a
    by (cases e) (simp_all add: f [unfolded a])
qed

lemma check_pop_cases:
  assumes "check_pop E K now seen aud req keyB64 proof c r = (e, r')"
  obtains (refused) "e \<noteq> None" and "r' = r"
  | (checked) key res where "pop_verify E K key proof c aud now (Some seen) r = (res, r')" and "e = None \<Longrightarrow> \<not> isl res"
  using assms by (fastforce simp: check_pop_def split: if_splits option.splits sum.splits prod.splits)

context replay_store
begin

lemma check_pop_keeps:
  assumes "inv r" and "check_pop E K now seen aud req keyB64 proof c r = (e, r')"
  shows "inv r' \<and> (spent K r p now \<longrightarrow> spent K r' p now)"
  using assms(2)
proof (cases rule: check_pop_cases)
  case (checked key res)
  from verify_keeps [OF assms(1) checked(1)] show ?thesis .
qed (use assms in simp)

lemma check_pop_once:
  assumes "inv r" and "check_pop E K now seen aud req keyB64 proof c r = (None, r')"
    and "\<forall>c. proof_claims K proof = Some c \<longrightarrow> in_int64 (pc_Expires c + unix_epoch)"
  shows "\<not> spent K r proof now \<and> spent K r' proof now"
  using assms(2)
proof (cases rule: check_pop_cases)
  case (checked key res)
  from verify_once [OF assms(1) checked(1) _ assms(3)] checked(2) show ?thesis by simp
qed simp

end

text \<open>
  The proof a request spent: that of a call that went upstream on a holder-bound token. A sequence of
  requests, each at a time of its own, and the proofs it spent.
\<close>

definition proof_spent ::
    "'z broker_env_scheme \<Rightarrow> pop_codec \<Rightarrow> (string \<Rightarrow> (string \<times> any gomap) option) \<Rightarrow> (forwarded \<Rightarrow> upstream_result) \<Rightarrow>
       time \<Rightarrow> ('s, 'r) pep \<Rightarrow> http_request \<Rightarrow> ('s, 'r) pep_state \<Rightarrow> string list" where
  "proof_spent E K decode up now g req st =
     (case pep_call decode g req of
        None \<Rightarrow> []
      | Some (a, url) \<Rightarrow>
          let d = fst (authorize E now (pe_Svc g) (pep_request req a) (ps_World st)) in
          if cm_Cnf (dc_Claims d) \<noteq> None \<and> snd (fst (serve_pep E K decode up now g req st)) \<noteq> None
          then [hr_Header req ''X-Warrant-PoP''] else [])"

fun pep_run ::
    "'z broker_env_scheme \<Rightarrow> pop_codec \<Rightarrow> (string \<Rightarrow> (string \<times> any gomap) option) \<Rightarrow> (forwarded \<Rightarrow> upstream_result) \<Rightarrow>
       ('s, 'r) pep \<Rightarrow> (time \<times> http_request) list \<Rightarrow> ('s, 'r) pep_state \<Rightarrow> string list \<times> ('s, 'r) pep_state" where
  "pep_run E K decode up g [] st = ([], st)"
| "pep_run E K decode up g ((now, req) # qs) st =
     (let st1 = snd (serve_pep E K decode up now g req st);
          (proofs, st2) = pep_run E K decode up g qs st1
      in (proof_spent E K decode up now g req st @ proofs, st2))"

lemma serve_pep_replay:
  assumes "serve_pep E K decode up now g req st = (out, st1)"
  obtains (idle) "ps_Replay st1 = ps_Replay st" and "proof_spent E K decode up now g req st = []"
  | (checked) c e where "pep_check_pop E K now g req c (ps_Replay st) = (e, ps_Replay st1)"
      and "proof_spent E K decode up now g req st = (if e = None then [hr_Header req ''X-Warrant-PoP''] else [])"
proof (cases "pep_call decode g req")
  case None
  with assms serve_pep_none [OF None, of E K up now st] show thesis
    by (intro idle) (auto simp: proof_spent_def)
next
  case (Some au)
  obtain a url where au: "pep_call decode g req = Some (a, url)" using Some by (cases au) simp
  obtain d w' where d: "authorize E now (pe_Svc g) (pep_request req a) (ps_World st) = (d, w')" by fastforce
  note s = serve_pep_some [OF au d, of K up]
  show thesis
  proof (cases "dc_Allow d \<and> cm_Cnf (dc_Claims d) \<noteq> None")
    case False
    with assms show thesis
      by (intro idle) (auto simp: s proof_spent_def au d pop_step_def split: if_splits)
  next
    case True
    obtain e r' where e: "pep_check_pop E K now g req (dc_Claims d) (ps_Replay st) = (e, r')" by fastforce
    have "ps_Replay st1 = r'" "proof_spent E K decode up now g req st = (if e = None then [hr_Header req ''X-Warrant-PoP''] else [])"
      using assms True e by (auto simp: s proof_spent_def au d pop_step_def split: option.splits)
    with e show thesis by (intro checked) auto
  qed
qed

lemma pep_run_once:
  assumes "pe_Replay g = mem_seen" and "\<forall>c. proof_claims K p = Some c \<longrightarrow> in_int64 (pc_Expires c + unix_epoch)"
  shows "wf_map (ps_Replay st) \<Longrightarrow> sorted (now # map fst qs) \<Longrightarrow> pep_run E K decode up g qs st = (proofs, st') \<Longrightarrow>
    count_list proofs p \<le> (if mem_replay.spent K (ps_Replay st) p now then 0 else 1)"
proof (induction qs arbitrary: st now proofs st')
  case (Cons q qs)
  obtain t req where q: "q = (t, req)" by fastforce
  obtain out st1 where sp: "serve_pep E K decode up t g req st = (out, st1)" by fastforce
  obtain rest st2 where rest: "pep_run E K decode up g qs st1 = (rest, st2)" by fastforce
  have out: "proofs = proof_spent E K decode up t g req st @ rest"
    using Cons.prems(3) q sp rest by simp
  have later: "mem_replay.spent K (ps_Replay st) p now \<Longrightarrow> mem_replay.spent K (ps_Replay st) p t"
    using mem_replay.spent_later Cons.prems(2) q by simp
  have sorted: "sorted (t # map fst qs)" using Cons.prems(2) q by simp
  from sp show ?case
  proof (cases rule: serve_pep_replay)
    case idle
    with Cons.IH [OF _ sorted rest] Cons.prems(1) later out show ?thesis by (auto split: if_splits)
  next
    case (checked c e)
    then have cp: "check_pop E K t mem_seen (pe_Audience g) req (hr_Header req ''X-Warrant-PoP-Key'')
        (hr_Header req ''X-Warrant-PoP'') c (ps_Replay st) = (e, ps_Replay st1)"
      by (simp add: pep_check_pop_def assms(1))
    note keep = mem_replay.check_pop_keeps [OF Cons.prems(1) cp, of p]
    then have ih: "count_list rest p \<le> (if mem_replay.spent K (ps_Replay st1) p t then 0 else 1)"
      using Cons.IH [OF _ sorted rest] by simp
    show ?thesis
    proof (cases "e = None \<and> hr_Header req ''X-Warrant-PoP'' = p")
      case True
      with cp mem_replay.check_pop_once [OF Cons.prems(1)] assms(2)
      have "\<not> mem_replay.spent K (ps_Replay st) p t \<and> mem_replay.spent K (ps_Replay st1) p t" by metis
      with True ih out checked(2) later show ?thesis by auto
    next
      case False
      then have "count_list proofs p = count_list rest p" using out checked(2) by auto
      with ih keep later show ?thesis by (auto split: if_splits)
    qed
  qed
qed simp

subsection \<open>Sample data\<close>

text \<open>A root token bound to a holder's key, a PEP with two routes, and a call with a proof.\<close>

definition ex_holder_key :: string where
  "ex_holder_key = ''0123456789abcdef0123456789abcdef''"

definition ex_held :: claims where
  "ex_held = zero_claims\<lparr>cm_ID := ''r1'', cm_Subject := ''a'', cm_Human := ''ann'', cm_Expires := 600, cm_Kind := ''capability'',
     cm_MaxCalls := 5, cm_Scopes := [ex_read], cm_Cnf := Some \<lparr>cn_JKT = thumbprint (toy_env []) ex_holder_key\<rparr>\<rparr>"

definition ex_held_env :: broker_env where
  "ex_held_env = toy_broker_env [ex_svid_a, ex_held]"

definition ex_held_world :: "memory world" where
  "ex_held_world = \<lparr>wd_Store = new_memory\<lparr>me_tokens := [(''r1'', token_record_of ex_held [])]\<rparr>, wd_Ledger = []\<rparr>"

definition ex_held_proof_claims :: pop_claims where
  "ex_held_proof_claims = signed_claims ex_held_env ''n1'' ex_holder_key ''r1'' ''warrant-pep'' ''POST'' ''/call/fs.read'' 0 0"

definition ex_held_codec :: pop_codec where
  "ex_held_codec = toy_pop_codec [ex_held_proof_claims]"

definition ex_held_proof :: string where
  "ex_held_proof = the (pop_sign ex_held_env ex_held_codec ''n1'' ex_holder_key ''r1'' ''warrant-pep'' ''POST'' ''/call/fs.read'' 0 0)"

definition ex_pep :: "(memory, time gomap) pep" where
  "ex_pep = new_pep ex_broker [\<lparr>rt_Tool = ''*'', rt_Upstream = ''http://any''\<rparr>, \<lparr>rt_Tool = ''fs.*'', rt_Upstream = ''http://fs''\<rparr>]"

definition ex_http :: "string \<Rightarrow> http_request" where
  "ex_http proof = \<lparr>hr_Method = ''POST'', hr_Path = ''/call/fs.read'',
     hr_Header = (\<lambda>h. if h = ''Authorization'' then ''Bearer '' @ the (jwt_sign ex_held_env ex_signer ex_held)
       else if h = ''X-Warrant-SVID'' then the (jwt_sign ex_held_env ex_signer ex_svid_a)
       else if h = ''X-Warrant-PoP-Key'' then raw_url_encode ex_holder_key
       else if h = ''X-Warrant-PoP'' then proof else []),
     hr_Body = ''r/1''\<rparr>"

definition ex_decode :: "string \<Rightarrow> (string \<times> any gomap) option" where
  "ex_decode b = Some (b, [])"

definition ex_up :: "forwarded \<Rightarrow> upstream_result" where
  "ex_up f = UpReply 200 ''text/plain'' ''ok''"

definition ex_pep_state :: "(memory, time gomap) pep_state" where
  "ex_pep_state = \<lparr>ps_World = ex_held_world, ps_Replay = new_replay\<rparr>"

abbreviation ex_held_attempt :: call where
  "ex_held_attempt \<equiv> \<lparr>cl_Tool = ''fs.read'', cl_Resource = ''r/1'', cl_Args = []\<rparr>"

lemma ex_held_call: "pep_call ex_decode ex_pep (ex_http proof) = Some (ex_held_attempt, ''http://fs'')"
proof -
  have "upstream ex_pep ''fs.read'' = Some ''http://fs''" by code_simp
  moreover have "trim_prefix ''/call/fs.read'' ''/call/'' = ''fs.read''" by code_simp
  ultimately show ?thesis by (simp add: pep_call_def ex_http_def ex_decode_def)
qed

lemma ex_held_decision:
  "let d = fst (authorize ex_held_env 0 ex_broker (pep_request (ex_http proof) ex_held_attempt) ex_held_world) in
   dc_Allow d \<and> dc_Claims d = ex_held \<and> lineage ex_held = [''r1''] \<and> cm_Cnf ex_held \<noteq> None"
proof -
  have r: "pep_request (ex_http proof) ex_held_attempt = \<lparr>au_Token = the (jwt_sign ex_held_env ex_signer ex_held),
      au_SVID = the (jwt_sign ex_held_env ex_signer ex_svid_a), au_Approval = [], au_Call = ex_held_attempt\<rparr>"
    using trim_prefix_append [of "''Bearer ''"] by (simp add: pep_request_def ex_http_def)
  have "let d = fst (authorize_core ex_held_env 0 ex_broker \<lparr>au_Token = the (jwt_sign ex_held_env ex_signer ex_held),
      au_SVID = the (jwt_sign ex_held_env ex_signer ex_svid_a), au_Approval = [], au_Call = ex_held_attempt\<rparr> (wd_Store ex_held_world))
    in dc_Allow d \<and> dc_Claims d = ex_held" "lineage ex_held = [''r1'']" by code_simp+
  then show ?thesis by (simp add: r authorize_core_fst Let_def ex_held_def)
qed

lemma ex_held_spent: "proof_spent ex_held_env ex_held_codec ex_decode ex_up 0 ex_pep (ex_http ex_held_proof) ex_pep_state = [ex_held_proof]"
proof -
  obtain d w' where d: "authorize ex_held_env 0 ex_broker (pep_request (ex_http ex_held_proof) ex_held_attempt) ex_held_world = (d, w')"
    by fastforce
  then have "dc_Allow d" "dc_Claims d = ex_held" "cm_Cnf ex_held \<noteq> None"
    using ex_held_decision [of ex_held_proof] by (simp_all add: Let_def)
  moreover have "fst (pep_check_pop ex_held_env ex_held_codec 0 ex_pep (ex_http ex_held_proof) ex_held new_replay) = None"
    by code_simp
  moreover have hdr: "hr_Header (ex_http ex_held_proof) ''X-Warrant-PoP'' = ex_held_proof" by (simp add: ex_http_def)
  moreover have svc: "pe_Svc ex_pep = ex_broker" "ps_World ex_pep_state = ex_held_world" "ps_Replay ex_pep_state = new_replay"
    by (simp_all add: ex_pep_def new_pep_def ex_pep_state_def)
  moreover from d svc have "authorize ex_held_env 0 (pe_Svc ex_pep) (pep_request (ex_http ex_held_proof) ex_held_attempt)
      (ps_World ex_pep_state) = (d, w')" by simp
  note serve_pep_some [OF ex_held_call this, where K = ex_held_codec and up = ex_up]
  ultimately show ?thesis
    using d by (auto simp: proof_spent_def ex_held_call pop_step_def hdr split: option.splits prod.splits)
qed

subsection \<open>Properties\<close>

lemma find_route_find: "find_route rs tool = map_option rt_Upstream (find (\<lambda>r. match_pat (rt_Tool r) tool) rs)"
  by (induction rs) auto

lemma find_filter: "find P xs = (case filter P xs of [] \<Rightarrow> None | x # _ \<Rightarrow> Some x)"
  by (induction xs) auto

text \<open>A stable sort puts the first of the least elements in front.\<close>

lemma hd_sort_key:
  fixes f :: "'a \<Rightarrow> 'b :: linorder"
  assumes "xs \<noteq> []"
  shows "find (\<lambda>x. f x = Min (f ` set xs)) xs = Some (hd (sort_key f xs))"
proof -
  let ?s = "sort_key f xs" and ?P = "\<lambda>x. f x = Min (f ` set xs)"
  have "?s \<noteq> []" using assms by (metis length_0_conv length_sort)
  then obtain y ys where s: "?s = y # ys" by (cases ?s) auto
  have "sorted (map f (y # ys))" using sorted_sort_key [of f xs] by (simp add: s)
  moreover have "set (y # ys) = set xs" using set_sort [of f xs] by (simp add: s)
  ultimately have "Min (f ` set xs) = f y" by (intro Min_eqI) (auto simp flip: \<open>set (y # ys) = set xs\<close>)
  then have "filter ?P ?s = y # filter ?P ys" by (simp add: s)
  moreover have "filter ?P ?s = filter ?P xs" by (rule sort_key_stable)
  ultimately have "filter ?P xs = y # filter ?P ys" by simp
  then show ?thesis by (simp add: find_filter s)
qed

lemma longest_iff:
  assumes "finite S" and "r \<in> S"
  shows "- int (length (rt_Tool r)) = Min ((\<lambda>r. - int (length (rt_Tool r))) ` S)
     \<longleftrightarrow> length (rt_Tool r) = Max ((\<lambda>r. length (rt_Tool r)) ` S)"
  using assms by (subst eq_Min_iff; (subst eq_Max_iff)?) auto


text \<open>
  The most specific route wins: the upstream of a tool is that of a matching route, no matching route
  has a longer pattern, and of several of that length it is the one listed first.
\<close>

theorem pep_route_longest:
  "upstream (new_pep svc routes) tool =
     (let matching = filter (\<lambda>r. match_pat (rt_Tool r) tool) routes in
      if matching = [] then None
      else map_option rt_Upstream
        (find (\<lambda>r. length (rt_Tool r) = Max ((\<lambda>r. length (rt_Tool r)) ` set matching)) matching))"
proof -
  let ?f = "\<lambda>r. - int (length (rt_Tool r))" and ?P = "\<lambda>r. match_pat (rt_Tool r) tool"
  let ?ms = "filter ?P routes"
  have up: "upstream (new_pep svc routes) tool = map_option rt_Upstream (case sort_key ?f ?ms of [] \<Rightarrow> None | r # _ \<Rightarrow> Some r)"
    by (simp add: upstream_def new_pep_def find_route_find find_filter filter_sort)
  show ?thesis
  proof (cases "?ms = []")
    case False
    have "find (\<lambda>r. length (rt_Tool r) = Max ((\<lambda>r. length (rt_Tool r)) ` set ?ms)) ?ms = find (\<lambda>r. ?f r = Min (?f ` set ?ms)) ?ms"
      by (rule find_cong [OF refl]) (rule longest_iff [symmetric]; simp)
    moreover have "sort_key ?f ?ms \<noteq> []" using False by (metis length_0_conv length_sort)
    ultimately show ?thesis
      using False hd_sort_key [OF False, of ?f] up by (cases "sort_key ?f ?ms") (simp_all add: Let_def)
  qed (simp add: up)
qed



text \<open>
  \<^bold>\<open>C37.\<close> A failed proof of possession still costs: when the broker allows a call on a holder-bound token and
  the proof is refused, the answer is 401 and nothing is forwarded, but every token of the lineage has
  been charged a call and the ledger records the call as allowed.
\<close>

theorem pep_refused_proof_charges:
  assumes "pe_Svc g = B" and "br_Ops B = memory_ops" and "memory_inv (wd_Store (ps_World st))"
    and "pep_call decode g req = Some (a, url)" and "authorize E now B (pep_request req a) (ps_World st) = (d, w')"
    and "dc_Allow d" and "cm_Cnf (dc_Claims d) \<noteq> None"
    and "fst (pep_check_pop E K now g req (dc_Claims d) (ps_Replay st)) = Some e"
  shows "\<exists>st'. serve_pep E K decode up now g req st = ((PepDeny 401 (PopFailed e) (Some d), None), st')
     \<and> (\<forall>i \<in> set (lineage (dc_Claims d)). int_at (me_total (wd_Store (ps_World st'))) i
          = int_at (me_total (wd_Store (ps_World st))) i + int (count_list (lineage (dc_Claims d)) i))
     \<and> lg_Type (last (wd_Ledger (ps_World st'))) = ''warrant.call.allowed''"
proof -
  have inv: "sv_inv memory_view (wd_Store (ps_World st))" using assms(3) by (simp add: memory_view_def)
  obtain s' where core: "authorize_core E now B (pep_request req a) (wd_Store (ps_World st)) = (d, s')" and w': "wd_Store w' = s'"
    using assms(5) by (auto simp: authorize_def split: prod.splits)
  from mem.authorize_core_allowed_frame [OF inv assms(2) core assms(6)] w'
  have "int_at (me_total (wd_Store w')) i = int_at (me_total (wd_Store (ps_World st))) i + int (count_list (lineage (dc_Claims d)) i)" for i
    by (auto simp: memory_view_def Let_def fun_eq_iff)
  moreover have "lg_Type (last (wd_Ledger w')) = ''warrant.call.allowed''"
    using assms(5,6) by (auto simp: authorize_def record_event_def Let_def split: prod.splits)
  moreover obtain r' where "pep_check_pop E K now g req (dc_Claims d) (ps_Replay st) = (Some e, r')"
    using assms(8) by (cases "pep_check_pop E K now g req (dc_Claims d) (ps_Replay st)") simp
  ultimately show ?thesis
    using serve_pep_some [OF assms(4) assms(5) [unfolded assms(1) [symmetric]], where K = K and up = up] assms(6,7)
    by (auto simp: pop_step_def)
qed

theorem pep_refused_proof_charges_witness:
  "\<exists>st'. snd (serve_pep ex_held_env ex_held_codec ex_decode ex_up 0 ex_pep (ex_http ''x'') ex_pep_state) = st'
     \<and> int_at (me_total (wd_Store (ps_World st'))) ''r1'' = 1"
proof -
  have "memory_inv (wd_Store ex_held_world)"
    by (auto simp: ex_held_world_def new_memory_def memory_inv_def wf_map_def token_record_of_def ex_held_def)
  moreover have "int_at (me_total (wd_Store ex_held_world)) ''r1'' = 0" by (simp add: ex_held_world_def new_memory_def int_at_def)
  moreover have "fst (pep_check_pop ex_held_env ex_held_codec 0 ex_pep (ex_http ''x'') ex_held new_replay) = Some (PopRefused PopMalformed)"
    by code_simp
  moreover obtain d w' where d: "authorize ex_held_env 0 ex_broker (pep_request (ex_http ''x'') ex_held_attempt) ex_held_world = (d, w')"
    by fastforce
  then have "dc_Allow d" "dc_Claims d = ex_held" "lineage ex_held = [''r1'']" "cm_Cnf ex_held \<noteq> None"
    using ex_held_decision [of "''x''"] by (simp_all add: Let_def)
  ultimately show ?thesis
    using pep_refused_proof_charges [where g = ex_pep and B = ex_broker and st = ex_pep_state and req = "ex_http ''x''"
        and E = ex_held_env and now = 0 and d = d and w' = w' and K = ex_held_codec and e = "PopRefused PopMalformed" and up = ex_up,
        OF _ ex_broker_fields(2) _ ex_held_call] d
    by (auto simp: ex_pep_state_def ex_pep_def new_pep_def)
qed

end
