(* ===== verification/Gateway.thy ===== *)
theory Gateway
  imports Pep
begin

section \<open>The protocol gateway (\<^verbatim>\<open>internal/gateway\<close>)\<close>

text \<open>
  The JSON-RPC proxy in front of an MCP server or an A2A agent. \<open>classify\<close> decides which messages
  are gated, \<open>gate_message\<close> authorizes one, and \<open>serve_gateway\<close> is \<^verbatim>\<open>ServeHTTP\<close>: it returns the
  answer, the payload it sent upstream, if any, and the next state. \<^verbatim>\<open>encoding/json\<close> on the message
  types is the record \<open>gw_codec\<close>; decoding an object into a struct, on which the gating rests, is
  written out on the parsed document (\<open>struct_str\<close>): a key matches a field regardless of case, and
  the last one wins. The upstream server is an argument, and a request reads the clock once.
\<close>

subsection \<open>Messages\<close>

record rpc_msg =
  rm_JSONRPC :: string
  rm_ID :: "string option"
  rm_Method :: string
  rm_Params :: "string option"

record rpc_error =
  re_Code :: int
  re_Message :: string
  re_Data :: "json option"

record rpc_resp =
  rr_JSONRPC :: string
  rr_ID :: "string option"
  rr_Result :: "string option"
  rr_Error :: "rpc_error option"

definition codeParseError :: int where "codeParseError = -32700"
definition codeInvalidRequest :: int where "codeInvalidRequest = -32600"
definition codeInternal :: int where "codeInternal = -32603"
definition codeDenied :: int where "codeDenied = -32001"

definition err_resp :: "string option \<Rightarrow> int \<Rightarrow> string \<Rightarrow> json option \<Rightarrow> rpc_resp" where
  "err_resp i code msg data =
     \<lparr>rr_JSONRPC = ''2.0'', rr_ID = i, rr_Result = None,
      rr_Error = Some \<lparr>re_Code = code, re_Message = msg, re_Data = data\<rparr>\<rparr>"

definition is_notification :: "rpc_msg \<Rightarrow> bool" where
  "is_notification m \<longleftrightarrow> rm_ID m = None"

record gw_codec =
  gc_batch :: "string \<Rightarrow> rpc_msg list option"
  gc_single :: "string \<Rightarrow> rpc_msg option"
  gc_error :: "string \<Rightarrow> string"
  gc_encode :: "rpc_msg \<Rightarrow> string"
  gc_doc :: "string \<Rightarrow> json option"
  gc_params :: "string \<Rightarrow> any gomap option"
  gc_replies :: "string \<Rightarrow> rpc_resp list option"
  gc_reply :: "string \<Rightarrow> rpc_resp option"
  gc_pop_text :: "pop_refusal \<Rightarrow> string"
  gc_whole :: "string \<Rightarrow> string gomap option"
  gc_list :: "string \<Rightarrow> string list option"
  gc_encode_list :: "string list \<Rightarrow> string"
  gc_encode_whole :: "string gomap \<Rightarrow> string"

subsection \<open>Decoding an object into a struct\<close>

text \<open>
  Keys are compared under simple case folding: of the letters that fold into ASCII from outside
  there are two, the Kelvin sign and the long s.
\<close>

fun fold_name :: "string \<Rightarrow> string" where
  "fold_name [] = []"
| "fold_name (c # s) =
     (if take 3 (c # s) = [CHR 0xE2, CHR 0x84, CHR 0xAA] then CHR ''k'' # fold_name (drop 2 s)
      else if take 2 (c # s) = [CHR 0xC5, CHR 0xBF] then CHR ''s'' # fold_name (drop 1 s)
      else lower_char c # fold_name s)"

text \<open>A string field: the last string under a matching key; a value of another type leaves it as it was.\<close>

definition struct_str :: "string \<Rightarrow> (string \<times> json) list \<Rightarrow> string \<Rightarrow> string" where
  "struct_str field kvs s0 =
     fold (\<lambda>(k, v) s. if fold_name k = field then (case v of JStr t \<Rightarrow> t | _ \<Rightarrow> s) else s) kvs s0"

text \<open>A struct field with one string field of its own: every matching object is decoded into it.\<close>

definition struct_sub :: "string \<Rightarrow> string \<Rightarrow> (string \<times> json) list \<Rightarrow> string \<Rightarrow> string" where
  "struct_sub field sub kvs s0 =
     fold (\<lambda>(k, v) s. if fold_name k = field then (case v of JObj fs \<Rightarrow> struct_str sub fs s | _ \<Rightarrow> s) else s) kvs s0"

definition doc_entries :: "gw_codec \<Rightarrow> string option \<Rightarrow> (string \<times> json) list" where
  "doc_entries C raw = (case Option.bind raw (gc_doc C) of Some (JObj kvs) \<Rightarrow> kvs | _ \<Rightarrow> [])"

subsection \<open>The gateway\<close>

datatype protocol = MCP | A2A | OtherProtocol string

record ('s, 'r) gateway =
  gw_Svc :: "'s broker"
  gw_Protocol :: protocol
  gw_ToolPrefix :: string
  gw_ResourceOf :: "(string \<Rightarrow> any gomap \<Rightarrow> string) option"
  gw_FilterToolsList :: bool
  gw_MaxBodyBytes :: int
  gw_Replay :: "'r seen_op"
  gw_Audience :: string

definition new_gateway :: "'s broker \<Rightarrow> protocol \<Rightarrow> ('s, time gomap) gateway" where
  "new_gateway svc p =
     \<lparr>gw_Svc = svc, gw_Protocol = p,
      gw_ToolPrefix = (case p of MCP \<Rightarrow> ''mcp.'' | A2A \<Rightarrow> ''a2a.'' | OtherProtocol _ \<Rightarrow> []),
      gw_ResourceOf = None, gw_FilterToolsList = False, gw_MaxBodyBytes = 2 ^ 20, gw_Replay = mem_seen,
      gw_Audience = ''warrant-gateway''\<rparr>"

definition resource_of :: "('s, 'r) gateway \<Rightarrow> string \<Rightarrow> any gomap \<Rightarrow> string" where
  "resource_of g meth params = (case gw_ResourceOf g of None \<Rightarrow> ''*'' | Some f \<Rightarrow> f meth params)"

text \<open>\<^const>\<open>None\<close> for a message that passes through; the tool or skill name of a gated one.\<close>

definition classify :: "gw_codec \<Rightarrow> ('s, 'r) gateway \<Rightarrow> rpc_msg \<Rightarrow> string option" where
  "classify C g m =
     (case gw_Protocol g of
        MCP \<Rightarrow>
          if rm_Method m = ''tools/call'' then Some (struct_str ''name'' (doc_entries C (rm_Params m)) []) else None
      | A2A \<Rightarrow>
          if rm_Method m = ''message/send'' then
            let skill1 = struct_str ''skill'' (doc_entries C (rm_Params m)) [];
                skill2 = (if skill1 = [] then struct_sub ''message'' ''skill'' (doc_entries C (rm_Params m)) [] else skill1)
            in Some (if skill2 = [] then rm_Method m else skill2)
          else if length (rm_Method m) \<ge> 6 \<and> take 6 (rm_Method m) = ''tasks/'' then Some (rm_Method m)
          else None
      | OtherProtocol _ \<Rightarrow> None)"

definition args :: "any gomap \<Rightarrow> any gomap" where
  "args params = (case lookup params ''arguments'' of Some (VObj a) \<Rightarrow> a | _ \<Rightarrow> params)"

record credentials =
  cr_Token :: string
  cr_SVID :: string
  cr_Approval :: string
  cr_PoPKey :: string
  cr_PoPProof :: string

definition bearer_token :: "http_request \<Rightarrow> string" where
  "bearer_token req =
     (let h = hr_Header req ''Authorization'' in
      if length h > 7 \<and> take 7 h = ''Bearer '' then drop 7 h else h)"

definition credentials_of :: "http_request \<Rightarrow> credentials" where
  "credentials_of req =
     \<lparr>cr_Token = bearer_token req, cr_SVID = hr_Header req ''X-Warrant-SVID'',
      cr_Approval = hr_Header req ''X-Warrant-Approval'', cr_PoPKey = hr_Header req ''X-Warrant-PoP-Key'',
      cr_PoPProof = hr_Header req ''X-Warrant-PoP''\<rparr>"

text \<open>The body of \<^verbatim>\<open>checkPoP\<close> is that of the PEP, on the credentials of the request.\<close>

definition gw_check_pop ::
    "'z env_scheme \<Rightarrow> pop_codec \<Rightarrow> time \<Rightarrow> ('s, 'r) gateway \<Rightarrow> http_request \<Rightarrow> credentials \<Rightarrow> claims \<Rightarrow> 'r
       \<Rightarrow> pop_refusal option \<times> 'r" where
  "gw_check_pop E K now g req cr c r =
     check_pop E K now (gw_Replay g) (gw_Audience g) req (cr_PoPKey cr) (cr_PoPProof cr) c r"

subsection \<open>One message\<close>

text \<open>A message is forwarded, or decided with a response.\<close>

datatype outcome = Forward | Decided rpc_resp

definition message_call :: "gw_codec \<Rightarrow> ('s, 'r) gateway \<Rightarrow> rpc_msg \<Rightarrow> string \<Rightarrow> call" where
  "message_call C g m tool_suffix =
     (let params = (case Option.bind (rm_Params m) (gc_params C) of None \<Rightarrow> [] | Some ps \<Rightarrow> ps) in
      \<lparr>cl_Tool = gw_ToolPrefix g @ tool_suffix, cl_Resource = resource_of g (rm_Method m) params, cl_Args = args params\<rparr>)"

definition gate_message ::
    "'z broker_env_scheme \<Rightarrow> pop_codec \<Rightarrow> gw_codec \<Rightarrow> time \<Rightarrow> ('s, 'r) gateway \<Rightarrow> http_request \<Rightarrow> rpc_msg \<Rightarrow>
       ('s, 'r) pep_state \<Rightarrow> outcome \<times> ('s, 'r) pep_state" where
  "gate_message E K C now g req m st =
     (case classify C g m of
        None \<Rightarrow> (Forward, st)
      | Some tool_suffix \<Rightarrow>
          if tool_suffix = [] then (Decided (err_resp (rm_ID m) codeInvalidRequest ''gateway: missing tool/skill name'' None), st)
          else
            let a = message_call C g m tool_suffix; cr = credentials_of req in
            (case authorize E now (gw_Svc g)
                \<lparr>au_Token = cr_Token cr, au_SVID = cr_SVID cr, au_Approval = cr_Approval cr, au_Call = a\<rparr> (ps_World st) of
               (d, w') \<Rightarrow>
                 let st1 = st\<lparr>ps_World := w'\<rparr> in
                 if \<not> dc_Allow d then
                   (Decided (err_resp (rm_ID m) codeDenied ''warrant: denied''
                      (Some (JObj [(''reason'', JStr (reason_text E (dc_Reason d))), (''token_id'', JStr (dc_TokenID d)),
                        (''action_hash'', JStr (dc_ActionHash d)), (''tool'', JStr (cl_Tool a))]))), st1)
                 else if cm_Cnf (dc_Claims d) = None then (Forward, st1)
                 else
                   (case gw_check_pop E K now g req cr (dc_Claims d) (ps_Replay st1) of
                      (Some e, r') \<Rightarrow>
                        (Decided (err_resp (rm_ID m) codeDenied (''warrant: proof-of-possession: '' @ gc_pop_text C e)
                           (Some (JObj [(''token_id'', JStr (dc_TokenID d)), (''action_hash'', JStr (dc_ActionHash d))]))),
                         st1\<lparr>ps_Replay := r'\<rparr>)
                    | (None, r') \<Rightarrow> (Forward, st1\<lparr>ps_Replay := r'\<rparr>))))"

fun gate_messages ::
    "'z broker_env_scheme \<Rightarrow> pop_codec \<Rightarrow> gw_codec \<Rightarrow> time \<Rightarrow> ('s, 'r) gateway \<Rightarrow> http_request \<Rightarrow> rpc_msg list \<Rightarrow>
       ('s, 'r) pep_state \<Rightarrow> (rpc_msg \<times> outcome) list \<times> ('s, 'r) pep_state" where
  "gate_messages E K C now g req [] st = ([], st)"
| "gate_messages E K C now g req (m # ms) st =
     (let (res, st1) = gate_message E K C now g req m st;
          (rest, st2) = gate_messages E K C now g req ms st1
      in ((m, res) # rest, st2))"

subsection \<open>Upstream\<close>

fun join_raw :: "string list \<Rightarrow> string" where
  "join_raw [] = []"
| "join_raw [r] = r"
| "join_raw (r # rs) = r @ '','' @ join_raw rs"

text \<open>
  \<^verbatim>\<open>forward\<close> on the upstream's answer to a payload: a transport error as text, or a status and body.
\<close>

definition gw_forward :: "gw_codec \<Rightarrow> (string \<Rightarrow> string + int \<times> string) \<Rightarrow> string \<Rightarrow> string + rpc_resp list" where
  "gw_forward C up payload =
     (case up payload of
        Inl e \<Rightarrow> Inl e
      | Inr (status, b0) \<Rightarrow>
          let b = trim_space b0 in
          if b = [] then Inr []
          else if status \<ge> 300 then Inl (''upstream status '' @ int_text status @ '': '' @ b)
          else if hd b = CHR ''['' then
            (case gc_replies C b of None \<Rightarrow> Inl (''bad upstream batch reply: '' @ gc_error C b) | Some rs \<Rightarrow> Inr rs)
          else
            (case gc_reply C b of None \<Rightarrow> Inl (''bad upstream reply: '' @ gc_error C b) | Some r \<Rightarrow> Inr [r]))"

subsection \<open>Filtering a tool list\<close>

text \<open>The \<^verbatim>\<open>name\<close> of a tool description; \<^const>\<open>None\<close> when it does not decode.\<close>

definition str_or_null :: "json \<Rightarrow> bool" where
  "str_or_null v = (case v of JStr _ \<Rightarrow> True | JNull \<Rightarrow> True | _ \<Rightarrow> False)"

definition tool_name :: "gw_codec \<Rightarrow> string \<Rightarrow> string option" where
  "tool_name C t =
     (case gc_doc C t of
        Some (JObj kvs) \<Rightarrow>
          if list_all (\<lambda>(k, v). fold_name k = ''name'' \<longrightarrow> str_or_null v) kvs then Some (struct_str ''name'' kvs []) else None
      | Some JNull \<Rightarrow> Some []
      | _ \<Rightarrow> None)"

definition kept_tools :: "gw_codec \<Rightarrow> ('s, 'r) gateway \<Rightarrow> scope list \<Rightarrow> string list \<Rightarrow> string list" where
  "kept_tools C g scopes tools =
     filter (\<lambda>t. case tool_name C t of
         None \<Rightarrow> False
       | Some n \<Rightarrow> 0 \<le> first_match scopes \<lparr>cl_Tool = gw_ToolPrefix g @ n, cl_Resource = ''*'', cl_Args = []\<rparr>) tools"

definition filter_tools_list ::
    "'z chain_env_scheme \<Rightarrow> gw_codec \<Rightarrow> time \<Rightarrow> ('s, 'r) gateway \<Rightarrow> credentials \<Rightarrow> 's \<Rightarrow> rpc_resp \<Rightarrow> rpc_resp" where
  "filter_tools_list E C now g cr s ur =
     (if rr_Error ur \<noteq> None then ur
      else
        (case rr_Result ur of
           None \<Rightarrow> ur
         | Some result \<Rightarrow>
             (case peek E now (gw_Svc g) (cr_Token cr) (cr_SVID cr) s of
                (_, Some _) \<Rightarrow> ur
              | (c, None) \<Rightarrow>
                  (case gc_whole C result of
                     None \<Rightarrow> ur
                   | Some whole \<Rightarrow>
                       (case lookup whole ''tools'' of
                          None \<Rightarrow> ur
                        | Some raw \<Rightarrow>
                            (case gc_list C raw of
                               None \<Rightarrow> ur
                             | Some tools \<Rightarrow>
                                 ur\<lparr>rr_Result := Some (gc_encode_whole C (AList.update ''tools''
                                   (gc_encode_list C (kept_tools C g (cm_Scopes c) tools)) whole))\<rparr>)))))) "

subsection \<open>Serving a request\<close>

text \<open>\<^verbatim>\<open>string(m.ID)\<close>: the raw text of an id, empty when there is none.\<close>

definition raw_id :: "string option \<Rightarrow> string" where
  "raw_id i = (case i of None \<Rightarrow> [] | Some s \<Rightarrow> s)"

definition filter_ids :: "gw_codec \<Rightarrow> ('s, 'r) gateway \<Rightarrow> rpc_msg list \<Rightarrow> string list" where
  "filter_ids C g ms =
     map (\<lambda>m. raw_id (rm_ID m))
       (filter (\<lambda>m. classify C g m = None \<and> gw_FilterToolsList g \<and> gw_Protocol g = MCP
          \<and> rm_Method m = ''tools/list'' \<and> \<not> is_notification m) ms)"

definition by_id :: "rpc_resp list \<Rightarrow> string \<Rightarrow> rpc_resp option" where
  "by_id rs i = map_of (rev (map (\<lambda>ur. (raw_id (rr_ID ur), ur)) rs)) i"

text \<open>Lines 279 to 323: the response to one message, \<^const>\<open>None\<close> for a notification.\<close>

definition message_reply ::
    "'z chain_env_scheme \<Rightarrow> gw_codec \<Rightarrow> time \<Rightarrow> ('s, 'r) gateway \<Rightarrow> credentials \<Rightarrow> 's \<Rightarrow> string list \<Rightarrow>
       string + rpc_resp list \<Rightarrow> rpc_msg \<times> outcome \<Rightarrow> rpc_resp option" where
  "message_reply E C now g cr s ids up p =
     (case p of (m, res) \<Rightarrow>
        if is_notification m then None
        else
          (case res of
             Decided r \<Rightarrow> Some r
           | Forward \<Rightarrow>
               (case up of
                  Inl e \<Rightarrow> Some (err_resp (rm_ID m) codeInternal (''gateway: upstream: '' @ e) None)
                | Inr rs \<Rightarrow>
                    (case by_id rs (raw_id (rm_ID m)) of
                       None \<Rightarrow> Some (err_resp (rm_ID m) codeInternal ''gateway: no upstream reply for this id'' None)
                     | Some ur \<Rightarrow>
                         Some (if contains ids (raw_id (rm_ID m)) then filter_tools_list E C now g cr s ur else ur)))))"

datatype gw_reply = GwHttpError int string | GwSingle int rpc_resp | GwBatch "rpc_resp list" | GwNoContent

text \<open>The payload sent upstream for the messages that are forwarded, if there are any.\<close>

definition gw_payload :: "gw_codec \<Rightarrow> bool \<Rightarrow> (rpc_msg \<times> outcome) list \<Rightarrow> string option" where
  "gw_payload C batch gated =
     (let to_send = map (\<lambda>(m, _). gc_encode C m) (filter (\<lambda>(_, res). res = Forward) gated) in
      if to_send = [] then None
      else if length to_send = 1 \<and> \<not> batch then Some (hd to_send)
      else Some (''['' @ join_raw to_send @ '']''))"

definition serve_messages ::
    "'z broker_env_scheme \<Rightarrow> pop_codec \<Rightarrow> gw_codec \<Rightarrow> (string \<Rightarrow> string + int \<times> string) \<Rightarrow> time \<Rightarrow> ('s, 'r) gateway \<Rightarrow>
       http_request \<Rightarrow> bool \<Rightarrow> rpc_msg list \<Rightarrow> ('s, 'r) pep_state \<Rightarrow> (gw_reply \<times> string option) \<times> ('s, 'r) pep_state" where
  "serve_messages E K C up now g req batch msgs st =
     (let (gated, st1) = gate_messages E K C now g req msgs st;
          payload = gw_payload C batch gated;
          answer = (case payload of None \<Rightarrow> Inr [] | Some p \<Rightarrow> gw_forward C up p);
          out = List.map_filter (message_reply E C now g (credentials_of req) (wd_Store (ps_World st1)) (filter_ids C g msgs) answer) gated
      in ((if out = [] then GwNoContent else if batch then GwBatch out else GwSingle 200 (hd out), payload), st1))"

definition serve_gateway ::
    "'z broker_env_scheme \<Rightarrow> pop_codec \<Rightarrow> gw_codec \<Rightarrow> (string \<Rightarrow> string + int \<times> string) \<Rightarrow> time \<Rightarrow> ('s, 'r) gateway \<Rightarrow>
       http_request \<Rightarrow> ('s, 'r) pep_state \<Rightarrow> (gw_reply \<times> string option) \<times> ('s, 'r) pep_state" where
  "serve_gateway E K C up now g req st =
     (if hr_Method req \<noteq> ''POST'' then ((GwHttpError 405 ''gateway: use POST'', None), st)
      else
        let limit = (if gw_MaxBodyBytes g \<le> 0 then 2 ^ 20 else gw_MaxBodyBytes g) in
        if limit < int (length (hr_Body req)) then
          ((GwSingle 413 (err_resp None codeParseError ''parse error: request body too large'' None), None), st)
        else
          let body = trim_space (hr_Body req) in
          if body = [] then ((GwSingle 400 (err_resp None codeInvalidRequest ''empty request'' None), None), st)
          else
            let bad = ((GwSingle 400 (err_resp None codeParseError (''parse error: '' @ gc_error C body) None), None), st) in
            if hd body = CHR ''['' then
              (case gc_batch C body of
                 None \<Rightarrow> bad
               | Some msgs \<Rightarrow>
                   if msgs = [] then ((GwSingle 400 (err_resp None codeInvalidRequest ''empty batch'' None), None), st)
                   else serve_messages E K C up now g req True msgs st)
            else
              (case gc_single C body of
                 None \<Rightarrow> bad
               | Some m \<Rightarrow> serve_messages E K C up now g req False [m] st))"

end
