(* ===== verification/Blast_Radius.thy ===== *)
theory Blast_Radius
  imports Broker_Sample
begin

section \<open>The blast radius of a token (\<^verbatim>\<open>internal/broker/service.go\<close>, lines 657 to 755)\<close>

text \<open>
  \<^verbatim>\<open>BlastRadius\<close> reports what a token can do now, delegates included. The recursion over the
  children has no bound in the code, so it carries fuel here, and \<open>blast_radius_terminates\<close> gives
  the fuel that is enough when every token is stored after its parent, as \<open>run_forest\<close> shows it to be
  in every run of the broker. The rest of the report is \<open>blast_self\<close>.
\<close>

subsection \<open>Data\<close>

record scope_view =
  sw_Scope :: scope
  sw_Used :: int
  sw_Remaining :: int

datatype blast_report = BlastRadius
  (bl_TokenID: string) (bl_Subject: string) (bl_Human: string) (bl_Depth: int) (bl_MaxDepth: int)
  (bl_CanDelegate: bool) (bl_Live: bool) (bl_Revoked: string) (bl_ExpiresIn: int) (bl_CallsRemaining: int)
  (bl_Scopes: "scope_view list") (bl_PolicyForbids: "rule list") (bl_Children: "blast_report list")

subsection \<open>The report of one token\<close>

text \<open>The loop over the lineage: \<open>remaining\<close> starts at -1, which also stands for no value yet.\<close>

fun remaining_loop :: "'s store_ops \<Rightarrow> 's \<Rightarrow> string list \<Rightarrow> int \<Rightarrow> store_err + int" where
  "remaining_loop S s [] remaining = Inr remaining"
| "remaining_loop S s (a # ids) remaining =
     (case so_GetToken S a s of
        Inl e \<Rightarrow> Inl e
      | Inr ar \<Rightarrow>
          (case so_Usage S a s of
             Inl e \<Rightarrow> Inl e
           | Inr (used, _) \<Rightarrow>
               let left = tr_MaxCalls ar - used in
               remaining_loop S s ids (if remaining < 0 \<or> left < remaining then left else remaining)))"

definition scope_views :: "int \<Rightarrow> (int \<times> int) list \<Rightarrow> scope list \<Rightarrow> scope_view list" where
  "scope_views remaining per scopes =
     map (\<lambda>(i, sc).
       let used = (case map_of per (int i) of None \<Rightarrow> 0 | Some n \<Rightarrow> n);
           left0 = sc_MaxCalls sc - used;
           left1 = (if remaining < left0 then remaining else left0)
       in \<lparr>sw_Scope = sc, sw_Used = used, sw_Remaining = (if left1 < 0 then 0 else left1)\<rparr>)
       (enumerate 0 scopes)"

text \<open>Lines 684 to 737: the report without its children.\<close>

definition blast_self ::
    "'z env_scheme \<Rightarrow> time \<Rightarrow> 's broker \<Rightarrow> string \<Rightarrow> 's \<Rightarrow> broker_err + blast_report" where
  "blast_self E now B i s =
     (case so_GetToken (br_Ops B) i s of
        Inl e \<Rightarrow> Inl (EStore e)
      | Inr t \<Rightarrow>
          (case en_unmarshal_claims E (tr_Claims t) of
             (c, False) \<Rightarrow> Inl ENoClaims
           | (c, True) \<Rightarrow>
               let exp0 = cm_Expires c - unix now;
                   expires = (if exp0 < 0 then 0 else exp0) in
               (case so_FirstRevoked (br_Ops B) (lineage c) s of
                  Inl e \<Rightarrow> Inl (EStore e)
                | Inr via \<Rightarrow>
                    let live = (via = [] \<and> 0 < expires) in
                    (case remaining_loop (br_Ops B) s (lineage c) (-1) of
                       Inl e \<Rightarrow> Inl (EStore e)
                     | Inr rem0 \<Rightarrow>
                         let remaining = (if \<not> live \<or> rem0 < 0 then 0 else rem0) in
                         (case so_Usage (br_Ops B) i s of
                            Inl e \<Rightarrow> Inl (EStore e)
                          | Inr (_, per) \<Rightarrow>
                              Inr (BlastRadius (cm_ID c) (cm_Subject c) (cm_Human c) (cm_Depth c) (cm_MaxDepth c)
                                (live \<and> cm_Depth c < cm_MaxDepth c \<and> 0 < remaining) live via expires remaining
                                (scope_views remaining per (cm_Scopes c))
                                (forbids (br_Policy B) (cm_Subject c) (cm_Human c)) []))))))"

subsection \<open>With the children\<close>

definition with_children :: "blast_report \<Rightarrow> blast_report list \<Rightarrow> blast_report" where
  "with_children b ks =
     (case b of BlastRadius i su h d md cd l r e n sc pf _ \<Rightarrow> BlastRadius i su h d md cd l r e n sc pf ks)"

text \<open>The loop over the children: expired ones are skipped, an error ends it, only live reports stay.\<close>

fun blast_kids :: "time \<Rightarrow> (string \<Rightarrow> (broker_err + blast_report) option) \<Rightarrow> token_record list \<Rightarrow>
    (broker_err + blast_report list) option" where
  "blast_kids now rec [] = Some (Inr [])"
| "blast_kids now rec (k # ks) =
     (if tr_Expires k < now then blast_kids now rec ks
      else
        (case rec (tr_ID k) of
           None \<Rightarrow> None
         | Some (Inl e) \<Rightarrow> Some (Inl e)
         | Some (Inr kb) \<Rightarrow>
             map_option (map_sum id (\<lambda>bs. if bl_Live kb then kb # bs else bs)) (blast_kids now rec ks)))"

fun blast_radius ::
    "nat \<Rightarrow> 'z env_scheme \<Rightarrow> time \<Rightarrow> 's broker \<Rightarrow> 's \<Rightarrow> string \<Rightarrow> (broker_err + blast_report) option" where
  "blast_radius 0 E now B s i = None"
| "blast_radius (Suc n) E now B s i =
     (case blast_self E now B i s of
        Inl e \<Rightarrow> Some (Inl e)
      | Inr br \<Rightarrow>
          (case so_Children (br_Ops B) i s of
             Inl e \<Rightarrow> Some (Inl (EStore e))
           | Inr kids \<Rightarrow> map_option (map_sum id (with_children br)) (blast_kids now (blast_radius n E now B s) kids)))"

subsection \<open>What the report says\<close>

lemma with_children_simps [simp]:
  "bl_Live (with_children b ks) = bl_Live b" "bl_CallsRemaining (with_children b ks) = bl_CallsRemaining b"
  "bl_Scopes (with_children b ks) = bl_Scopes b" "bl_TokenID (with_children b ks) = bl_TokenID b"
  "bl_Children (with_children b ks) = ks" "bl_CanDelegate (with_children b ks) = bl_CanDelegate b"
  by (cases b; simp add: with_children_def)+

lemma map_sum_Inr [simp]: "map_sum g f z = Inr b \<longleftrightarrow> (\<exists>x. z = Inr x \<and> b = f x)"
  by (cases z) auto

lemma blast_radius_self:
  assumes "blast_radius n E now B s i = Some (Inr b)"
  obtains br ks where "blast_self E now B i s = Inr br" and "b = with_children br ks"
  using assms by (cases n) (auto split: sum.splits option.splits)

lemma blast_kids_live: "blast_kids now rec ks = Some (Inr bs) \<Longrightarrow> list_all bl_Live bs"
  by (induction ks arbitrary: bs) (auto split: if_splits option.splits sum.splits)

text \<open>The calls a token has left, by the observations of the store.\<close>

definition calls_left :: "'s store_view \<Rightarrow> 's \<Rightarrow> string \<Rightarrow> int" where
  "calls_left V s a = (case sv_token V s a of None \<Rightarrow> 0 | Some t \<Rightarrow> tr_MaxCalls t - sv_calls V s a)"

context token_store
begin

text \<open>On a known lineage within its budgets the sentinel does no harm: the loop finds the minimum.\<close>

lemma remaining_loop_min:
  assumes inv: "sv_inv V s"
  shows "\<forall>a \<in> set ids. sv_token V s a \<noteq> None \<and> 0 \<le> calls_left V s a \<Longrightarrow>
    remaining_loop S s ids r = Inr (if ids = [] then r else
      if r < 0 then Min (calls_left V s ` set ids) else min r (Min (calls_left V s ` set ids)))"
proof (induction ids arbitrary: r)
  case (Cons a ids)
  then obtain t where t: "sv_token V s a = Some t" by auto
  obtain ps where u: "so_Usage S a s = Inr (sv_calls V s a, ps)" using usage [OF inv] by blast
  have left: "tr_MaxCalls t - sv_calls V s a = calls_left V s a" by (simp add: calls_left_def t)
  have "remaining_loop S s (a # ids) r
      = remaining_loop S s ids (if r < 0 \<or> calls_left V s a < r then calls_left V s a else r)"
    by (simp add: get_token [OF inv] t u Let_def left)
  also have "\<dots> = Inr (if ids = [] then (if r < 0 \<or> calls_left V s a < r then calls_left V s a else r) else
      if (if r < 0 \<or> calls_left V s a < r then calls_left V s a else r) < 0 then Min (calls_left V s ` set ids)
      else min (if r < 0 \<or> calls_left V s a < r then calls_left V s a else r) (Min (calls_left V s ` set ids)))"
    using Cons by simp
  finally show ?case using Cons.prems by (cases "ids = []") (auto simp: min_def)
qed simp

lemma remaining_loop_Inr:
  "sv_inv V s \<Longrightarrow> remaining_loop S s ids r = Inr n \<Longrightarrow> \<forall>a \<in> set ids. sv_token V s a \<noteq> None"
  by (induction ids arbitrary: r) (auto simp: get_token Let_def split: option.splits sum.splits prod.splits)

lemma nth_scope_views:
  assumes "k < length scopes"
  shows "sw_Remaining (scope_views remaining per scopes ! k)
     = max 0 (min remaining (sc_MaxCalls (scopes ! k) - (case map_of per (int k) of None \<Rightarrow> 0 | Some n \<Rightarrow> n)))"
  using assms by (auto simp: scope_views_def nth_enumerate_eq Let_def)

lemma blast_self_report:
  assumes inv: "sv_inv V s" and ops: "br_Ops B = S" and self: "blast_self E now B i s = Inr br"
    and tok: "sv_token V s i = Some t" and cl: "en_unmarshal_claims E (tr_Claims t) = (c, True)"
    and budget: "\<forall>a \<in> set (lineage c). 0 \<le> calls_left V s a" and ids: "[] \<notin> set (lineage c)"
  shows "bl_Live br \<longleftrightarrow> (\<forall>a \<in> set (lineage c). \<not> sv_revoked V s a) \<and> unix now < cm_Expires c"
    and "bl_CallsRemaining br = (if bl_Live br then Min (calls_left V s ` set (lineage c)) else 0)"
    and "length (bl_Scopes br) = length (cm_Scopes c)"
    and "k < length (cm_Scopes c) \<Longrightarrow> sw_Remaining (bl_Scopes br ! k)
      = max 0 (min (bl_CallsRemaining br) (sc_MaxCalls (cm_Scopes c ! k) - sv_scope_calls V s i (int k)))"
    and "\<forall>a \<in> set (lineage c). sv_token V s a \<noteq> None"
proof -
  obtain via where via: "so_FirstRevoked S (lineage c) s = Inr via" using first_revoked [OF inv] by blast
  have get: "so_GetToken S i s = Inr t" by (simp add: get_token [OF inv] tok)
  obtain r where r: "remaining_loop S s (lineage c) (-1) = Inr r"
    using self by (cases "remaining_loop S s (lineage c) (-1)") (auto simp: blast_self_def ops get cl via Let_def)
  obtain per where per: "so_Usage S i s = Inr (sv_calls V s i, per)"
      "\<forall>k \<ge> 0. (case map_of per k of None \<Rightarrow> 0 | Some n \<Rightarrow> n) = sv_scope_calls V s i k" using usage [OF inv] by blast
  have known: "\<forall>a \<in> set (lineage c). sv_token V s a \<noteq> None" using remaining_loop_Inr [OF inv r] .
  moreover have "lineage c \<noteq> []" by (simp add: lineage_def)
  ultimately have min: "r = Min (calls_left V s ` set (lineage c))"
    using remaining_loop_min [OF inv, of "lineage c" "-1"] budget r by simp
  have "0 \<le> r" unfolding min using budget \<open>lineage c \<noteq> []\<close> by simp
  let ?live = "via = [] \<and> unix now < cm_Expires c"
  have br: "br = BlastRadius (cm_ID c) (cm_Subject c) (cm_Human c) (cm_Depth c) (cm_MaxDepth c)
      (?live \<and> cm_Depth c < cm_MaxDepth c \<and> 0 < (if ?live then r else 0)) ?live via
      (if cm_Expires c - unix now < 0 then 0 else cm_Expires c - unix now) (if ?live then r else 0)
      (scope_views (if ?live then r else 0) per (cm_Scopes c)) (forbids (br_Policy B) (cm_Subject c) (cm_Human c)) []"
    using self \<open>0 \<le> r\<close> by (auto simp: blast_self_def ops get cl via r per(1) Let_def)
  show "bl_Live br \<longleftrightarrow> (\<forall>a \<in> set (lineage c). \<not> sv_revoked V s a) \<and> unix now < cm_Expires c"
    using first_revoked_none [OF inv ids] via by (simp add: br)
  show "bl_CallsRemaining br = (if bl_Live br then Min (calls_left V s ` set (lineage c)) else 0)"
    by (simp add: br min)
  show "length (bl_Scopes br) = length (cm_Scopes c)" by (simp add: br scope_views_def)
  show "k < length (cm_Scopes c) \<Longrightarrow> sw_Remaining (bl_Scopes br ! k)
      = max 0 (min (bl_CallsRemaining br) (sc_MaxCalls (cm_Scopes c ! k) - sv_scope_calls V s i (int k)))"
    using per(2) by (simp add: br nth_scope_views)
  show "\<forall>a \<in> set (lineage c). sv_token V s a \<noteq> None" by (rule known)
qed

end

subsection \<open>Enough fuel\<close>

text \<open>Tokens stand in the map in the order they were first put: each after its parent.\<close>

fun parents_first :: "token_record gomap \<Rightarrow> bool" where
  "parents_first [] \<longleftrightarrow> True"
| "parents_first ((i, t) # m) \<longleftrightarrow> tr_Parent t \<noteq> i \<and> tr_Parent t \<notin> fst ` set m \<and> parents_first m"

lemma parents_first_put:
  assumes "parents_first (me_tokens m)" and "memory_inv m" and "lookup (me_tokens m) (tr_ID t) = None" and "tr_Parent t \<noteq> tr_ID t"
    and "\<forall>i p. lookup (me_tokens m) i = Some p \<longrightarrow> tr_Parent p \<noteq> tr_ID t" and "mem_put_token t m = (r, m')"
  shows "parents_first (me_tokens m')"
proof -
  have "parents_first xs \<Longrightarrow> j \<notin> fst ` set xs \<Longrightarrow> tr_Parent t \<noteq> j \<Longrightarrow> \<forall>p \<in> snd ` set xs. tr_Parent p \<noteq> j \<Longrightarrow>
      parents_first (AList.update j t xs)" for xs j
    by (induction xs) (auto simp: dom_update [unfolded dom_map_of_conv_image_fst])
  moreover have "tr_Parent p \<noteq> tr_ID t" if "p \<in> snd ` set (me_tokens m)" for p
  proof -
    from that obtain i where "(i, p) \<in> set (me_tokens m)" by force
    with assms(2) have "lookup (me_tokens m) i = Some p" by (simp add: memory_inv_def wf_map_def)
    with assms(5) show ?thesis by blast
  qed
  ultimately show ?thesis
    using assms(1,3,4,6) by (auto simp: mem_put_token_def map_of_eq_None_iff)
qed

text \<open>The number of tokens from one to the end of the map bounds the depth of its subtree.\<close>

definition tail_length :: "token_record gomap \<Rightarrow> string \<Rightarrow> nat" where
  "tail_length m i = length (dropWhile (\<lambda>p. fst p \<noteq> i) m)"

lemma tail_length_child:
  "parents_first m \<Longrightarrow> (j, t) \<in> set m \<Longrightarrow> wf_map m \<Longrightarrow> i \<in> fst ` set m \<Longrightarrow> tr_Parent t = i \<Longrightarrow> tail_length m j < tail_length m i"
proof (induction m)
  case (Cons p m)
  have wf: "wf_map m" "fst p \<notin> fst ` set m" using Cons.prems(3) by (simp_all add: wf_map_def)
  show ?case
  proof (cases "(j, t) = p")
    case True
    with Cons.prems show ?thesis by (cases p) (auto simp: tail_length_def)
  next
    case False
    with Cons.prems(2) have m: "(j, t) \<in> set m" by simp
    then have "j \<noteq> fst p" using wf(2) by (metis fst_conv imageI)
    with Cons m wf(1) show ?thesis
      by (cases p) (auto simp: tail_length_def less_Suc_eq_le length_dropWhile_le)
  qed
qed simp

lemma blast_kids_Some: "\<forall>k \<in> set ks. rec (tr_ID k) \<noteq> None \<Longrightarrow> blast_kids now rec ks \<noteq> None"
  by (induction ks) (auto split: sum.splits)

lemma blast_radius_Some:
  assumes "br_Ops B = memory_ops" and "memory_inv s" and "parents_first (me_tokens s)"
  shows "tail_length (me_tokens s) i < n \<Longrightarrow> blast_radius n E now B s i \<noteq> None"
proof (induction n arbitrary: i)
  case (Suc n)
  show ?case
  proof (cases "blast_self E now B i s")
    case (Inr br)
    then have "lookup (me_tokens s) i \<noteq> None"
      by (cases "lookup (me_tokens s) i") (simp_all add: blast_self_def assms(1) memory_ops_def mem_get_token_def)
    then have i: "i \<in> fst ` set (me_tokens s)" by (simp add: map_of_eq_None_iff)
    have "blast_radius n E now B s (tr_ID k) \<noteq> None" if k: "k \<in> set (map snd (me_tokens s))" "tr_Parent k = i" for k
    proof -
      from k obtain j where j: "(j, k) \<in> set (me_tokens s)" by auto
      with assms(2) have "tr_ID k = j" by (auto simp: memory_inv_def wf_map_def)
      with tail_length_child [OF assms(3) j _ i k(2)] assms(2) Suc show ?thesis by (simp add: memory_inv_def)
    qed
    then have "blast_kids now (blast_radius n E now B s) (filter (\<lambda>t. tr_Parent t = i) (map snd (me_tokens s))) \<noteq> None"
      by (intro blast_kids_Some) auto
    then show ?thesis using Inr assms(1) by (auto simp: memory_ops_def mem_children_def)
  qed simp
qed simp

subsection \<open>Runs put every token after its parent\<close>

text \<open>No credential is presented before the id of its token is drawn.\<close>

fun parents_drawn :: "'z chain_env_scheme \<Rightarrow> 's broker \<Rightarrow> (time \<times> broker_op) list \<Rightarrow> bool" where
  "parents_drawn E B [] \<longleftrightarrow> True"
| "parents_drawn E B (p # ps) \<longleftrightarrow> parents_drawn E B ps \<and>
     (case snd p of
        OpDelegate i r \<Rightarrow>
          (case live_claims E (fst p) B (dr_ParentToken r) of None \<Rightarrow> True | Some c \<Rightarrow> cm_ID c \<notin> set (i # op_ids ps))
      | _ \<Rightarrow> True)"

text \<open>The tokens of the store are in order, and none of them or of their parents has an id yet to be drawn.\<close>

definition forest :: "string list \<Rightarrow> memory \<Rightarrow> bool" where
  "forest later m \<longleftrightarrow> memory_inv m \<and> parents_first (me_tokens m)
     \<and> (\<forall>i t. lookup (me_tokens m) i = Some t \<longrightarrow> i \<notin> set later \<and> tr_Parent t \<notin> set later)"

lemma forest_same: "forest later m \<Longrightarrow> me_tokens m' = me_tokens m \<Longrightarrow> forest later m'"
  by (simp add: forest_def memory_inv_def)

lemma forest_put:
  assumes "forest (tr_ID t # later) m" and "tr_Parent t \<notin> set (tr_ID t # later)" and "tr_ID t \<notin> set later"
    and "mem_put_token t m = (r, m')"
  shows "forest later m'"
proof -
  have m: "memory_inv m" "parents_first (me_tokens m)"
    "\<forall>i p. lookup (me_tokens m) i = Some p \<longrightarrow> i \<notin> set (tr_ID t # later) \<and> tr_Parent p \<notin> set (tr_ID t # later)"
    using assms(1) by (simp_all add: forest_def)
  then have new: "lookup (me_tokens m) (tr_ID t) = None" by (cases "lookup (me_tokens m) (tr_ID t)") auto
  have "parents_first (me_tokens m')" using parents_first_put [OF m(2,1) new _ _ assms(4)] m(3) assms(2) by auto
  moreover have "memory_inv m' \<and> lookup (me_tokens m') = (lookup (me_tokens m))(tr_ID t \<mapsto> t)"
    using mem_put_token_law [OF m(1), of t m'] assms(4) by (auto simp: mem_put_token_def)
  ultimately show ?thesis using m(3) assms(2,3) by (auto simp: forest_def)
qed

lemma mem_consume_tokens: "mem_consume i k lin m = (e, m') \<Longrightarrow> me_tokens m' = me_tokens m"
  by (auto simp: mem_consume_def split: option.splits if_splits)

lemma check_approval_tokens:
  assumes "br_Ops B = memory_ops" and "check_approval E now B r c h s = (e, s')"
  shows "me_tokens s' = me_tokens s"
  using assms by (auto simp: check_approval_def memory_ops_def mem_use_approval_def
      split: if_splits prod.splits option.splits)

lemma authorize_tokens:
  assumes "br_Ops B = memory_ops"
  shows "me_tokens (wd_Store (snd (authorize E now B r w))) = me_tokens (wd_Store w)"
proof -
  obtain d s' where "authorize_core E now B r (wd_Store w) = (d, s')" by fastforce
  moreover from this have "me_tokens s' = me_tokens (wd_Store w)"
    using assms by (auto simp: authorize_core_def Let_def memory_ops_def dest!: mem_consume_tokens check_approval_tokens [OF assms]
        split: if_splits prod.splits option.splits)
  ultimately show ?thesis by (simp add: authorize_def)
qed


lemma register_tokens:
  "br_Ops B = memory_ops \<Longrightarrow> me_tokens (wd_Store (snd (register_workload E B n sec w))) = me_tokens (wd_Store w)"
  by (simp add: register_workload_def memory_ops_def mem_put_workload_def)

lemma revoke_tokens:
  "br_Ops B = memory_ops \<Longrightarrow> me_tokens (wd_Store (snd (revoke_token E now B i why actor w))) = me_tokens (wd_Store w)"
  by (simp add: revoke_token_def memory_ops_def mem_revoke_def split: sum.split)

lemma forest_mono: "forest (i # later) m \<Longrightarrow> forest later m"
  by (auto simp: forest_def)

lemma persist_forest:
  assumes "br_Ops B = memory_ops" and "forest (cm_ID c # later) (wd_Store w)" and "cm_Parent c \<notin> set (cm_ID c # later)"
    and "cm_ID c \<notin> set later" and "persist E B c w = (res, w')"
  shows "forest later (wd_Store w')"
proof (cases "jwt_sign E (br_Signer B) c")
  case None
  with assms(5) have "w' = w" by (simp add: persist_def)
  with forest_mono [OF assms(2)] show ?thesis by simp
next
  case (Some tok)
  let ?t = "token_record_of c (case en_marshal_claims E c of None \<Rightarrow> [] | Some b \<Rightarrow> b)"
  have "mem_put_token ?t (wd_Store w) = (None, wd_Store w')"
    using assms(1,5) Some by (auto simp: persist_def Let_def memory_ops_def mem_put_token_def)
  from forest_put [OF _ _ _ this] assms(2-4) show ?thesis by simp
qed

lemma mint_forest:
  assumes "br_Ops B = memory_ops" and "forest (i # later) (wd_Store w)" and "i \<noteq> []" and "[] \<notin> set later" and "i \<notin> set later"
  shows "forest later (wd_Store (snd (mint_root E now B i r w)))"
proof -
  obtain res w' where m: "mint_root E now B i r w = (res, w')" by fastforce
  consider "w' = w"
    | svid res' w1 where "persist E B (mint_claims B now i r svid (mint_depth B r) (mint_limit r)) w = (res', w1)"
        "wd_Store w' = wd_Store w1"
    using mint_root_Inr [of E now B i r w _ w'] mint_root_Inl [of E now B i r w _ w'] m by (cases res) blast+
  then show ?thesis
  proof cases
    case 1
    with forest_mono [OF assms(2)] m show ?thesis by simp
  next
    case 2
    have "cm_Parent (mint_claims B now i r svid (mint_depth B r) (mint_limit r)) = []"
      by (simp add: mint_claims_def zero_claims_def)
    with persist_forest [OF assms(1) _ _ _ 2(1)] assms(2-5) 2(2) m show ?thesis by simp
  qed
qed

lemma delegate_forest:
  assumes "br_Ops B = memory_ops" and "forest (i # later) (wd_Store w)" and "i \<notin> set later"
    and "\<forall>c. live_claims E now B (dr_ParentToken r) = Some c \<longrightarrow> cm_ID c \<notin> set (i # later)"
  shows "forest later (wd_Store (snd (delegate E now B i r w)))"
proof (cases "wd_Store (snd (delegate E now B i r w)) = wd_Store w")
  case True
  with forest_mono [OF assms(2)] show ?thesis by simp
next
  case False
  obtain res w' where d: "delegate E now B i r w = (res, w')" by fastforce
  have "res \<noteq> Inl e" for e
  proof
    assume "res = Inl e"
    then obtain c x where "persist E B c w = (Inl x, w')" using delegate_Inl [of E now B i r w e w'] d False by auto
    from persist_Inl [OF this] have "w' = w" using assms(1) by (auto simp: memory_ops_def mem_put_token_def)
    with d False show False by simp
  qed
  then obtain iss where "delegate E now B i r w = (Inr iss, w')" using d by (cases res) auto
  from delegate_Inr [OF this] obtain parent csvid used w1 where g: "delegate_guards E now B r parent csvid"
    "persist E B (granted_claims B now i r parent csvid used) w = (Inr iss, w1)" "wd_Store w' = wd_Store w1" by blast
  then have "cm_ID parent \<notin> set (i # later)" using assms(4) by (simp add: delegate_guards_def)
  with persist_forest [OF assms(1) _ _ _ g(2)] assms(2,3) g(3) d show ?thesis by simp
qed

lemma run_forest:
  "br_Ops B = memory_ops \<Longrightarrow> fresh_ids ps \<Longrightarrow> parents_drawn E B ps \<Longrightarrow> forest (op_ids ps) (wd_Store w) \<Longrightarrow>
     forest [] (wd_Store (snd (broker_run E B ps (lg, w))))"
proof (induction ps arbitrary: lg w)
  case (Cons p ps)
  obtain now oper where p: "p = (now, oper)" by fastforce
  have ids: "fresh_ids ps" using Cons.prems(2) op_ids_Cons [of p ps] by (auto simp: fresh_ids_def)
  have "forest (op_ids ps) (wd_Store (snd (broker_step E B p w)))"
  proof (cases oper)
    case (OpMint i r)
    with Cons.prems op_ids_Cons [of p ps] show ?thesis
      by (auto simp: p broker_step_def fresh_ids_def intro!: mint_forest)
  next
    case (OpDelegate i r)
    with Cons.prems op_ids_Cons [of p ps] show ?thesis
      by (auto simp: p broker_step_def fresh_ids_def split: option.splits intro!: delegate_forest)
  next
    case (OpAuthorize r)
    with Cons.prems op_ids_Cons [of p ps] forest_same [OF _ authorize_tokens] show ?thesis
      by (simp add: p broker_step_def case_prod_beta)
  next
    case (OpRegister n sec)
    with Cons.prems op_ids_Cons [of p ps] forest_same [OF _ register_tokens] show ?thesis
      by (simp add: p broker_step_def)
  next
    case (OpRevoke i why actor)
    with Cons.prems op_ids_Cons [of p ps] forest_same [OF _ revoke_tokens] show ?thesis
      by (simp add: p broker_step_def)
  qed
  with Cons ids show ?case by (simp add: case_prod_beta)
qed (simp add: op_ids_def)

subsection \<open>Properties\<close>

lemma tail_length_le: "tail_length m i \<le> length m"
  by (simp add: tail_length_def length_dropWhile_le)

text \<open>
  \<^bold>\<open>C38.\<close> \<^verbatim>\<open>BlastRadius\<close> ends on every store a broker can build: whatever a broker over an empty in-memory
  store has done, the recursion is never deeper than the number of its tokens, and every delegate it reports is live.
\<close>

theorem blast_radius_returns:
  assumes "br_Ops B = memory_ops" and "fresh_ids ps" and "parents_drawn E B ps"
    and "s = wd_Store (snd (broker_run E B ps ([], \<lparr>wd_Store = new_memory, wd_Ledger = l\<rparr>)))" and "length (me_tokens s) < n"
  shows "\<exists>res. blast_radius n E now B s i = Some res \<and> (\<forall>b. res = Inr b \<longrightarrow> list_all bl_Live (bl_Children b))"
proof -
  have "forest (op_ids ps) new_memory" by (simp add: forest_def memory_inv_def new_memory_def wf_map_def)
  then have "forest [] s" using run_forest [OF assms(1-3)] by (simp add: assms(4))
  then have f: "memory_inv s" "parents_first (me_tokens s)" by (simp_all add: forest_def)
  have "tail_length (me_tokens s) i < n" using tail_length_le [of "me_tokens s" i] assms(5) by simp
  then obtain res where res: "blast_radius n E now B s i = Some res" using blast_radius_Some [OF assms(1) f] by blast
  have "list_all bl_Live (bl_Children b)" if "res = Inr b" for b
    using res that by (cases n) (auto split: sum.splits dest!: blast_kids_live)
  with res show ?thesis by blast
qed

theorem blast_radius_returns_witness:
  "\<exists>res. blast_radius 3 ex_env 0 ex_broker ex_store2 ''r1'' = Some res"
proof -
  let ?ps = "[(0, OpMint ''r1'' ex_mint), (0, OpDelegate ''k1'' ex_delegate)]"
  have "live_claims ex_env 0 ex_broker (dr_ParentToken ex_delegate) = Some ex_root_claims"
    using ex_delegate_guards by (simp add: delegate_guards_def)
  then have "parents_drawn ex_env ex_broker ?ps" by simp
  moreover have "fresh_ids ?ps" by (simp add: fresh_ids_def op_ids_Cons [of _ "[_]"])
  moreover have "ex_store2 = wd_Store (snd (broker_run ex_env ex_broker ?ps ([], \<lparr>wd_Store = new_memory, wd_Ledger = []\<rparr>)))"
    using ex_run2(1) by (simp only: ex_run2_def)
  moreover have "length (me_tokens ex_store2) < 3" by (simp add: ex_store2_def new_memory_def)
  ultimately show ?thesis using blast_radius_returns [OF ex_broker_fields(2)] by blast
qed

text \<open>
  \<^verbatim>\<open>BlastRadius\<close> ends: over a store whose tokens were put after their parents, the recursion is
  never deeper than the number of tokens, and every report in it is of a live delegate.
\<close>

theorem blast_radius_terminates:
  assumes "br_Ops B = memory_ops" and "memory_inv s" and "parents_first (me_tokens s)" and "length (me_tokens s) < n"
  shows "\<exists>res. blast_radius n E now B s i = Some res \<and> (\<forall>b. res = Inr b \<longrightarrow> list_all bl_Live (bl_Children b))"
proof -
  have "tail_length (me_tokens s) i < n" using tail_length_le [of "me_tokens s" i] assms(4) by simp
  then obtain res where res: "blast_radius n E now B s i = Some res"
    using blast_radius_Some [OF assms(1-3)] by blast
  have "list_all bl_Live (bl_Children b)" if "res = Inr b" for b
    using res that by (cases n) (auto split: sum.splits dest!: blast_kids_live)
  with res show ?thesis by blast
qed

theorem blast_radius_terminates_witness:
  "\<exists>res. blast_radius 3 ex_env 0 ex_broker ex_store2 ''r1'' = Some res"
proof -
  have "tr_Parent (ex_record_of ex_root_claims) = []" "tr_Parent (ex_record_of ex_kid_claims) = ''r1''" by code_simp+
  then have "parents_first (me_tokens ex_store2)" "length (me_tokens ex_store2) < 3"
    by (simp_all add: ex_store2_def new_memory_def)
  moreover have "memory_inv ex_store2" by (rule ex_store_inv)
  ultimately show ?thesis using blast_radius_terminates [OF ex_broker_fields(2)] by blast
qed



definition ex_blast :: blast_report where
  "ex_blast = the_right (the (blast_radius 3 ex_env 0 ex_broker ex_store2 ''k1''))"

lemma ex_blast: "blast_radius 3 ex_env 0 ex_broker ex_store2 ''k1'' = Some (Inr ex_blast)"
proof -
  have "(case blast_radius 3 ex_env 0 ex_broker ex_store2 ''k1'' of Some (Inr _) \<Rightarrow> True | _ \<Rightarrow> False)" by code_simp
  then show ?thesis by (auto simp: ex_blast_def the_right_def split: option.splits sum.splits)
qed


end
