(* ===== verification/Broker_Http.thy ===== *)
theory Broker_Http
  imports Blast_Radius
begin

section \<open>The HTTP interface of the broker (\<^verbatim>\<open>internal/broker/http.go\<close>)\<close>

text \<open>
  \<^verbatim>\<open>Handler\<close> as one function from a request to a status, a body and the next world. The routing
  patterns of \<^verbatim>\<open>net/http\<close> and the JSON decoder of the bodies stand before it: a request is the
  value of \<^verbatim>\<open>Authorization\<close> and a route with its decoded body, \<^const>\<open>None\<close> when \<^verbatim>\<open>Decode\<close> fails. The
  body of an error is the error itself.
\<close>

datatype api_route =
    GetHealthz
  | GetJwks
  | PostWorkloads "(string \<times> string) option"
  | PostIdentity "(string \<times> string \<times> string) option"
  | PostTokens "mint_request option"
  | PostDelegate "delegate_request option"
  | PostApprovals "approve_request option"
  | PostAuthorize "authorize_request option"
  | PostRevoke string string
  | GetBlastRadius string

datatype api_body =
    BodyOk
  | BodyKey string string
  | BodyWorkload string string
  | BodySvid string string int
  | BodyIssued issued
  | BodyApproval approval
  | BodyDecision decision
  | BodyRevoked string
  | BodyBlast blast_report
  | BodyError broker_err
  | BodyBadJson
  | BodyAdminRequired
  | BodyLineageRequired

subsection \<open>Helpers\<close>

definition bearer :: "string \<Rightarrow> string" where
  "bearer h = (if has_prefix h ''Bearer '' then trim_prefix h ''Bearer '' else [])"

definition is_admin :: "string \<Rightarrow> string \<Rightarrow> bool" where
  "is_admin auth adminToken \<longleftrightarrow> adminToken \<noteq> [] \<and> bearer auth = adminToken"

text \<open>
  The status of an error. \<^verbatim>\<open>errors.Is\<close> looks through the errors that \<^verbatim>\<open>fmt.Errorf\<close> wraps with
  \<^verbatim>\<open>%w\<close>; an invalid scope is a wrapped \<^verbatim>\<open>ErrBadRequest\<close>. The errors of an offline chain wrap none of
  the listed ones.
\<close>

fun http_status :: "broker_err \<Rightarrow> int" where
  "http_status EBadRequest = 400"
| "http_status (EBadScope _) = 400"
| "http_status EBadSecret = 401"
| "http_status (EJwt _) = 401"
| "http_status EWrongKind = 401"
| "http_status (EStore ErrNotFound) = 404"
| "http_status (EStore (ErrExhausted _)) = 403"
| "http_status (EPolicy _) = 403"
| "http_status (EDepth _ _) = 403"
| "http_status EEmptyScope = 403"
| "http_status (ERevoked _) = 403"
| "http_status EBinding = 403"
| "http_status (ESvid e) = http_status e"
| "http_status (EParent e) = http_status e"
| "http_status (EParentSvid e) = http_status e"
| "http_status (EChildSvid e) = http_status e"
| "http_status (EApprovalToken e) = http_status e"
| "http_status _ = 500"

subsection \<open>The handler\<close>

text \<open>A handler behind \<^verbatim>\<open>admin\<close>, and one that decodes a body first.\<close>

definition admin_only :: "string \<Rightarrow> string \<Rightarrow> 'w \<Rightarrow> (int \<times> api_body) \<times> 'w \<Rightarrow> (int \<times> api_body) \<times> 'w" where
  "admin_only auth adminToken w r = (if \<not> is_admin auth adminToken then ((401, BodyAdminRequired), w) else r)"

definition decoded :: "'q option \<Rightarrow> 'w \<Rightarrow> ('q \<Rightarrow> (int \<times> api_body) \<times> 'w) \<Rightarrow> (int \<times> api_body) \<times> 'w" where
  "decoded q w h = (case q of None \<Rightarrow> ((400, BodyBadJson), w) | Some x \<Rightarrow> h x)"

definition api_error :: "broker_err \<Rightarrow> int \<times> api_body" where
  "api_error e = (http_status e, BodyError e)"

text \<open>Lines 116 to 132; \<open>fuel\<close> is that of the recursion of \<^verbatim>\<open>BlastRadius\<close>.\<close>

definition get_blast_radius ::
    "nat \<Rightarrow> 'z env_scheme \<Rightarrow> time \<Rightarrow> 's broker \<Rightarrow> string \<Rightarrow> string \<Rightarrow> string \<Rightarrow> 's \<Rightarrow> (int \<times> api_body) option" where
  "get_blast_radius fuel E now B adminToken auth i s =
     (if \<not> is_admin auth adminToken
         \<and> (case jwt_verify E (sg_Pub (br_Signer B)) (bearer auth) now of
              (c, err) \<Rightarrow> err \<noteq> None \<or> cm_Kind c \<noteq> ''capability'' \<or> \<not> contains (lineage c) i)
      then Some (401, BodyLineageRequired)
      else map_option (\<lambda>r. case r of Inl e \<Rightarrow> api_error e | Inr b \<Rightarrow> (200, BodyBlast b)) (blast_radius fuel E now B s i))"

text \<open>
  \<open>fresh1\<close> and \<open>fresh2\<close> are the random ids a request draws. The result is \<^const>\<open>None\<close> only when the
  fuel of a blast radius runs out.
\<close>

definition handle ::
    "nat \<Rightarrow> 'z broker_env_scheme \<Rightarrow> time \<Rightarrow> 's broker \<Rightarrow> string \<Rightarrow> string \<Rightarrow> string \<Rightarrow> string \<Rightarrow> api_route \<Rightarrow> 's world
       \<Rightarrow> ((int \<times> api_body) \<times> 's world) option" where
  "handle fuel E now B adminToken fresh1 fresh2 auth route w =
     (case route of
        GetHealthz \<Rightarrow> Some ((200, BodyOk), w)
      | GetJwks \<Rightarrow> Some ((200, BodyKey (sg_KID (br_Signer B)) (raw_url_encode (sg_Pub (br_Signer B)))), w)
      | PostWorkloads q \<Rightarrow> Some (admin_only auth adminToken w (decoded q w (\<lambda>(name, secret).
          case register_workload E B name secret w of
            (Some e, w') \<Rightarrow> (api_error e, w')
          | (None, w') \<Rightarrow> ((201, BodyWorkload name (spiffe_id B name [])), w'))))
      | PostIdentity q \<Rightarrow> Some (decoded q w (\<lambda>(workload, secret, inst).
          case issue_svid E now B fresh1 fresh2 workload secret inst w of
            Inl e \<Rightarrow> (api_error e, w)
          | Inr (t, c) \<Rightarrow> ((201, BodySvid t (cm_Subject c) (cm_Expires c)), w)))
      | PostTokens q \<Rightarrow> Some (admin_only auth adminToken w (decoded q w (\<lambda>r.
          case mint_root E now B fresh1 r w of
            (Inl e, w') \<Rightarrow> (api_error e, w')
          | (Inr i, w') \<Rightarrow> ((201, BodyIssued i), w'))))
      | PostDelegate q \<Rightarrow> Some (decoded q w (\<lambda>r.
          case delegate E now B fresh1 r w of
            (Inl e, w') \<Rightarrow> (api_error e, w')
          | (Inr i, w') \<Rightarrow> ((201, BodyIssued i), w')))
      | PostApprovals q \<Rightarrow> Some (admin_only auth adminToken w (decoded q w (\<lambda>r.
          case approve E now B fresh1 r w of
            Inl e \<Rightarrow> (api_error e, w)
          | Inr a \<Rightarrow> ((201, BodyApproval a), w))))
      | PostAuthorize q \<Rightarrow> Some (decoded q w (\<lambda>r.
          case authorize E now B r w of
            (d, w') \<Rightarrow> ((if dc_Allow d then 200 else 403, BodyDecision d), w')))
      | PostRevoke i reason \<Rightarrow> Some (admin_only auth adminToken w
          (case revoke_token E now B i (if reason = [] then ''revoked'' else reason) ''admin'' w of
             (Some e, w') \<Rightarrow> (api_error e, w')
           | (None, w') \<Rightarrow> ((200, BodyRevoked i), w')))
      | GetBlastRadius i \<Rightarrow> map_option (\<lambda>r. (r, w)) (get_blast_radius fuel E now B adminToken auth i (wd_Store w)))"

subsection \<open>Requests as operations of the broker\<close>

lemma bearer_prefixed [simp]: "bearer (''Bearer '' @ t) = t"
  using trim_prefix_append [of "''Bearer ''" t] by (simp add: bearer_def)

lemma is_admin_iff: "is_admin auth adminToken \<longleftrightarrow> adminToken \<noteq> [] \<and> auth = ''Bearer '' @ adminToken"
proof -
  have "auth = ''Bearer '' @ bearer auth" if "bearer auth \<noteq> []"
  proof -
    have "prefix ''Bearer '' auth" using that by (auto simp: bearer_def split: if_splits)
    then obtain t where "auth = ''Bearer '' @ t" by (auto simp: prefix_def)
    then show ?thesis using bearer_prefixed [of t] by simp
  qed
  moreover have "bearer auth = adminToken" if "auth = ''Bearer '' @ adminToken"
    using that bearer_prefixed by simp
  ultimately show ?thesis by (auto simp: is_admin_def)
qed

record api_request =
  ai_Now :: time
  ai_Fresh1 :: string
  ai_Fresh2 :: string
  ai_Auth :: string
  ai_Route :: api_route

definition api_ops :: "string \<Rightarrow> api_request \<Rightarrow> (time \<times> broker_op) list" where
  "api_ops adminToken q =
     map (Pair (ai_Now q))
       (case ai_Route q of
          PostWorkloads (Some (n, sec)) \<Rightarrow> if is_admin (ai_Auth q) adminToken then [OpRegister n sec] else []
        | PostTokens (Some r) \<Rightarrow> if is_admin (ai_Auth q) adminToken then [OpMint (ai_Fresh1 q) r] else []
        | PostDelegate (Some r) \<Rightarrow> [OpDelegate (ai_Fresh1 q) r]
        | PostAuthorize (Some r) \<Rightarrow> [OpAuthorize r]
        | PostRevoke i reason \<Rightarrow> if is_admin (ai_Auth q) adminToken
            then [OpRevoke i (if reason = [] then ''revoked'' else reason) ''admin''] else []
        | _ \<Rightarrow> [])"

definition answered :: "api_body \<Rightarrow> string \<Rightarrow> bool" where
  "answered body a \<longleftrightarrow> (case body of BodyDecision d \<Rightarrow> dc_Allow d \<and> a \<in> set (lineage (dc_Claims d)) | _ \<Rightarrow> False)"

definition handle_request ::
    "nat \<Rightarrow> 'z broker_env_scheme \<Rightarrow> 's broker \<Rightarrow> string \<Rightarrow> api_request \<Rightarrow> 's world \<Rightarrow> ((int \<times> api_body) \<times> 's world) option" where
  "handle_request fuel E B adminToken q w =
     handle fuel E (ai_Now q) B adminToken (ai_Fresh1 q) (ai_Fresh2 q) (ai_Auth q) (ai_Route q) w"

lemma get_blast_radius_answer:
  "get_blast_radius fuel E now B adminToken auth i s = Some (code, body) \<Longrightarrow> \<not> answered body a"
  by (cases "blast_radius fuel E now B s i")
    (auto simp: get_blast_radius_def api_error_def answered_def split: if_splits sum.splits)

lemma handle_ops:
  assumes "handle_request fuel E B adminToken q w = Some ((code, body), w')"
  shows "\<exists>l. broker_run E B (api_ops adminToken q) ([], w) = (l, w')
     \<and> count_log (call_under a) l = (if answered body a then 1 else 0)"
proof (cases "ai_Route q")
  case (PostAuthorize r)
  with assms show ?thesis
    by (cases r) (auto simp: handle_request_def handle_def decoded_def api_ops_def broker_step_def answered_def
        call_under_def split: prod.splits)
next
  case (GetBlastRadius i)
  with assms have "get_blast_radius fuel E (ai_Now q) B adminToken (ai_Auth q) i (wd_Store w) = Some (code, body)" "w' = w"
    by (auto simp: handle_request_def handle_def)
  with GetBlastRadius get_blast_radius_answer show ?thesis by (simp add: api_ops_def)
qed (use assms in \<open>auto simp: handle_request_def handle_def decoded_def api_ops_def broker_step_def answered_def
      admin_only_def api_error_def get_blast_radius_def split: prod.splits option.splits sum.splits if_splits\<close>)

lemma broker_run_log:
  "broker_run E B ps (lg, w) = (lg @ fst (broker_run E B ps ([], w)), snd (broker_run E B ps ([], w)))"
proof (induction ps arbitrary: lg w)
  case (Cons p ps)
  obtain l w1 where "broker_step E B p w = (l, w1)" by fastforce
  then show ?case using Cons [of "lg @ l" w1] Cons [of l w1] by simp
qed simp

text \<open>A sequence of requests; the bodies of the answers.\<close>

fun handle_all ::
    "nat \<Rightarrow> 'z broker_env_scheme \<Rightarrow> 's broker \<Rightarrow> string \<Rightarrow> api_request list \<Rightarrow> 's world \<Rightarrow> (api_body list \<times> 's world) option" where
  "handle_all fuel E B adminToken [] w = Some ([], w)"
| "handle_all fuel E B adminToken (q # qs) w =
     (case handle_request fuel E B adminToken q w of
        None \<Rightarrow> None
      | Some ((code, body), w1) \<Rightarrow> map_option (apfst ((#) body)) (handle_all fuel E B adminToken qs w1))"

lemma handle_all_answers:
  "\<forall>q \<in> set qs. \<forall>i. ai_Route q \<noteq> GetBlastRadius i \<Longrightarrow> handle_all fuel E B adminToken qs w \<noteq> None"
proof (induction qs arbitrary: w)
  case (Cons q qs)
  have "handle_request fuel E B adminToken q w \<noteq> None"
    using Cons.prems by (cases "ai_Route q") (auto simp: handle_request_def handle_def)
  then obtain code body w1 where "handle_request fuel E B adminToken q w = Some ((code, body), w1)" by auto
  with Cons show ?case by simp
qed simp

lemma handle_all_ops:
  "handle_all fuel E B adminToken qs w = Some (bodies, w') \<Longrightarrow>
     \<exists>l. broker_run E B (concat (map (api_ops adminToken) qs)) ([], w) = (l, w')
       \<and> count_log (call_under a) l = int (length (filter (\<lambda>b. answered b a) bodies))"
proof (induction qs arbitrary: w bodies)
  case (Cons q qs)
  obtain code body w1 where h: "handle_request fuel E B adminToken q w = Some ((code, body), w1)"
    using Cons.prems by (cases "handle_request fuel E B adminToken q w") auto
  then obtain rest where rest: "handle_all fuel E B adminToken qs w1 = Some (rest, w')" "bodies = body # rest"
    using Cons.prems by auto
  obtain l1 where l1: "broker_run E B (api_ops adminToken q) ([], w) = (l1, w1)"
    "count_log (call_under a) l1 = (if answered body a then 1 else 0)" using handle_ops [OF h] by blast
  obtain l2 where l2: "broker_run E B (concat (map (api_ops adminToken) qs)) ([], w1) = (l2, w')"
    "count_log (call_under a) l2 = int (length (filter (\<lambda>b. answered b a) rest))"
    using Cons.IH [OF rest(1)] by blast
  have "broker_run E B (concat (map (api_ops adminToken) (q # qs))) ([], w) = (l1 @ l2, w')"
    using broker_run_log [of E B _ l1 w1] l1(1) l2(1) by (simp add: broker_run_append)
  with l1(2) l2(2) rest(2) show ?case by simp
qed simp

subsection \<open>Properties\<close>

definition needs_admin :: "api_route \<Rightarrow> bool" where
  "needs_admin route \<longleftrightarrow> (case route of PostWorkloads _ \<Rightarrow> True | PostTokens _ \<Rightarrow> True | PostApprovals _ \<Rightarrow> True
     | PostRevoke _ _ \<Rightarrow> True | _ \<Rightarrow> False)"

text \<open>
  Administration needs the administrator's token: without it, and always when none is configured,
  registering a workload, minting a root token, approving and revoking answer 401 and change nothing.
\<close>

theorem admin_required:
  assumes "adminToken = [] \<or> auth \<noteq> ''Bearer '' @ adminToken" and "needs_admin route"
  shows "handle fuel E now B adminToken f1 f2 auth route w = Some ((401, BodyAdminRequired), w)"
proof -
  have "\<not> is_admin auth adminToken"
    using assms(1) by (auto simp: is_admin_iff)
  then show ?thesis
    using assms(2) by (auto simp: handle_def needs_admin_def admin_only_def split: api_route.splits)
qed

theorem admin_required_witness:
  "handle 1 ex_env 0 ex_broker [] ''a'' ''b'' ''Bearer '' (PostRevoke ''r1'' []) ex_world2 = Some ((401, BodyAdminRequired), ex_world2)"
  by (rule admin_required) (simp_all add: needs_admin_def)

text \<open>
  Who may see a blast radius: the administrator, and the bearer of an unexpired capability token with
  the id in its lineage. That is the id of the token itself or of any ancestor, so a delegate sees the
  report of the root token with all its other delegates; a revoked token still opens it.
\<close>

theorem blast_radius_access:
  "get_blast_radius fuel E now B adminToken auth i s =
     (if adminToken \<noteq> [] \<and> auth = ''Bearer '' @ adminToken
         \<or> (\<exists>c. jwt_verify E (sg_Pub (br_Signer B)) (bearer auth) now = (c, None) \<and> cm_Kind c = ''capability''
              \<and> (i = cm_ID c \<or> i \<in> set (cm_Chain c)))
      then map_option (\<lambda>r. case r of Inl e \<Rightarrow> (http_status e, BodyError e) | Inr b \<Rightarrow> (200, BodyBlast b))
        (blast_radius fuel E now B s i)
      else Some (401, BodyLineageRequired))"
  by (cases "jwt_verify E (sg_Pub (br_Signer B)) (bearer auth) now")
    (auto simp: get_blast_radius_def is_admin_iff lineage_def api_error_def [abs_def])

text \<open>
  The budget of a token holds over the whole interface: whatever sequence of requests is served, by
  anyone and at any times, the \<^verbatim>\<open>/v1/authorize\<close> answers that allow a call of the token or of a
  delegate of it are at most its \<^verbatim>\<open>max_calls\<close>.
\<close>

theorem api_budget:
  assumes "br_Ops B = memory_ops" and "fresh_ids (concat (map (api_ops adminToken) qs))"
    and "handle_all fuel E B adminToken qs \<lparr>wd_Store = new_memory, wd_Ledger = l\<rparr> = Some (bodies, w)"
    and "mem_get_token a (wd_Store w) = Inr t"
  shows "int (length (filter (\<lambda>b. answered b a) bodies)) \<le> max 0 (tr_MaxCalls t)"
proof -
  obtain lg where lg: "broker_run E B (concat (map (api_ops adminToken) qs)) ([], \<lparr>wd_Store = new_memory, wd_Ledger = l\<rparr>) = (lg, w)"
    and n: "count_log (call_under a) lg = int (length (filter (\<lambda>b. answered b a) bodies))"
    using handle_all_ops [OF assms(3)] by blast
  obtain es where "mem.tracked E B (es @ []) lg w"
    using mem.broker_run_tracked [OF new_memory_tracked assms(1,2) _ lg] new_memory_view by auto
  then show ?thesis
    using mem.broker_run_bounds(1) [of E B es lg w a t] assms(4) n
    by (simp add: mem_get_token_def memory_view_def split: option.splits)
qed

definition ex_requests :: "api_request list" where
  "ex_requests =
     [\<lparr>ai_Now = 0, ai_Fresh1 = ''r1'', ai_Fresh2 = [], ai_Auth = ''Bearer adm'', ai_Route = PostTokens (Some ex_mint)\<rparr>,
      \<lparr>ai_Now = 0, ai_Fresh1 = ''r2'', ai_Fresh2 = [], ai_Auth = ''Bearer x'', ai_Route = PostTokens (Some ex_mint)\<rparr>,
      \<lparr>ai_Now = 0, ai_Fresh1 = ''k1'', ai_Fresh2 = [], ai_Auth = [], ai_Route = PostDelegate (Some ex_delegate)\<rparr>,
      \<lparr>ai_Now = second, ai_Fresh1 = [], ai_Fresh2 = [], ai_Auth = [], ai_Route = PostAuthorize (Some ex_authorize)\<rparr>,
      \<lparr>ai_Now = second, ai_Fresh1 = [], ai_Fresh2 = [], ai_Auth = [], ai_Route = PostRevoke ''r1'' []\<rparr>]"

lemma ex_requests_ops: "concat (map (api_ops ''adm'') ex_requests) = ex_ops"
  by (simp add: ex_requests_def api_ops_def ex_ops_def is_admin_iff)

theorem api_budget_witness:
  "\<exists>bodies w. handle_all 1 ex_env ex_broker ''adm'' ex_requests \<lparr>wd_Store = new_memory, wd_Ledger = []\<rparr> = Some (bodies, w)
     \<and> length (filter (\<lambda>b. answered b ''r1'') bodies) = 1
     \<and> int (length (filter (\<lambda>b. answered b ''r1'') bodies)) \<le> max 0 3"
proof -
  obtain bodies w where h: "handle_all 1 ex_env ex_broker ''adm'' ex_requests \<lparr>wd_Store = new_memory, wd_Ledger = []\<rparr>
      = Some (bodies, w)"
    using handle_all_answers [of ex_requests 1 ex_env ex_broker "''adm''"] by (fastforce simp: ex_requests_def)
  obtain lg where lg: "ex_run3 = (lg, w)" "count_log (call_under ''r1'') lg = int (length (filter (\<lambda>b. answered b ''r1'') bodies))"
    using handle_all_ops [OF h, of "''r1''"] by (auto simp: ex_requests_ops ex_run3_def)
  have "tr_MaxCalls (ex_record_of ex_root_claims) = 3" by code_simp
  moreover have "length (filter (\<lambda>b. answered b ''r1'') bodies) = 1"
    using lg ex_run3(1) by (metis fst_conv of_nat_eq_1_iff)
  moreover have "fresh_ids (concat (map (api_ops ''adm'') ex_requests))" by (simp add: ex_requests_ops ex_ops_fresh)
  moreover have "mem_get_token ''r1'' (wd_Store w) = Inr (ex_record_of ex_root_claims)"
    using ex_run3(2) lg(1) by (metis snd_conv)
  ultimately show ?thesis using h api_budget [OF ex_broker_fields(2) _ h] by fastforce
qed

end
