(* ===== verification/Gateway_Properties.thy ===== *)
theory Gateway_Properties
  imports Gateway Broker_Http
begin

section \<open>Properties of the gateway\<close>

subsection \<open>Requests as operations of the broker\<close>

text \<open>The request to the broker that a gated message becomes.\<close>

definition gw_request :: "gw_codec \<Rightarrow> ('s, 'r) gateway \<Rightarrow> http_request \<Rightarrow> rpc_msg \<Rightarrow> string \<Rightarrow> authorize_request" where
  "gw_request C g req m n =
     (let cr = credentials_of req in
      \<lparr>au_Token = cr_Token cr, au_SVID = cr_SVID cr, au_Approval = cr_Approval cr, au_Call = message_call C g m n\<rparr>)"

definition gated_name :: "gw_codec \<Rightarrow> ('s, 'r) gateway \<Rightarrow> rpc_msg \<Rightarrow> string option" where
  "gated_name C g m = (case classify C g m of Some [] \<Rightarrow> None | x \<Rightarrow> x)"

lemma gate_message_open: "classify C g m = None \<Longrightarrow> gate_message E K C now g req m st = (Forward, st)"
  by (simp add: gate_message_def)

lemma gate_message_gated:
  assumes "gated_name C g m = Some n" and "authorize E now (gw_Svc g) (gw_request C g req m n) (ps_World st) = (d, w')"
  shows "fst (gate_message E K C now g req m st) = Forward \<longleftrightarrow> dc_Allow d
      \<and> (cm_Cnf (dc_Claims d) \<noteq> None \<longrightarrow>
           fst (gw_check_pop E K now g req (credentials_of req) (dc_Claims d) (ps_Replay st)) = None)"
    and "ps_World (snd (gate_message E K C now g req m st)) = w'"
proof -
  have n: "classify C g m = Some n" "n \<noteq> []"
    using assms(1) by (auto simp: gated_name_def split: option.splits list.splits)
  show "fst (gate_message E K C now g req m st) = Forward \<longleftrightarrow> dc_Allow d
      \<and> (cm_Cnf (dc_Claims d) \<noteq> None \<longrightarrow>
           fst (gw_check_pop E K now g req (credentials_of req) (dc_Claims d) (ps_Replay st)) = None)"
    and "ps_World (snd (gate_message E K C now g req m st)) = w'"
    using n assms(2) by (auto simp: gate_message_def gw_request_def Let_def split: prod.splits option.splits)
qed

lemma gated_name_None: "gated_name C g m = None \<longleftrightarrow> classify C g m = None \<or> classify C g m = Some []"
  by (auto simp: gated_name_def split: option.splits list.splits)

lemma gate_message_ungated: "gated_name C g m = None \<Longrightarrow> snd (gate_message E K C now g req m st) = st"
  by (auto simp: gated_name_None gate_message_def)

definition message_ops :: "gw_codec \<Rightarrow> time \<Rightarrow> ('s, 'r) gateway \<Rightarrow> http_request \<Rightarrow> rpc_msg \<Rightarrow> (time \<times> broker_op) list" where
  "message_ops C now g req m =
     (case gated_name C g m of None \<Rightarrow> [] | Some n \<Rightarrow> [(now, OpAuthorize (gw_request C g req m n))])"

text \<open>The decisions behind the gated messages that are forwarded.\<close>

definition forward_log ::
    "'z broker_env_scheme \<Rightarrow> pop_codec \<Rightarrow> gw_codec \<Rightarrow> time \<Rightarrow> ('s, 'r) gateway \<Rightarrow> http_request \<Rightarrow> rpc_msg \<Rightarrow>
       ('s, 'r) pep_state \<Rightarrow> call_log" where
  "forward_log E K C now g req m st =
     (case gated_name C g m of
        None \<Rightarrow> []
      | Some n \<Rightarrow>
          if fst (gate_message E K C now g req m st) = Forward
          then [(gw_request C g req m n, fst (authorize E now (gw_Svc g) (gw_request C g req m n) (ps_World st)))] else [])"

fun messages_log ::
    "'z broker_env_scheme \<Rightarrow> pop_codec \<Rightarrow> gw_codec \<Rightarrow> time \<Rightarrow> ('s, 'r) gateway \<Rightarrow> http_request \<Rightarrow> rpc_msg list \<Rightarrow>
       ('s, 'r) pep_state \<Rightarrow> call_log" where
  "messages_log E K C now g req [] st = []"
| "messages_log E K C now g req (m # ms) st =
     forward_log E K C now g req m st
       @ messages_log E K C now g req ms (snd (gate_message E K C now g req m st))"

lemma gate_message_ops:
  assumes "gate_message E K C now g req m st = (res, st1)"
  shows "\<exists>l. broker_run E (gw_Svc g) (message_ops C now g req m) ([], ps_World st) = (l, ps_World st1)
     \<and> count_log (call_under a) (forward_log E K C now g req m st) \<le> count_log (call_under a) l"
proof (cases "gated_name C g m")
  case None
  with assms gate_message_ungated [OF None, of E K now req st] show ?thesis by (simp add: message_ops_def forward_log_def)
next
  case (Some n)
  obtain d w' where d: "authorize E now (gw_Svc g) (gw_request C g req m n) (ps_World st) = (d, w')" by fastforce
  have "ps_World st1 = w'" using gate_message_gated(2) [OF Some d, of K] assms by simp
  then show ?thesis
    using Some d by (simp add: message_ops_def forward_log_def broker_step_def)
qed

lemma gate_messages_ops:
  "gate_messages E K C now g req ms st = (out, st1) \<Longrightarrow>
     \<exists>l. broker_run E (gw_Svc g) (concat (map (message_ops C now g req) ms)) ([], ps_World st) = (l, ps_World st1)
       \<and> count_log (call_under a) (messages_log E K C now g req ms st) \<le> count_log (call_under a) l"
proof (induction ms arbitrary: st out)
  case (Cons m ms)
  obtain res s1 where m: "gate_message E K C now g req m st = (res, s1)" by fastforce
  obtain rest where rest: "gate_messages E K C now g req ms s1 = (rest, st1)"
    using Cons.prems m by (auto split: prod.splits)
  obtain l1 where l1: "broker_run E (gw_Svc g) (message_ops C now g req m) ([], ps_World st) = (l1, ps_World s1)"
    "count_log (call_under a) (forward_log E K C now g req m st) \<le> count_log (call_under a) l1"
    using gate_message_ops [OF m] by blast
  obtain l2 where l2: "broker_run E (gw_Svc g) (concat (map (message_ops C now g req) ms)) ([], ps_World s1) = (l2, ps_World st1)"
    "count_log (call_under a) (messages_log E K C now g req ms s1) \<le> count_log (call_under a) l2"
    using Cons.IH [OF rest] by blast
  have "broker_run E (gw_Svc g) (concat (map (message_ops C now g req) (m # ms))) ([], ps_World st) = (l1 @ l2, ps_World st1)"
    using broker_run_log [of E "gw_Svc g" _ l1 "ps_World s1"] l1(1) l2(1) by (simp add: broker_run_append)
  then show ?case using l1(2) l2(2) m by (intro exI [of _ "l1 @ l2"]) simp
qed simp

text \<open>The messages of a request that is served, and whether they came as a batch.\<close>

definition gw_messages :: "gw_codec \<Rightarrow> ('s, 'r) gateway \<Rightarrow> http_request \<Rightarrow> (bool \<times> rpc_msg list) option" where
  "gw_messages C g req =
     (let limit = (if gw_MaxBodyBytes g \<le> 0 then 2 ^ 20 else gw_MaxBodyBytes g); body = trim_space (hr_Body req) in
      if hr_Method req \<noteq> ''POST'' \<or> limit < int (length (hr_Body req)) \<or> body = [] then None
      else if hd body = CHR ''['' then
        (case gc_batch C body of None \<Rightarrow> None | Some ms \<Rightarrow> if ms = [] then None else Some (True, ms))
      else map_option (\<lambda>m. (False, [m])) (gc_single C body))"

lemma serve_gateway_cases:
  "serve_gateway E K C up now g req st =
     (case gw_messages C g req of
        None \<Rightarrow> (fst (serve_gateway E K C up now g req st), st)
      | Some (batch, ms) \<Rightarrow> serve_messages E K C up now g req batch ms st)
   \<and> (gw_messages C g req = None \<longrightarrow> snd (fst (serve_gateway E K C up now g req st)) = None)"
  by (auto simp: serve_gateway_def gw_messages_def Let_def split: option.splits)

text \<open>The operations of the broker a request becomes, and the decisions behind the messages it sends on.\<close>

definition gateway_ops :: "gw_codec \<Rightarrow> time \<Rightarrow> ('s, 'r) gateway \<Rightarrow> http_request \<Rightarrow> (time \<times> broker_op) list" where
  "gateway_ops C now g req =
     (case gw_messages C g req of None \<Rightarrow> [] | Some (_, ms) \<Rightarrow> concat (map (message_ops C now g req) ms))"

definition gateway_log ::
    "'z broker_env_scheme \<Rightarrow> pop_codec \<Rightarrow> gw_codec \<Rightarrow> time \<Rightarrow> ('s, 'r) gateway \<Rightarrow> http_request \<Rightarrow> ('s, 'r) pep_state
       \<Rightarrow> call_log" where
  "gateway_log E K C now g req st =
     (case gw_messages C g req of None \<Rightarrow> [] | Some (_, ms) \<Rightarrow> messages_log E K C now g req ms st)"

lemma gateway_ops_ids [simp]: "op_ids (gateway_ops C now g req) = []"
  by (auto simp: op_ids_def gateway_ops_def List.map_filter_def filter_empty_conv message_ops_def split: option.splits)

lemma serve_messages_state: "snd (serve_messages E K C up now g req b ms st) = snd (gate_messages E K C now g req ms st)"
  by (simp add: serve_messages_def Let_def split: prod.splits)

lemma gateway_request_ops:
  assumes "serve_gateway E K C up now g req st = (reply, st1)"
  shows "\<exists>l. broker_run E (gw_Svc g) (gateway_ops C now g req) ([], ps_World st) = (l, ps_World st1)
     \<and> count_log (call_under a) (gateway_log E K C now g req st) \<le> count_log (call_under a) l"
proof (cases "gw_messages C g req")
  case None
  then have "st1 = st" using serve_gateway_cases [of E K C up now g req st] assms by simp
  with None show ?thesis by (simp add: gateway_ops_def gateway_log_def)
next
  case (Some bm)
  then obtain b ms where bm: "gw_messages C g req = Some (b, ms)" by (cases bm) simp
  obtain out s1 where gm: "gate_messages E K C now g req ms st = (out, s1)" by fastforce
  moreover have "st1 = s1"
    using serve_gateway_cases [of E K C up now g req st] assms bm serve_messages_state [of E K C up now g req b ms st] gm
    by (metis (no_types, lifting) case_prod_conv option.simps(5) snd_conv)
  ultimately show ?thesis
    using gate_messages_ops [OF gm, of a] bm by (simp add: gateway_ops_def gateway_log_def)
qed

subsection \<open>Properties\<close>

text \<open>Whether a message may go upstream, in the state it meets.\<close>

definition message_passes ::
    "'z broker_env_scheme \<Rightarrow> pop_codec \<Rightarrow> gw_codec \<Rightarrow> time \<Rightarrow> ('s, 'r) gateway \<Rightarrow> http_request \<Rightarrow> ('s, 'r) pep_state \<Rightarrow>
       rpc_msg \<Rightarrow> bool" where
  "message_passes E K C now g req st m \<longleftrightarrow>
     (case classify C g m of
        None \<Rightarrow> True
      | Some n \<Rightarrow>
          n \<noteq> []
          \<and> (let d = fst (authorize E now (gw_Svc g) (gw_request C g req m n) (ps_World st)) in
             dc_Allow d
             \<and> (cm_Cnf (dc_Claims d) = None
                \<or> fst (gw_check_pop E K now g req (credentials_of req) (dc_Claims d) (ps_Replay st)) = None)))"

lemma gate_message_forward: "fst (gate_message E K C now g req m st) = Forward \<longleftrightarrow> message_passes E K C now g req st m"
proof (cases "gated_name C g m")
  case None
  then show ?thesis by (auto simp: gated_name_None message_passes_def gate_message_def)
next
  case (Some n)
  obtain d w' where d: "authorize E now (gw_Svc g) (gw_request C g req m n) (ps_World st) = (d, w')" by fastforce
  have "classify C g m = Some n" "n \<noteq> []" using Some by (auto simp: gated_name_def split: option.splits list.splits)
  with gate_message_gated(1) [OF Some d, of K] d show ?thesis by (auto simp: message_passes_def)
qed

definition state_before ::
    "'z broker_env_scheme \<Rightarrow> pop_codec \<Rightarrow> gw_codec \<Rightarrow> time \<Rightarrow> ('s, 'r) gateway \<Rightarrow> http_request \<Rightarrow> rpc_msg list \<Rightarrow>
       ('s, 'r) pep_state \<Rightarrow> nat \<Rightarrow> ('s, 'r) pep_state" where
  "state_before E K C now g req ms st i = snd (gate_messages E K C now g req (take i ms) st)"

lemma gate_messages_fst [simp]: "map fst (fst (gate_messages E K C now g req ms st)) = ms"
  by (induction ms arbitrary: st) (auto simp: case_prod_beta Let_def)

lemma gate_messages_sent:
  "map fst (filter (\<lambda>(_, res). res = Forward) (fst (gate_messages E K C now g req ms st)))
     = map ((!) ms) (filter (\<lambda>i. message_passes E K C now g req (state_before E K C now g req ms st i) (ms ! i)) [0..<length ms])"
proof (induction ms arbitrary: st)
  case (Cons m ms)
  obtain res st1 where m: "gate_message E K C now g req m st = (res, st1)" by fastforce
  obtain rest st2 where rest: "gate_messages E K C now g req ms st1 = (rest, st2)" by fastforce
  have before: "state_before E K C now g req (m # ms) st (Suc i) = state_before E K C now g req ms st1 i" for i
    by (simp add: state_before_def m split: prod.split)
  have "state_before E K C now g req (m # ms) st 0 = st" by (simp add: state_before_def)
  moreover have "res = Forward \<longleftrightarrow> message_passes E K C now g req st m" using gate_message_forward m by (metis fst_conv)
  ultimately show ?case
    using Cons.IH [of st1]
    by (simp add: m rest upt_conv_Cons map_Suc_upt [symmetric] filter_map comp_def before del: upt_Suc split: prod.split)
qed simp

text \<open>
  \<^bold>\<open>C5.\<close> What the gateway sends upstream: of a readable request, in order and re-encoded, the messages that
  need no authorization and those whose call the broker allows and whose proof of possession, on a token
  bound to a key, passes, each judged in the state its predecessors left; of any other request nothing.
  A message alone goes as an object, all others as an array.
\<close>

theorem gateway_forwards_exact:
  "snd (fst (serve_gateway E K C up now g req st)) =
     (case gw_messages C g req of
        None \<Rightarrow> None
      | Some (batch, ms) \<Rightarrow>
          let sent = map ((!) ms)
            (filter (\<lambda>i. message_passes E K C now g req (state_before E K C now g req ms st i) (ms ! i)) [0..<length ms]) in
          if sent = [] then None
          else if length sent = 1 \<and> \<not> batch then Some (gc_encode C (hd sent))
          else Some (''['' @ join_raw (map (gc_encode C) sent) @ '']''))"
proof (cases "gw_messages C g req")
  case None
  with serve_gateway_cases [of E K C up now g req st] show ?thesis by simp
next
  case (Some bm)
  then obtain b ms where bm: "gw_messages C g req = Some (b, ms)" by (cases bm) simp
  let ?gated = "fst (gate_messages E K C now g req ms st)"
  let ?sent = "map fst (filter (\<lambda>(_, res). res = Forward) ?gated)"
  have "snd (fst (serve_gateway E K C up now g req st)) = gw_payload C b ?gated"
    using serve_gateway_cases [of E K C up now g req st] bm
    by (simp add: serve_messages_def Let_def split: prod.split)
  moreover have "map (\<lambda>(m, _). gc_encode C m) (filter (\<lambda>(_, res). res = Forward) ?gated) = map (gc_encode C) ?sent"
    by (simp add: case_prod_unfold)
  ultimately show ?thesis
    by (simp add: gw_payload_def bm hd_map gate_messages_sent Let_def del: map_map)
qed

text \<open>The responses in an answer.\<close>

definition responses :: "gw_reply \<Rightarrow> rpc_resp list" where
  "responses r = (case r of GwSingle _ a \<Rightarrow> [a] | GwBatch rs \<Rightarrow> rs | _ \<Rightarrow> [])"

lemma filter_tools_list_id [simp]: "rr_ID (filter_tools_list E C now g cr s ur) = rr_ID ur"
  by (auto simp: filter_tools_list_def split: option.splits prod.splits)

lemma by_id_raw: "by_id rs i = Some ur \<Longrightarrow> raw_id (rr_ID ur) = i"
  by (auto simp: by_id_def dest!: map_of_SomeD)

lemma gate_message_id: "gate_message E K C now g req m st = (Decided r, st') \<Longrightarrow> rr_ID r = rm_ID m"
  by (auto simp: gate_message_def Let_def err_resp_def split: option.splits if_splits prod.splits)

lemma gate_messages_ids:
  "gate_messages E K C now g req ms st = (gated, st') \<Longrightarrow> (m, Decided r) \<in> set gated \<Longrightarrow> rr_ID r = rm_ID m"
  by (induction ms arbitrary: st gated) (auto dest: gate_message_id split: prod.splits)

lemma message_reply_some:
  "is_notification m \<longleftrightarrow> message_reply E C now g cr s ids up (m, res) = None"
  by (cases res) (auto simp: message_reply_def split: sum.splits option.splits)

lemma message_reply_id:
  "message_reply E C now g cr s ids up (m, res) = Some r \<Longrightarrow> (\<And>q. res = Decided q \<Longrightarrow> rr_ID q = rm_ID m) \<Longrightarrow>
     raw_id (rr_ID r) = raw_id (rm_ID m)"
  by (cases res) (auto simp: message_reply_def err_resp_def dest: by_id_raw split: sum.splits option.splits if_splits)

lemma map_filter_replies:
  assumes "\<forall>(m, res) \<in> set gated. \<forall>q. res = Decided q \<longrightarrow> rr_ID q = rm_ID m"
  shows "map (\<lambda>r. raw_id (rr_ID r)) (List.map_filter (message_reply E C now g cr s ids up) gated)
     = map (\<lambda>m. raw_id (rm_ID m)) (filter (\<lambda>m. \<not> is_notification m) (map fst gated))"
  using assms
proof (induction gated)
  case (Cons p gated)
  obtain m res where p: "p = (m, res)" by fastforce
  show ?case
  proof (cases "message_reply E C now g cr s ids up (m, res)")
    case None
    then have "is_notification m" by (simp add: message_reply_some [symmetric])
    with Cons p None show ?thesis by (simp add: List.map_filter_def)
  next
    case (Some r)
    then have "\<not> is_notification m" by (metis message_reply_some option.distinct(1))
    moreover have "raw_id (rr_ID r) = raw_id (rm_ID m)" using message_reply_id [OF Some] Cons.prems p by simp
    ultimately show ?thesis using Cons p Some by (simp add: List.map_filter_def)
  qed
qed (simp add: List.map_filter_def)

text \<open>
  \<^bold>\<open>C31.\<close> Every request is answered, and once: a readable request gets one response for each message that is
  no notification, in the order of the messages and under their ids, whatever the upstream sends back;
  only a request of nothing but notifications gets none. A batch is answered as a batch.
\<close>

theorem gateway_replies:
  "case gw_messages C g req of
     None \<Rightarrow> True
   | Some (batch, ms) \<Rightarrow>
       let reply = fst (fst (serve_gateway E K C up now g req st)); asked = filter (\<lambda>m. rm_ID m \<noteq> None) ms in
       map (\<lambda>r. raw_id (rr_ID r)) (responses reply) = map (\<lambda>m. raw_id (rm_ID m)) asked
       \<and> (if asked = [] then reply = GwNoContent else if batch then \<exists>rs. reply = GwBatch rs else \<exists>r. reply = GwSingle 200 r)"
proof (cases "gw_messages C g req")
  case (Some bm)
  then obtain b ms where bm: "gw_messages C g req = Some (b, ms)" by (cases bm) simp
  then have single: "\<not> b \<Longrightarrow> length ms = 1"
    by (auto simp: gw_messages_def Let_def split: if_splits option.splits)
  obtain gated st1 where g: "gate_messages E K C now g req ms st = (gated, st1)" by fastforce
  define out where "out = List.map_filter (message_reply E C now g (credentials_of req) (wd_Store (ps_World st1)) (filter_ids C g ms)
      (case gw_payload C b gated of None \<Rightarrow> Inr [] | Some p \<Rightarrow> gw_forward C up p)) gated"
  let ?asked = "filter (\<lambda>m. rm_ID m \<noteq> None) ms"
  have ids: "map (\<lambda>r. raw_id (rr_ID r)) out = map (\<lambda>m. raw_id (rm_ID m)) ?asked"
  proof -
    have decided: "\<forall>(m, res) \<in> set gated. \<forall>q. res = Decided q \<longrightarrow> rr_ID q = rm_ID m" using gate_messages_ids [OF g] by auto
    have "map fst gated = ms" using gate_messages_fst [of E K C now g req ms st] g by simp
    with map_filter_replies [OF decided] show ?thesis unfolding out_def is_notification_def by simp
  qed
  then have len: "length out = length ?asked" by (metis length_map)
  have reply: "fst (fst (serve_gateway E K C up now g req st)) = (if out = [] then GwNoContent else if b then GwBatch out else GwSingle 200 (hd out))"
    using serve_gateway_cases [of E K C up now g req st] bm g by (simp add: serve_messages_def out_def Let_def)
  have one: "out = [hd out]" if "\<not> b" "out \<noteq> []"
  proof -
    have "length out \<le> 1" using single [OF that(1)] len length_filter_le [of "\<lambda>m. rm_ID m \<noteq> None" ms] by simp
    with that(2) show ?thesis by (cases out) auto
  qed
  have "map (\<lambda>r. raw_id (rr_ID r)) (responses (if out = [] then GwNoContent else if b then GwBatch out else GwSingle 200 (hd out)))
      = map (\<lambda>m. raw_id (rm_ID m)) ?asked"
    unfolding ids [symmetric] using one by (auto simp: responses_def)
  moreover have "out = [] \<longleftrightarrow> ?asked = []" using len by (metis length_0_conv)
  ultimately show ?thesis by (simp add: bm reply Let_def del: filter_False)
qed simp

text \<open>
  \<^bold>\<open>C32.\<close> What the filter of tool lists keeps: when the presented credential is live, and the reply is a result with
  a list of tools, exactly the tools with a name that some scope of the credential allows on the resource
  \<^verbatim>\<open>*\<close> with no argument constraint at all; so a tool with a constrained argument is hidden although calls of it
  are allowed. When the credential is not live, or the reply has another shape, nothing is filtered.
\<close>

theorem filter_tools_list_exact:
  "filter_tools_list E C now g cr s ur =
     (case (rr_Error ur, rr_Result ur, peek E now (gw_Svc g) (cr_Token cr) (cr_SVID cr) s) of
        (None, Some result, c, None) \<Rightarrow>
          (case gc_whole C result of
             None \<Rightarrow> ur
           | Some whole \<Rightarrow>
               (case Option.bind (lookup whole ''tools'') (gc_list C) of
                  None \<Rightarrow> ur
                | Some tools \<Rightarrow>
                    ur\<lparr>rr_Result := Some (gc_encode_whole C (AList.update ''tools'' (gc_encode_list C
                      (filter (\<lambda>t. \<exists>n sc. tool_name C t = Some n \<and> sc \<in> set (cm_Scopes c) \<and> sc_Args sc = []
                          \<and> match_pat (sc_Tool sc) (gw_ToolPrefix g @ n) \<and> (\<exists>p \<in> set (sc_Resources sc). match_pat p ''*''))
                        tools)) whole))\<rparr>))
      | _ \<Rightarrow> ur)"
proof -
  have allows: "scope_allows sc \<lparr>cl_Tool = t, cl_Resource = ''*'', cl_Args = []\<rparr> \<longleftrightarrow>
      sc_Args sc = [] \<and> match_pat (sc_Tool sc) t \<and> (\<exists>p \<in> set (sc_Resources sc). match_pat p ''*'')" for sc t
    by (cases "sc_Args sc") (auto simp: scope_allows_def list_ex_iff)
  have "kept_tools C g scopes = filter (\<lambda>t. \<exists>n sc. tool_name C t = Some n \<and> sc \<in> set scopes \<and> sc_Args sc = []
      \<and> match_pat (sc_Tool sc) (gw_ToolPrefix g @ n) \<and> (\<exists>p \<in> set (sc_Resources sc). match_pat p ''*''))" for scopes
    unfolding kept_tools_def fun_eq_iff
    by (intro allI filter_cong) (auto simp: first_match_ex allows split: option.splits)
  then show ?thesis
    by (auto simp: filter_tools_list_def split: option.splits prod.splits)
qed

text \<open>The messages on a holder-bound token that went upstream.\<close>

fun held_forwards ::
    "'z broker_env_scheme \<Rightarrow> pop_codec \<Rightarrow> gw_codec \<Rightarrow> time \<Rightarrow> ('s, 'r) gateway \<Rightarrow> http_request \<Rightarrow> rpc_msg list \<Rightarrow>
       ('s, 'r) pep_state \<Rightarrow> rpc_msg list" where
  "held_forwards E K C now g req [] st = []"
| "held_forwards E K C now g req (m # ms) st =
     (let rest = held_forwards E K C now g req ms (snd (gate_message E K C now g req m st)) in
      case gated_name C g m of
        None \<Rightarrow> rest
      | Some n \<Rightarrow>
          if message_passes E K C now g req st m
            \<and> cm_Cnf (dc_Claims (fst (authorize E now (gw_Svc g) (gw_request C g req m n) (ps_World st)))) \<noteq> None
          then m # rest else rest)"

lemma gate_message_replay:
  assumes "gated_name C g m = Some n" and "authorize E now (gw_Svc g) (gw_request C g req m n) (ps_World st) = (d, w')"
  shows "ps_Replay (snd (gate_message E K C now g req m st)) =
     (if dc_Allow d \<and> cm_Cnf (dc_Claims d) \<noteq> None
      then snd (gw_check_pop E K now g req (credentials_of req) (dc_Claims d) (ps_Replay st)) else ps_Replay st)"
proof -
  have n: "classify C g m = Some n" "n \<noteq> []"
    using assms(1) by (auto simp: gated_name_def split: option.splits list.splits)
  with assms(2) show ?thesis
    by (auto simp: gate_message_def gw_request_def Let_def split: prod.splits option.splits)
qed

lemma held_forwards_once:
  assumes "gw_Replay g = mem_seen" and "p = cr_PoPProof (credentials_of req)"
    and "\<forall>c. proof_claims K p = Some c \<longrightarrow> in_int64 (pc_Expires c + unix_epoch)"
  shows "wf_map (ps_Replay st) \<Longrightarrow>
    length (held_forwards E K C now g req ms st) \<le> (if mem_replay.spent K (ps_Replay st) p now then 0 else 1)"
proof (induction ms arbitrary: st)
  case (Cons m ms)
  show ?case
  proof (cases "gated_name C g m")
    case None
    with Cons gate_message_ungated [OF None, of E K now req st] show ?thesis by (simp add: Let_def)
  next
    case (Some n)
    obtain d w' where d: "authorize E now (gw_Svc g) (gw_request C g req m n) (ps_World st) = (d, w')" by fastforce
    obtain e r' where cp: "gw_check_pop E K now g req (credentials_of req) (dc_Claims d) (ps_Replay st) = (e, r')" by fastforce
    let ?st1 = "snd (gate_message E K C now g req m st)"
    note replay = gate_message_replay [OF Some d, of K, unfolded cp]
    have passes: "message_passes E K C now g req st m \<longleftrightarrow> dc_Allow d \<and> (cm_Cnf (dc_Claims d) = None \<or> e = None)"
      using gate_message_gated(1) [OF Some d, of K] cp by (auto simp: gate_message_forward [symmetric])
    from cp have cp': "check_pop E K now mem_seen (gw_Audience g) req (cr_PoPKey (credentials_of req)) p (dc_Claims d) (ps_Replay st) = (e, r')"
      by (simp add: gw_check_pop_def assms(1,2))
    note keep = mem_replay.check_pop_keeps [OF Cons.prems cp', of p]
    show ?thesis
    proof (cases "dc_Allow d \<and> cm_Cnf (dc_Claims d) \<noteq> None")
      case True
      then have "ps_Replay ?st1 = r'" using replay by simp
      with Cons.IH [of ?st1] keep have ih: "length (held_forwards E K C now g req ms ?st1)
          \<le> (if mem_replay.spent K r' p now then 0 else 1)" by simp
      show ?thesis
      proof (cases "e = None")
        case True
        with cp' mem_replay.check_pop_once [OF Cons.prems] assms(3)
        have "\<not> mem_replay.spent K (ps_Replay st) p now \<and> mem_replay.spent K r' p now" by metis
        with ih Some show ?thesis by (auto simp: Let_def)
      next
        case False
        with ih keep Some passes True show ?thesis by (auto simp: Let_def split: if_splits)
      qed
    next
      case False
      then have "ps_Replay ?st1 = ps_Replay st" using replay by auto
      with False Cons.IH [of ?st1] Cons.prems Some passes d show ?thesis by (auto simp: Let_def)
    qed
  qed
qed simp

text \<open>
  A proof of possession covers one message, not a request: of all the messages of a batch on a token bound
  to a holder's key, at most one goes upstream, since the check of the second finds the nonce of the first.
\<close>

theorem gateway_batch_replay:
  assumes "gw_Replay g = mem_seen" and "wf_map (ps_Replay st)"
    and "\<forall>c. proof_claims K (hr_Header req ''X-Warrant-PoP'') = Some c \<longrightarrow> in_int64 (pc_Expires c + unix_epoch)"
  shows "length (held_forwards E K C now g req ms st) \<le> 1"
  using held_forwards_once [OF assms(1) refl _ assms(2), where req = req and K = K and E = E and C = C and now = now and ms = ms] assms(3)
  by (simp add: credentials_of_def split: if_splits)

text \<open>A gateway without a prefix, whose calls all name one resource, and a codec that reads one message.\<close>

definition ex_gateway :: "(memory, time gomap) gateway" where
  "ex_gateway = (new_gateway ex_broker MCP)\<lparr>gw_ToolPrefix := [], gw_ResourceOf := Some (\<lambda>_ _. ''r/1''), gw_Audience := ''warrant-pep''\<rparr>"

definition ex_message :: rpc_msg where
  "ex_message = \<lparr>rm_JSONRPC = ''2.0'', rm_ID = Some ''1'', rm_Method = ''tools/call'', rm_Params = Some ''p''\<rparr>"

definition ex_gw_codec :: "(string \<times> json) list \<Rightarrow> gw_codec" where
  "ex_gw_codec kvs =
     \<lparr>gc_batch = (\<lambda>_. None), gc_single = (\<lambda>_. Some ex_message), gc_error = (\<lambda>_. []), gc_encode = (\<lambda>m. rm_Method m),
      gc_doc = (\<lambda>_. Some (JObj kvs)), gc_params = (\<lambda>_. Some []), gc_replies = (\<lambda>_. None), gc_reply = (\<lambda>_. None),
      gc_pop_text = (\<lambda>_. []), gc_whole = (\<lambda>_. None), gc_list = (\<lambda>_. None), gc_encode_list = (\<lambda>_. []),
      gc_encode_whole = (\<lambda>_. [])\<rparr>"

lemma ex_gateway_call:
  "gw_Svc ex_gateway = ex_broker" "gw_Protocol ex_gateway = MCP" "gw_Replay ex_gateway = mem_seen"
  "message_call (ex_gw_codec kvs) ex_gateway ex_message n = \<lparr>cl_Tool = n, cl_Resource = ''r/1'', cl_Args = []\<rparr>"
  by (simp_all add: ex_gateway_def new_gateway_def message_call_def ex_gw_codec_def resource_of_def args_def ex_message_def)

theorem gateway_batch_replay_witness:
  "message_passes ex_held_env ex_held_codec (ex_gw_codec [(''name'', JStr ''fs.read'')]) 0 ex_gateway (ex_http ex_held_proof)
       ex_pep_state ex_message
   \<and> length (held_forwards ex_held_env ex_held_codec (ex_gw_codec [(''name'', JStr ''fs.read'')]) 0 ex_gateway
       (ex_http ex_held_proof) [ex_message, ex_message] ex_pep_state) \<le> 1"
proof (intro conjI)
  have "the (jwt_sign ex_held_env ex_signer ex_held) \<noteq> []" by code_simp
  then have "gw_request (ex_gw_codec [(''name'', JStr ''fs.read'')]) ex_gateway (ex_http ex_held_proof) ex_message ''fs.read''
      = pep_request (ex_http ex_held_proof) ex_held_attempt"
    using trim_prefix_append [of "''Bearer ''"]
    by (simp add: gw_request_def pep_request_def credentials_of_def ex_gateway_call bearer_token_def ex_http_def Let_def)
  moreover have "fst (gw_check_pop ex_held_env ex_held_codec 0 ex_gateway (ex_http ex_held_proof)
      (credentials_of (ex_http ex_held_proof)) ex_held new_replay) = None" by code_simp
  moreover have "classify (ex_gw_codec [(''name'', JStr ''fs.read'')]) ex_gateway ex_message = Some ''fs.read''" by code_simp
  ultimately show "message_passes ex_held_env ex_held_codec (ex_gw_codec [(''name'', JStr ''fs.read'')]) 0 ex_gateway (ex_http ex_held_proof)
       ex_pep_state ex_message"
    using ex_held_decision [of ex_held_proof]
    by (simp add: message_passes_def ex_gateway_call ex_pep_state_def Let_def)
next
  have "proof_claims ex_held_codec ex_held_proof = Some ex_held_proof_claims"
    "in_int64 (pc_Expires ex_held_proof_claims + unix_epoch)" by code_simp+
  moreover have "hr_Header (ex_http ex_held_proof) ''X-Warrant-PoP'' = ex_held_proof" by (simp add: ex_http_def)
  ultimately show "length (held_forwards ex_held_env ex_held_codec (ex_gw_codec [(''name'', JStr ''fs.read'')]) 0 ex_gateway
       (ex_http ex_held_proof) [ex_message, ex_message] ex_pep_state) \<le> 1"
    by (intro gateway_batch_replay) (simp_all add: ex_gateway_call ex_pep_state_def new_replay_def wf_map_def)
qed

text \<open>
  What is authorized need not be what is called: parameters with the keys \<^verbatim>\<open>name\<close> and \<^verbatim>\<open>NAME\<close> are
  authorized for the tool under the second, since struct fields match keys regardless of case and the last
  one wins, and the message goes upstream as it came, with the key \<^verbatim>\<open>name\<close> naming any tool at all.
\<close>

theorem gateway_key_confusion:
  assumes "gw_Protocol g = MCP" and "gw_messages C g req = Some (False, [m])"
    and "rm_Method m = ''tools/call''" and "rm_Params m = Some p"
    and "gc_doc C p = Some (JObj [(''name'', JStr x), (''NAME'', JStr y)])" and "y \<noteq> []"
    and "fst (authorize E now (gw_Svc g) (gw_request C g req m y) (ps_World st)) = d" and "dc_Allow d"
    and "cm_Cnf (dc_Claims d) = None"
  shows "cl_Tool (au_Call (gw_request C g req m y)) = gw_ToolPrefix g @ y
     \<and> snd (fst (serve_gateway E K C up now g req st)) = Some (gc_encode C m)"
proof -
  have "fold_name ''name'' = ''name''" "fold_name ''NAME'' = ''name''" by code_simp+
  then have "classify C g m = Some y"
    using assms(1,3-5) by (simp add: classify_def doc_entries_def struct_str_def)
  with assms(6-9) have "gated_name C g m = Some y" "message_passes E K C now g req st m"
    by (simp_all add: gated_name_def message_passes_def split: list.split)
  moreover from this(2) have "fst (gate_message E K C now g req m st) = Forward" by (simp add: gate_message_forward)
  then have "gw_payload C False (fst (gate_messages E K C now g req [m] st)) = Some (gc_encode C m)"
    by (cases "gate_message E K C now g req m st") (simp add: gw_payload_def)
  moreover have "snd (fst (serve_gateway E K C up now g req st)) = gw_payload C False (fst (gate_messages E K C now g req [m] st))"
    using serve_gateway_cases [of E K C up now g req st] assms(2) by (simp add: serve_messages_def Let_def split: prod.split)
  ultimately show ?thesis by (simp add: gw_request_def message_call_def Let_def)
qed

definition ex_confused :: http_request where
  "ex_confused = \<lparr>hr_Method = ''POST'', hr_Path = ''/'',
     hr_Header = (\<lambda>h. if h = ''Authorization'' then ''Bearer '' @ ex_token ex_kid_claims
       else if h = ''X-Warrant-SVID'' then ex_token ex_svid_b else []), hr_Body = ''x''\<rparr>"

theorem gateway_key_confusion_witness:
  "snd (fst (serve_gateway ex_env ex_held_codec (ex_gw_codec [(''name'', JStr ''fs.delete''), (''NAME'', JStr ''fs.read'')]) (\<lambda>_. Inl []) second
      ex_gateway ex_confused \<lparr>ps_World = ex_world2, ps_Replay = new_replay\<rparr>)) = Some ''tools/call''"
proof -
  let ?C = "ex_gw_codec [(''name'', JStr ''fs.delete''), (''NAME'', JStr ''fs.read'')]"
  have "gw_request ?C ex_gateway ex_confused ex_message ''fs.read'' = ex_authorize"
    by (simp add: gw_request_def credentials_of_def ex_gateway_call bearer_token_def ex_confused_def ex_authorize_def ex_call_read_def
        ex_token_not_Nil Let_def)
  moreover have "gw_messages ?C ex_gateway ex_confused = Some (False, [ex_message])" by code_simp
  moreover have "cm_Cnf ex_kid_claims = None" by code_simp
  ultimately show ?thesis
    using ex_decision(1) gateway_key_confusion [of ex_gateway ?C ex_confused ex_message "''p''" "''fs.delete''" "''fs.read''" ex_env second
        "\<lparr>ps_World = ex_world2, ps_Replay = new_replay\<rparr>" _ ex_held_codec "\<lambda>_. Inl []"]
    by (simp add: ex_gateway_call) (simp add: ex_message_def ex_gw_codec_def)
qed

end
