(* ===== verification/Warrant_System.thy ===== *)
theory Warrant_System
  imports Gateway_Properties Store_Postgres
begin

section \<open>The parts together\<close>

text \<open>
  One broker serves its HTTP interface, a PEP and a gateway; each enforcement point keeps a replay store
  of its own. A run is a sequence of requests to the three, each at a time of its own and served as a whole.
  Every request becomes a list of operations of the broker, so what holds of runs of the broker holds
  of the system.
\<close>

datatype incoming = ToApi api_request | ToPep time http_request | ToGateway time http_request

record ('s, 'r) system =
  sy_Admin :: string
  sy_Pep :: "('s, 'r) pep"
  sy_Gateway :: "('s, 'r) gateway"
  sy_Decode :: "string \<Rightarrow> (string \<times> any gomap) option"
  sy_Tool :: "forwarded \<Rightarrow> upstream_result"
  sy_Server :: "string \<Rightarrow> string + int \<times> string"

record ('s, 'r) system_state =
  ss_World :: "'s world"
  ss_PepReplay :: 'r
  ss_GatewayReplay :: 'r

text \<open>The calls a request got through: an allowing answer of \<^verbatim>\<open>/v1/authorize\<close>, or a call that went upstream.\<close>

definition api_log :: "api_request \<Rightarrow> api_body \<Rightarrow> call_log" where
  "api_log q body =
     (case (ai_Route q, body) of (PostAuthorize (Some r), BodyDecision d) \<Rightarrow> if dc_Allow d then [(r, d)] else [] | _ \<Rightarrow> [])"

definition pep_ops :: "(string \<Rightarrow> (string \<times> any gomap) option) \<Rightarrow> time \<Rightarrow> ('s, 'r) pep \<Rightarrow> http_request \<Rightarrow> (time \<times> broker_op) list" where
  "pep_ops decode now g req =
     (case pep_call decode g req of None \<Rightarrow> [] | Some (a, url) \<Rightarrow> [(now, OpAuthorize (pep_request req a))])"

lemma pep_ops_ids [simp]: "op_ids (pep_ops decode now g req) = []"
  by (auto simp: pep_ops_def split: option.split)

definition pep_log ::
    "'z broker_env_scheme \<Rightarrow> pop_codec \<Rightarrow> (string \<Rightarrow> (string \<times> any gomap) option) \<Rightarrow> (forwarded \<Rightarrow> upstream_result) \<Rightarrow>
       time \<Rightarrow> ('s, 'r) pep \<Rightarrow> http_request \<Rightarrow> ('s, 'r) pep_state \<Rightarrow> call_log" where
  "pep_log E K decode up now g req st =
     (case pep_call decode g req of
        None \<Rightarrow> []
      | Some (a, url) \<Rightarrow>
          if snd (fst (serve_pep E K decode up now g req st)) = None then []
          else [(pep_request req a, fst (authorize E now (pe_Svc g) (pep_request req a) (ps_World st)))])"

definition system_step ::
    "nat \<Rightarrow> 'z broker_env_scheme \<Rightarrow> pop_codec \<Rightarrow> gw_codec \<Rightarrow> ('s, 'r) system \<Rightarrow> incoming \<Rightarrow> ('s, 'r) system_state
       \<Rightarrow> (call_log \<times> ('s, 'r) system_state) option" where
  "system_step fuel E K C Y x st =
     (case x of
        ToApi q \<Rightarrow>
          map_option (\<lambda>((code, body), w). (api_log q body, st\<lparr>ss_World := w\<rparr>))
            (handle_request fuel E (pe_Svc (sy_Pep Y)) (sy_Admin Y) q (ss_World st))
      | ToPep now req \<Rightarrow>
          let s0 = \<lparr>ps_World = ss_World st, ps_Replay = ss_PepReplay st\<rparr>;
              s1 = snd (serve_pep E K (sy_Decode Y) (sy_Tool Y) now (sy_Pep Y) req s0)
          in Some (pep_log E K (sy_Decode Y) (sy_Tool Y) now (sy_Pep Y) req s0,
               st\<lparr>ss_World := ps_World s1, ss_PepReplay := ps_Replay s1\<rparr>)
      | ToGateway now req \<Rightarrow>
          let s0 = \<lparr>ps_World = ss_World st, ps_Replay = ss_GatewayReplay st\<rparr>;
              s1 = snd (serve_gateway E K C (sy_Server Y) now (sy_Gateway Y) req s0)
          in Some (gateway_log E K C now (sy_Gateway Y) req s0,
               st\<lparr>ss_World := ps_World s1, ss_GatewayReplay := ps_Replay s1\<rparr>))"

fun system_run ::
    "nat \<Rightarrow> 'z broker_env_scheme \<Rightarrow> pop_codec \<Rightarrow> gw_codec \<Rightarrow> ('s, 'r) system \<Rightarrow> incoming list \<Rightarrow> ('s, 'r) system_state
       \<Rightarrow> (call_log \<times> ('s, 'r) system_state) option" where
  "system_run fuel E K C Y [] st = Some ([], st)"
| "system_run fuel E K C Y (x # xs) st =
     (case system_step fuel E K C Y x st of
        None \<Rightarrow> None
      | Some (l, st1) \<Rightarrow> map_option (apfst ((@) l)) (system_run fuel E K C Y xs st1))"

definition system_ops :: "gw_codec \<Rightarrow> ('s, 'r) system \<Rightarrow> incoming \<Rightarrow> (time \<times> broker_op) list" where
  "system_ops C Y x =
     (case x of
        ToApi q \<Rightarrow> api_ops (sy_Admin Y) q
      | ToPep now req \<Rightarrow> pep_ops (sy_Decode Y) now (sy_Pep Y) req
      | ToGateway now req \<Rightarrow> gateway_ops C now (sy_Gateway Y) req)"

subsection \<open>A run of the system is a run of the broker\<close>

lemma api_log_answered: "count_log (call_under a) (api_log q body) \<le> (if answered body a then 1 else 0)"
  by (auto simp: api_log_def answered_def call_under_def split: api_route.splits api_body.splits option.splits)

lemma pep_ops_log:
  assumes "serve_pep E K decode up now g req st = (out, st1)"
  shows "\<exists>l. broker_run E (pe_Svc g) (pep_ops decode now g req) ([], ps_World st) = (l, ps_World st1)
     \<and> count_log (call_under a) (pep_log E K decode up now g req st) \<le> count_log (call_under a) l"
proof (cases "pep_call decode g req")
  case None
  with assms serve_pep_none [OF None, of E K up now st] show ?thesis by (auto simp: pep_ops_def pep_log_def)
next
  case (Some au)
  obtain b url where au: "pep_call decode g req = Some (b, url)" using Some by (cases au) simp
  obtain d w' where d: "authorize E now (pe_Svc g) (pep_request req b) (ps_World st) = (d, w')" by fastforce
  have "ps_World st1 = w'"
    using assms serve_pep_some [OF au d, of K up] by (auto split: if_splits option.splits prod.splits)
  then show ?thesis using d au by (simp add: pep_ops_def pep_log_def broker_step_def)
qed

lemma system_step_ops:
  assumes "gw_Svc (sy_Gateway Y) = pe_Svc (sy_Pep Y)" and "system_step fuel E K C Y x st = Some (lg, st1)"
  shows "\<exists>l. broker_run E (pe_Svc (sy_Pep Y)) (system_ops C Y x) ([], ss_World st) = (l, ss_World st1)
     \<and> count_log (call_under a) lg \<le> count_log (call_under a) l"
proof (cases x)
  case (ToApi q)
  with assms(2) obtain code body where h: "handle_request fuel E (pe_Svc (sy_Pep Y)) (sy_Admin Y) q (ss_World st)
      = Some ((code, body), ss_World st1)" "lg = api_log q body"
    by (auto simp: system_step_def)
  from handle_ops [OF h(1), of a] h(2) api_log_answered [of a q body] show ?thesis
    by (auto simp: system_ops_def ToApi)
next
  case (ToPep now req)
  obtain out s1 where sp: "serve_pep E K (sy_Decode Y) (sy_Tool Y) now (sy_Pep Y) req
      \<lparr>ps_World = ss_World st, ps_Replay = ss_PepReplay st\<rparr> = (out, s1)" by fastforce
  from pep_ops_log [OF sp, of a] assms(2) sp show ?thesis
    by (auto simp: system_step_def system_ops_def ToPep)
next
  case (ToGateway now req)
  obtain out s1 where sg: "serve_gateway E K C (sy_Server Y) now (sy_Gateway Y) req
      \<lparr>ps_World = ss_World st, ps_Replay = ss_GatewayReplay st\<rparr> = (out, s1)" by fastforce
  from gateway_request_ops [OF sg, of a] assms sg show ?thesis
    by (auto simp: system_step_def system_ops_def ToGateway)
qed

lemma system_run_ops:
  assumes "gw_Svc (sy_Gateway Y) = pe_Svc (sy_Pep Y)"
  shows "system_run fuel E K C Y xs st = Some (lg, st') \<Longrightarrow>
     \<exists>l. broker_run E (pe_Svc (sy_Pep Y)) (concat (map (system_ops C Y) xs)) ([], ss_World st) = (l, ss_World st')
       \<and> count_log (call_under a) lg \<le> count_log (call_under a) l"
proof (induction xs arbitrary: st lg)
  case (Cons x xs)
  obtain l1 st1 rest where st: "system_step fuel E K C Y x st = Some (l1, st1)"
      "system_run fuel E K C Y xs st1 = Some (rest, st')" "lg = l1 @ rest"
    using Cons.prems by (auto split: option.splits)
  obtain l where l: "broker_run E (pe_Svc (sy_Pep Y)) (system_ops C Y x) ([], ss_World st) = (l, ss_World st1)"
      "count_log (call_under a) l1 \<le> count_log (call_under a) l"
    using system_step_ops [OF assms st(1)] by blast
  obtain l' where l': "broker_run E (pe_Svc (sy_Pep Y)) (concat (map (system_ops C Y) xs)) ([], ss_World st1) = (l', ss_World st')"
      "count_log (call_under a) rest \<le> count_log (call_under a) l'"
    using Cons.IH [OF st(2)] by blast
  have "broker_run E (pe_Svc (sy_Pep Y)) (concat (map (system_ops C Y) (x # xs))) ([], ss_World st) = (l @ l', ss_World st')"
    using broker_run_log [of E _ _ l "ss_World st1"] l(1) l'(1) by (simp add: broker_run_append)
  with l(2) l'(2) st(3) show ?case by (intro exI [of _ "l @ l'"]) simp
qed simp

subsection \<open>Properties\<close>

text \<open>From an empty store, whichever it is, the calls of a run of the broker stay within the budget.\<close>

context token_store
begin

lemma run_within_budget:
  assumes "accounted [] s" and "marked [] s" and "\<And>i. sv_token V s i = None" and "\<not> sv_revoked V s []"
    and "br_Ops B = S" and "fresh_ids ps" and "broker_run E B ps ([], \<lparr>wd_Store = s, wd_Ledger = l\<rparr>) = (lg, w)"
    and "so_GetToken S a (wd_Store w) = Inr t"
  shows "count_log (call_under a) lg \<le> max 0 (tr_MaxCalls t)"
proof -
  have "tracked E B [] [] \<lparr>wd_Store = s, wd_Ledger = l\<rparr>"
    using assms(1-4) by (simp add: tracked_def sound_def explains_def charged_def)
  then obtain es where es: "tracked E B (es @ []) lg w"
    using broker_run_tracked [OF _ assms(5,6) _ assms(7)] assms(3) by fastforce
  then have "sv_token V (wd_Store w) a = Some t"
    using assms(8) get_token [OF tracked_inv [OF es], of a] by (auto split: option.splits)
  with es show ?thesis by (rule broker_run_bounds)
qed

end

text \<open>
  \<^bold>\<open>C2.\<close> The budget of a token covers every door: when the broker's interface, a PEP and a gateway serve one
  Postgres store, whatever requests arrive, the calls they let through on a token or on any delegate of it,
  all three together, are at most its \<^verbatim>\<open>max_calls\<close>.
\<close>

theorem system_budget:
  assumes "br_Ops (pe_Svc (sy_Pep Y)) = postgres_ops J" and "gw_Svc (sy_Gateway Y) = pe_Svc (sy_Pep Y)"
    and "fresh_ids (concat (map (system_ops C Y) xs))"
    and "ss_World st = \<lparr>wd_Store = new_postgres t0, wd_Ledger = l\<rparr>"
    and "system_run fuel E K C Y xs st = Some (lg, st')"
    and "pg_get_token a (wd_Store (ss_World st')) = Inr t"
  shows "count_log (call_under a) lg \<le> max 0 (tr_MaxCalls t)"
proof -
  obtain l2 where l2: "broker_run E (pe_Svc (sy_Pep Y)) (concat (map (system_ops C Y) xs)) ([], ss_World st) = (l2, ss_World st')"
      "count_log (call_under a) lg \<le> count_log (call_under a) l2"
    using system_run_ops [OF assms(2,5)] by blast
  have "count_log (call_under a) l2 \<le> max 0 (tr_MaxCalls t)"
    using token_store.run_within_budget [OF pg.token_store_axioms new_postgres_accounted new_postgres_marked _ _ assms(1,3)
        l2(1) [unfolded assms(4)]] assms(6)
    by (simp add: new_postgres_view postgres_ops_def)
  with l2(2) show ?thesis by simp
qed

text \<open>A root token minted over the broker's interface, then a call with it through the PEP.\<close>

definition ex_pg_broker :: "postgres broker" where
  "ex_pg_broker = new_broker (br_Cfg ex_broker) (postgres_ops Some) ex_signer (Some ex_permit_all)"

definition ex_pg_store :: postgres where
  "ex_pg_store = snd (pg_put_token Some (ex_record_of ex_root_claims) (new_postgres 0))"

definition ex_door :: http_request where
  "ex_door = \<lparr>hr_Method = ''POST'', hr_Path = ''/call/fs.read'',
     hr_Header = (\<lambda>h. if h = ''Authorization'' then ''Bearer '' @ ex_token ex_root_claims
       else if h = ''X-Warrant-SVID'' then ex_token ex_svid_a else []),
     hr_Body = ''r/1''\<rparr>"

definition ex_system :: "(postgres, time gomap) system" where
  "ex_system = \<lparr>sy_Admin = ''adm'', sy_Pep = new_pep ex_pg_broker [\<lparr>rt_Tool = ''*'', rt_Upstream = ''http://any''\<rparr>],
     sy_Gateway = new_gateway ex_pg_broker MCP, sy_Decode = ex_decode, sy_Tool = ex_up, sy_Server = (\<lambda>_. Inl [])\<rparr>"

definition ex_incoming :: "incoming list" where
  "ex_incoming =
     [ToApi \<lparr>ai_Now = 0, ai_Fresh1 = ''r1'', ai_Fresh2 = [], ai_Auth = ''Bearer adm'', ai_Route = PostTokens (Some ex_mint)\<rparr>,
      ToPep second ex_door]"

definition ex_system_state :: "(postgres, time gomap) system_state" where
  "ex_system_state = \<lparr>ss_World = \<lparr>wd_Store = new_postgres 0, wd_Ledger = []\<rparr>, ss_PepReplay = new_replay,
     ss_GatewayReplay = new_replay\<rparr>"

lemma ex_pg_broker_fields [simp]:
  "br_Signer ex_pg_broker = ex_signer" "br_Ops ex_pg_broker = postgres_ops Some" "br_Policy ex_pg_broker = br_Policy ex_broker"
  "br_Cfg ex_pg_broker = br_Cfg ex_broker"
  by (simp_all add: ex_pg_broker_def ex_broker_def new_broker_def fill_defaults_def Let_def)

lemma ex_pg_minted:
  "wd_Store (snd (mint_root ex_env 0 ex_pg_broker ''r1'' ex_mint \<lparr>wd_Store = new_postgres 0, wd_Ledger = l\<rparr>)) = ex_pg_store"
proof -
  have "mint_depth ex_broker ex_mint0 = 2" "mint_limit ex_mint0 = 3" by code_simp+
  then have d: "mint_depth ex_pg_broker ex_mint = 2" "mint_limit ex_mint = 3"
    by (simp_all add: ex_mint_def mint_depth_def split: if_splits)
  have ttl: "token_ttl ex_pg_broker now q cap = token_ttl ex_broker now q cap" for now q cap
    by (simp add: token_ttl_def Let_def split: if_splits)
  have c: "mint_claims ex_pg_broker 0 ''r1'' ex_mint ex_svid_a 2 3 = ex_root_claims"
    by (simp add: ex_root_claims_def mint_claims_def ex_mint_def issuer_def ttl)
  have g: "mint_guards ex_env 0 ex_pg_broker ex_mint ex_svid_a"
  proof -
    have "mint_depth ex_pg_broker r = mint_depth ex_broker r" for r by (simp add: mint_depth_def split: if_splits)
    moreover have "mint_decisions ex_pg_broker = mint_decisions ex_broker" by (simp add: mint_decisions_def fun_eq_iff)
    moreover have "verify_kind ex_env ex_pg_broker = verify_kind ex_env ex_broker" by (simp add: verify_kind_def fun_eq_iff)
    ultimately show ?thesis using ex_mint_guards(1) by (simp add: mint_guards_def)
  qed
  have "fst (pg_put_token Some (ex_record_of ex_root_claims) (new_postgres 0)) = None" by code_simp
  then have "pg_put_token Some (ex_record_of ex_root_claims) (new_postgres 0) = (None, ex_pg_store)"
    by (simp add: ex_pg_store_def prod_eq_iff)
  then have "persist ex_env ex_pg_broker ex_root_claims \<lparr>wd_Store = new_postgres 0, wd_Ledger = l\<rparr>
      = (Inr \<lparr>is_Token = ex_token ex_root_claims, is_Claims = ex_root_claims\<rparr>, \<lparr>wd_Store = ex_pg_store, wd_Ledger = l\<rparr>)"
    by (simp add: persist_def ex_token_sign postgres_ops_def ex_record_of_def Let_def)
  then show ?thesis by (simp add: mint_root_guarded [OF g] d c Let_def)
qed

lemma ex_pg_decision:
  "case authorize_core ex_env second ex_pg_broker (pep_request ex_door ex_call_read) ex_pg_store of
     (d, s) \<Rightarrow> dc_Allow d \<and> lineage (dc_Claims d) = [''r1''] \<and> cm_Cnf (dc_Claims d) = None
       \<and> pg_get_token ''r1'' s = Inr (scan_tok (hd (pg_tokens ex_pg_store)))"
  by code_simp

lemma ex_system_runs:
  "\<exists>lg st. system_run 1 ex_env K C ex_system ex_incoming ex_system_state = Some (lg, st)
     \<and> count_log (call_under ''r1'') lg = 1
     \<and> pg_get_token ''r1'' (wd_Store (ss_World st)) = Inr (scan_tok (hd (pg_tokens ex_pg_store)))"
proof -
  define w1 where "w1 = snd (mint_root ex_env 0 ex_pg_broker ''r1'' ex_mint \<lparr>wd_Store = new_postgres 0, wd_Ledger = []\<rparr>)"
  have w1: "wd_Store w1 = ex_pg_store" unfolding w1_def by (rule ex_pg_minted)
  obtain d w2 where d: "authorize ex_env second ex_pg_broker (pep_request ex_door ex_call_read) w1 = (d, w2)" by fastforce
  obtain d' s' where core: "authorize_core ex_env second ex_pg_broker (pep_request ex_door ex_call_read) ex_pg_store = (d', s')"
    by fastforce
  have "d = d'" "wd_Store w2 = s'"
    using authorize_core_fst [of ex_env second ex_pg_broker "pep_request ex_door ex_call_read" w1] d core w1 by simp_all
  then have dec: "dc_Allow d" "lineage (dc_Claims d) = [''r1'']" "cm_Cnf (dc_Claims d) = None"
      "pg_get_token ''r1'' (wd_Store w2) = Inr (scan_tok (hd (pg_tokens ex_pg_store)))"
    using ex_pg_decision core by simp_all
  have call: "pep_call ex_decode (sy_Pep ex_system) ex_door = Some (ex_call_read, ''http://any'')" by code_simp
  have svc: "pe_Svc (sy_Pep ex_system) = ex_pg_broker" by (simp add: ex_system_def new_pep_def)
  have fields: "sy_Decode ex_system = ex_decode" "sy_Tool ex_system = ex_up" "sy_Admin ex_system = ''adm''"
    by (simp_all add: ex_system_def)
  have api: "system_step 1 ex_env K C ex_system (hd ex_incoming) ex_system_state = Some ([], ex_system_state\<lparr>ss_World := w1\<rparr>)"
    by (auto simp: system_step_def ex_incoming_def handle_request_def handle_def decoded_def admin_only_def is_admin_iff
        fields svc ex_system_state_def w1_def api_log_def api_error_def split: prod.split sum.split)
  let ?s0 = "\<lparr>ps_World = w1, ps_Replay = new_replay\<rparr>"
  have served: "serve_pep ex_env K ex_decode ex_up second (sy_Pep ex_system) ex_door ?s0
     = ((fst (forward_call ex_up ''http://any'' ex_call_read d), Some (snd (forward_call ex_up ''http://any'' ex_call_read d))),
        ?s0\<lparr>ps_World := w2\<rparr>)"
    using serve_pep_some [OF call, unfolded svc, where st = ?s0 and E = ex_env and now = second and d = d and w' = w2] d dec
    by (simp add: pop_step_def)
  have "system_run 1 ex_env K C ex_system ex_incoming ex_system_state
     = Some ([(pep_request ex_door ex_call_read, d)], ex_system_state\<lparr>ss_World := w2\<rparr>)"
    using api served d
    by (simp add: ex_incoming_def system_step_def [of _ _ _ _ _ "ToPep _ _"] fields pep_log_def call svc ex_system_state_def Let_def)
  moreover have "count_log (call_under ''r1'') [(pep_request ex_door ex_call_read, d)] = 1"
    using dec by (simp add: call_under_def)
  ultimately show ?thesis using dec(4) by fastforce
qed

theorem system_budget_witness:
  "\<exists>lg st. system_run 1 ex_env ex_held_codec (ex_gw_codec []) ex_system ex_incoming ex_system_state = Some (lg, st)
     \<and> count_log (call_under ''r1'') lg = 1 \<and> count_log (call_under ''r1'') lg \<le> max 0 3"
proof -
  obtain lg st where run: "system_run 1 ex_env ex_held_codec (ex_gw_codec []) ex_system ex_incoming ex_system_state = Some (lg, st)"
      "count_log (call_under ''r1'') lg = 1"
      "pg_get_token ''r1'' (wd_Store (ss_World st)) = Inr (scan_tok (hd (pg_tokens ex_pg_store)))"
    using ex_system_runs by blast
  have "tr_MaxCalls (scan_tok (hd (pg_tokens ex_pg_store))) = 3" by code_simp
  moreover have "fresh_ids (concat (map (system_ops (ex_gw_codec []) ex_system) ex_incoming))"
    by (simp add: ex_incoming_def system_ops_def api_ops_def ex_system_def is_admin_iff fresh_ids_def
        op_ids_Cons [of _ "pep_ops _ _ _ _"])
  moreover have "br_Ops (pe_Svc (sy_Pep ex_system)) = postgres_ops Some"
    "gw_Svc (sy_Gateway ex_system) = pe_Svc (sy_Pep ex_system)"
    by (simp_all add: ex_system_def new_pep_def new_gateway_def)
  ultimately have "count_log (call_under ''r1'') lg \<le> max 0 3"
    using system_budget [of ex_system Some "ex_gw_codec []" ex_incoming ex_system_state 0 "[]" 1 ex_env ex_held_codec lg st, OF _ _ _ _ run(1,3)]
    by (simp add: ex_system_state_def)
  with run show ?thesis by blast
qed

end
