(* ===== verification/Ledger_Spool.thy ===== *)
theory Ledger_Spool
  imports Broker
begin

section \<open>The ledger client and its spool (\<^verbatim>\<open>internal/ledger\<close>)\<close>

text \<open>
  The recorders of \<^verbatim>\<open>ledger.go\<close>, the interface they share as the locale \<open>recorder\<close>, and the file
  spool of \<^verbatim>\<open>spool.go\<close> on the bytes of its file. A recorder is an operation on the state of its
  upstream that answers an error or none. What the file system does is part of each operation's
  input (\<open>fs_outcome\<close>): how much of a write reached the file, and whether the rewriting of the file,
  its reopening and the other calls succeeded. The methods of the spool hold its mutex, so an
  operation is one step; the JSON codec of a line is the record \<open>spool_codec\<close>.
\<close>

subsection \<open>Recorders\<close>

datatype record_err = NotHuman | TransportFailed | StatusRefused int | SpoolFailed

type_synonym 'u recorder_op = "ledger_record \<Rightarrow> 'u \<Rightarrow> record_err option \<times> 'u"

definition noop_record :: "'u recorder_op" where
  "noop_record r u = (None, u)"

record ledger_client =
  lc_URL :: string
  lc_Token :: string

text \<open>
  \<^verbatim>\<open>Client.Record\<close>; \<open>post\<close> is the server's answer to a URL, a token and a record: a status, or
  \<^const>\<open>None\<close> when the transport fails.
\<close>

definition client_record ::
    "(string \<Rightarrow> string \<Rightarrow> ledger_record \<Rightarrow> 'u \<Rightarrow> int option \<times> 'u) \<Rightarrow> ledger_client \<Rightarrow> 'u recorder_op" where
  "client_record post c r u =
     (if lg_ActorChain r = [] \<or> la_Kind (hd (lg_ActorChain r)) \<noteq> ''human'' then (Some NotHuman, u)
      else
        (case post (lc_URL c @ ''/v1/records'') (lc_Token c) r u of
           (None, u') \<Rightarrow> (Some TransportFailed, u')
         | (Some status, u') \<Rightarrow> (if status \<noteq> 201 then Some (StatusRefused status) else None, u')))"

text \<open>\<^verbatim>\<open>Memory\<close>, which keeps what it gets.\<close>

definition memory_record :: "ledger_record list recorder_op" where
  "memory_record r rs = (None, rs @ [r])"

definition memory_types :: "ledger_record list \<Rightarrow> string list" where
  "memory_types rs = map lg_Type rs"

text \<open>What the environment selects: no recorder, or a client, with the directory of its spool.\<close>

definition from_env :: "(string \<Rightarrow> string) \<Rightarrow> ledger_client option" where
  "from_env env =
     (if env ''LEDGER_URL'' = [] then None else Some \<lparr>lc_URL = env ''LEDGER_URL'', lc_Token = env ''LEDGER_TOKEN''\<rparr>)"

definition from_env_spooling :: "(string \<Rightarrow> string) \<Rightarrow> string \<Rightarrow> (ledger_client \<times> string) option" where
  "from_env_spooling env dir =
     (if env ''LEDGER_URL'' = [] then None
      else
        let dir1 = (if dir = [] then env ''LEDGER_SPOOL_DIR'' else dir);
            dir2 = (if dir1 = [] then ''./data/ledger-spool'' else dir1)
        in Some (\<lparr>lc_URL = env ''LEDGER_URL'', lc_Token = env ''LEDGER_TOKEN''\<rparr>, dir2))"

subsection \<open>The spool\<close>

record spool_codec =
  sk_marshal :: "ledger_record \<Rightarrow> string option"
  sk_unmarshal :: "string \<Rightarrow> ledger_record option"

text \<open>
  The outcomes of the calls of the file system within one operation: \<open>fs_Written\<close> is how many bytes of
  a write reached the file before it failed, \<^const>\<open>None\<close> when it did not; \<open>fs_Rewrite\<close> says whether the
  temporary file was created, written, synced and renamed.
\<close>

record fs_outcome =
  fs_Written :: "nat option"
  fs_Sync :: bool
  fs_Seek :: bool
  fs_Rewrite :: bool
  fs_Reopen :: bool

definition fs_fine :: fs_outcome where
  "fs_fine = \<lparr>fs_Written = None, fs_Sync = True, fs_Seek = True, fs_Rewrite = True, fs_Reopen = True\<rparr>"

record 'u spool =
  sp_Upstream :: 'u
  sp_File :: string
  sp_Open :: bool

text \<open>\<^verbatim>\<open>NewSpoolingClient\<close> on a directory whose spool file holds \<open>file\<close>; \<open>ok\<close> when it could be opened.\<close>

definition new_spool :: "bool \<Rightarrow> 'u \<Rightarrow> string \<Rightarrow> 'u spool option" where
  "new_spool ok up file = (if ok then Some \<lparr>sp_Upstream = up, sp_File = file, sp_Open = True\<rparr> else None)"

definition newline :: char where
  "newline = CHR 0x0A"

definition backlog :: "'u spool \<Rightarrow> bool" where
  "backlog sc \<longleftrightarrow> sp_Open sc \<and> sp_File sc \<noteq> []"

definition spool_append :: "spool_codec \<Rightarrow> fs_outcome \<Rightarrow> ledger_record \<Rightarrow> 'u spool \<Rightarrow> record_err option \<times> 'u spool" where
  "spool_append K fs r sc =
     (case sk_marshal K r of
        None \<Rightarrow> (Some SpoolFailed, sc)
      | Some b \<Rightarrow>
          if \<not> sp_Open sc then (Some SpoolFailed, sc)
          else
            (case fs_Written fs of
               Some n \<Rightarrow> (Some SpoolFailed, sc\<lparr>sp_File := sp_File sc @ take n (b @ [newline])\<rparr>)
             | None \<Rightarrow>
                 (if fs_Sync fs then None else Some SpoolFailed, sc\<lparr>sp_File := sp_File sc @ b @ [newline]\<rparr>)))"

definition spool_record ::
    "'u recorder_op \<Rightarrow> spool_codec \<Rightarrow> fs_outcome \<Rightarrow> ledger_record \<Rightarrow> 'u spool \<Rightarrow> record_err option \<times> 'u spool" where
  "spool_record up K fs r sc =
     (if backlog sc then spool_append K fs r sc
      else
        (case up r (sp_Upstream sc) of
           (None, u) \<Rightarrow> (None, sc\<lparr>sp_Upstream := u\<rparr>)
         | (Some e, u) \<Rightarrow> spool_append K fs r (sc\<lparr>sp_Upstream := u\<rparr>)))"

text \<open>
  The lines of \<^verbatim>\<open>bufio.Scanner\<close> with a buffer of 8 MiB: a final line need not be ended, a carriage return
  before the end is dropped, and the scan stops for good at a line that does not fit the buffer.
\<close>

definition max_line :: nat where
  "max_line = 8 * 1024 * 1024"

definition drop_cr :: "string \<Rightarrow> string" where
  "drop_cr l = (if l \<noteq> [] \<and> last l = CHR 0x0D then butlast l else l)"

definition scan_lines :: "string \<Rightarrow> string list" where
  "scan_lines s =
     (let ls = split_byte s newline in
      map drop_cr (takeWhile (\<lambda>l. length l < max_line) (if last ls = [] then butlast ls else ls)))"

text \<open>The loop of \<^verbatim>\<open>drain\<close>: after the first failure the records are kept, in order.\<close>

fun drain_loop ::
    "'u recorder_op \<Rightarrow> spool_codec \<Rightarrow> bool \<Rightarrow> string list \<Rightarrow> 'u \<Rightarrow> ledger_record list \<times> 'u" where
  "drain_loop up K failed [] u = ([], u)"
| "drain_loop up K failed (l # ls) u =
     (if l = [] then drain_loop up K failed ls u
      else
        (case sk_unmarshal K l of
           None \<Rightarrow> drain_loop up K failed ls u
         | Some r \<Rightarrow>
             if failed then apfst ((#) r) (drain_loop up K True ls u)
             else
               (case up r u of
                  (None, u') \<Rightarrow> drain_loop up K False ls u'
                | (Some e, u') \<Rightarrow> apfst ((#) r) (drain_loop up K True ls u'))))"

definition spool_line :: "spool_codec \<Rightarrow> ledger_record \<Rightarrow> string" where
  "spool_line K r = (case sk_marshal K r of None \<Rightarrow> [] | Some b \<Rightarrow> b) @ [newline]"

definition drain :: "'u recorder_op \<Rightarrow> spool_codec \<Rightarrow> fs_outcome \<Rightarrow> 'u spool \<Rightarrow> 'u spool" where
  "drain up K fs sc =
     (if \<not> sp_Open sc \<or> sp_File sc = [] \<or> \<not> fs_Seek fs then sc
      else
        let (remaining, u) = drain_loop up K False (scan_lines (sp_File sc)) (sp_Upstream sc);
            sc1 = sc\<lparr>sp_Upstream := u\<rparr>
        in if \<not> fs_Rewrite fs then sc1
           else sc1\<lparr>sp_File := concat (map (spool_line K) remaining), sp_Open := fs_Reopen fs\<rparr>)"

definition pending_count :: "fs_outcome \<Rightarrow> 'u spool \<Rightarrow> nat" where
  "pending_count fs sc =
     (if \<not> sp_Open sc \<or> \<not> fs_Seek fs then 0 else length (filter (\<lambda>l. l \<noteq> []) (scan_lines (sp_File sc))))"

definition flush :: "'u recorder_op \<Rightarrow> spool_codec \<Rightarrow> fs_outcome \<Rightarrow> 'u spool \<Rightarrow> 'u spool" where
  "flush = drain"

definition close_spool :: "'u spool \<Rightarrow> 'u spool" where
  "close_spool sc = sc\<lparr>sp_Open := False\<rparr>"

subsection \<open>A life of the spool\<close>

text \<open>A record, a round of the background loop, or a restart: close, and open the same directory again.\<close>

datatype spool_event = SpRecord ledger_record fs_outcome | SpDrain fs_outcome | SpRestart

definition spool_step ::
    "'u recorder_op \<Rightarrow> spool_codec \<Rightarrow> spool_event \<Rightarrow> 'u spool \<Rightarrow> ledger_record list \<times> 'u spool" where
  "spool_step up K ev sc =
     (case ev of
        SpRecord r fs \<Rightarrow> (case spool_record up K fs r sc of (None, sc') \<Rightarrow> ([r], sc') | (Some e, sc') \<Rightarrow> ([], sc'))
      | SpDrain fs \<Rightarrow> ([], drain up K fs sc)
      | SpRestart \<Rightarrow> ([], (case new_spool True (sp_Upstream (close_spool sc)) (sp_File (close_spool sc)) of
                          Some sc' \<Rightarrow> sc' | None \<Rightarrow> close_spool sc)))"

text \<open>The records that were accepted with no error, in order, and the final state.\<close>

fun spool_run ::
    "'u recorder_op \<Rightarrow> spool_codec \<Rightarrow> spool_event list \<Rightarrow> 'u spool \<Rightarrow> ledger_record list \<times> 'u spool" where
  "spool_run up K [] sc = ([], sc)"
| "spool_run up K (ev # evs) sc =
     (let (rs, sc1) = spool_step up K ev sc; (rest, sc2) = spool_run up K evs sc1 in (rs @ rest, sc2))"

subsection \<open>The file\<close>

text \<open>
  A record whose line comes back as it was: what the codec documents of a record whose payload JSON
  can carry, for a line that fits the scanner's buffer. The bytes of a marshalled value hold no newline.
\<close>

definition line_ok :: "spool_codec \<Rightarrow> ledger_record \<Rightarrow> bool" where
  "line_ok K r \<longleftrightarrow>
     (case sk_marshal K r of
        None \<Rightarrow> False
      | Some b \<Rightarrow> b \<noteq> [] \<and> newline \<notin> set b \<and> last b \<noteq> CHR 0x0D \<and> length b < max_line \<and> sk_unmarshal K b = Some r)"

definition spool_file :: "spool_codec \<Rightarrow> ledger_record list \<Rightarrow> string" where
  "spool_file K rs = concat (map (spool_line K) rs)"

lemma line_okD:
  "line_ok K r \<Longrightarrow> \<exists>b. sk_marshal K r = Some b \<and> b \<noteq> [] \<and> newline \<notin> set b \<and> drop_cr b = b \<and> length b < max_line
     \<and> sk_unmarshal K b = Some r \<and> spool_line K r = b @ [newline]"
  by (auto simp: line_ok_def drop_cr_def spool_line_def split: option.splits)

lemma split_spool_file:
  "list_all (line_ok K) rs \<Longrightarrow>
     split_byte (spool_file K rs) newline = map (\<lambda>r. the (sk_marshal K r)) rs @ [[]]"
proof (induction rs)
  case (Cons r rs)
  then obtain b where "sk_marshal K r = Some b" "newline \<notin> set b" "spool_line K r = b @ [newline]"
    using line_okD [of K r] by auto
  with Cons split_byte_append [of newline b "spool_file K rs"] show ?case by (simp add: spool_file_def)
qed (simp add: spool_file_def)

lemma scan_spool_file:
  assumes "list_all (line_ok K) rs"
  shows "scan_lines (spool_file K rs) = map (\<lambda>r. the (sk_marshal K r)) rs"
proof -
  let ?ls = "map (\<lambda>r. the (sk_marshal K r)) rs"
  have ok: "length l < max_line \<and> drop_cr l = l" if "l \<in> set ?ls" for l
    using that assms line_okD by (fastforce simp: list_all_iff)
  then have fits: "takeWhile (\<lambda>l. length l < max_line) ?ls = ?ls" by (simp only: takeWhile_eq_all_conv) blast
  have "scan_lines (spool_file K rs) = map drop_cr ?ls"
    by (simp only: scan_lines_def split_spool_file [OF assms] Let_def last_snoc butlast_snoc if_True fits simp_thms)
  also have "\<dots> = ?ls" by (rule map_idI) (use ok in blast)
  finally show ?thesis .
qed

lemma spool_file_simps [simp]:
  "spool_file K [] = []" "spool_file K (r # rs) = spool_line K r @ spool_file K rs"
  "spool_file K (rs @ qs) = spool_file K rs @ spool_file K qs"
  by (simp_all add: spool_file_def)

lemma spool_file_Nil [simp]: "spool_file K rs = [] \<longleftrightarrow> rs = []"
  by (cases rs) (simp_all add: spool_line_def)

lemma drain_loop_kept:
  "list_all (line_ok K) rs \<Longrightarrow> drain_loop up K True (map (\<lambda>r. the (sk_marshal K r)) rs) u = (rs, u)"
  by (induction rs) (auto dest!: line_okD)

subsection \<open>The contract of a recorder\<close>

text \<open>
  \<open>accepted u\<close> are the records the upstream holds. What is answered with no error was accepted; an
  error leaves it open, since an answer can be lost on its way, but not for an exact recorder.
\<close>

locale recorder =
  fixes up :: "'u recorder_op" and accepted :: "'u \<Rightarrow> ledger_record list"
  assumes delivered: "up r u = (None, u') \<Longrightarrow> accepted u' = accepted u @ [r]"
    and refused: "up r u = (Some e, u') \<Longrightarrow> accepted u' = accepted u \<or> accepted u' = accepted u @ [r]"
begin

lemma drain_loop_weak:
  "list_all (line_ok K) rs \<Longrightarrow> drain_loop up K False (map (\<lambda>r. the (sk_marshal K r)) rs) u = (rest, u') \<Longrightarrow>
     list_all (line_ok K) rest \<and> set (accepted u) \<subseteq> set (accepted u') \<and> set rs \<subseteq> set (accepted u') \<union> set rest"
proof (induction rs arbitrary: u)
  case (Cons r rs)
  then obtain b where b: "sk_marshal K r = Some b" "b \<noteq> []" "sk_unmarshal K b = Some r" using line_okD [of K r] by auto
  obtain e u1 where up: "up r u = (e, u1)" by fastforce
  show ?case
  proof (cases e)
    case None
    with Cons b up have "drain_loop up K False (map (\<lambda>r. the (sk_marshal K r)) rs) u1 = (rest, u')" by simp
    from Cons.IH [OF _ this] Cons.prems(1) delivered [of r u u1] up None show ?thesis by auto
  next
    case (Some x)
    with Cons.prems b up drain_loop_kept [of K rs up u1] have "rest = r # rs" "u' = u1" by auto
    with refused [of r u x u1] up Some Cons.prems(1) show ?thesis by auto
  qed
qed simp

end

locale exact_recorder = recorder +
  assumes exact: "up r u = (Some e, u') \<Longrightarrow> accepted u' = accepted u"
begin

lemma drain_loop_exact:
  "list_all (line_ok K) rs \<Longrightarrow> drain_loop up K False (map (\<lambda>r. the (sk_marshal K r)) rs) u = (rest, u') \<Longrightarrow>
     list_all (line_ok K) rest \<and> accepted u' @ rest = accepted u @ rs"
proof (induction rs arbitrary: u)
  case (Cons r rs)
  then obtain b where b: "sk_marshal K r = Some b" "b \<noteq> []" "sk_unmarshal K b = Some r" using line_okD [of K r] by auto
  obtain e u1 where up: "up r u = (e, u1)" by fastforce
  show ?case
  proof (cases e)
    case None
    with Cons b up have "drain_loop up K False (map (\<lambda>r. the (sk_marshal K r)) rs) u1 = (rest, u')" by simp
    from Cons.IH [OF _ this] Cons.prems(1) delivered [of r u u1] up None show ?thesis by auto
  next
    case (Some x)
    with Cons.prems b up drain_loop_kept [of K rs up u1] have "rest = r # rs" "u' = u1" by auto
    with exact [of r u x u1] up Some Cons.prems(1) show ?thesis by auto
  qed
qed simp

text \<open>When the file system does not fail, the spool is itself an exact recorder: of what is delivered and pending.\<close>

lemma spool_record_fine:
  assumes "sp_Open sc" and "sp_File sc = spool_file K rs" and "list_all (line_ok K) rs" and "line_ok K r"
    and "spool_record up K fs_fine r sc = (e, sc')"
  shows "e = None \<and> sp_Open sc' \<and> (\<exists>qs. sp_File sc' = spool_file K qs \<and> list_all (line_ok K) qs
     \<and> accepted (sp_Upstream sc') @ qs = accepted (sp_Upstream sc) @ rs @ [r])"
proof -
  obtain b where b: "sk_marshal K r = Some b" "spool_line K r = b @ [newline]" using line_okD [OF assms(4)] by blast
  have app: "spool_append K fs_fine r s = (None, s\<lparr>sp_File := spool_file K (qs @ [r])\<rparr>)"
    if "sp_Open s" "sp_File s = spool_file K qs" for qs s
    using that b by (simp add: spool_append_def fs_fine_def)
  show ?thesis
  proof (cases "backlog sc")
    case True
    then have "e = None" "sc' = sc\<lparr>sp_File := spool_file K (rs @ [r])\<rparr>"
      using assms(5) app [OF assms(1,2)] by (simp_all add: spool_record_def)
    with assms show ?thesis by (intro conjI exI [of _ "rs @ [r]"]) auto
  next
    case False
    then have "rs = []" using assms(1,2) by (simp add: backlog_def)
    obtain x u where up: "up r (sp_Upstream sc) = (x, u)" by fastforce
    show ?thesis
    proof (cases x)
      case None
      then have "e = None" "sc' = sc\<lparr>sp_Upstream := u\<rparr>" using assms(5) False up by (simp_all add: spool_record_def)
      with assms delivered [of r "sp_Upstream sc" u] up None \<open>rs = []\<close> show ?thesis by (intro conjI exI [of _ "[]"]) auto
    next
      case (Some y)
      then have "e = None" "sc' = sc\<lparr>sp_Upstream := u, sp_File := spool_file K ([] @ [r])\<rparr>"
        using assms(1,2,5) False up app [of "sc\<lparr>sp_Upstream := u\<rparr>" "[]"] \<open>rs = []\<close> by (simp_all add: spool_record_def)
      with assms exact [of r "sp_Upstream sc" y u] up Some \<open>rs = []\<close> show ?thesis by (intro conjI exI [of _ "[r]"]) auto
    qed
  qed
qed

lemma drain_fine:
  assumes "sp_Open sc" and "sp_File sc = spool_file K rs" and "list_all (line_ok K) rs"
  shows "sp_Open (drain up K fs_fine sc) \<and> (\<exists>qs. sp_File (drain up K fs_fine sc) = spool_file K qs \<and> list_all (line_ok K) qs
     \<and> accepted (sp_Upstream (drain up K fs_fine sc)) @ qs = accepted (sp_Upstream sc) @ rs)"
proof (cases "rs = []")
  case True
  with assms show ?thesis by (auto simp: drain_def intro!: exI [of _ "[]"])
next
  case False
  obtain rest u where d: "drain_loop up K False (map (\<lambda>r. the (sk_marshal K r)) rs) (sp_Upstream sc) = (rest, u)" by fastforce
  have "drain up K fs_fine sc = sc\<lparr>sp_Upstream := u, sp_File := spool_file K rest, sp_Open := True\<rparr>"
    using assms False d by (simp add: drain_def fs_fine_def scan_spool_file spool_file_def [symmetric])
  with drain_loop_exact [OF assms(3) d] show ?thesis by auto
qed

end

text \<open>Events on a file system that does not fail, and one whose failures leave no line half written.\<close>

definition fine_event :: "spool_codec \<Rightarrow> spool_event \<Rightarrow> bool" where
  "fine_event K ev \<longleftrightarrow>
     (case ev of SpRecord r fs \<Rightarrow> fs = fs_fine \<and> line_ok K r | SpDrain fs \<Rightarrow> fs = fs_fine | SpRestart \<Rightarrow> True)"

definition whole_event :: "spool_codec \<Rightarrow> spool_event \<Rightarrow> bool" where
  "whole_event K ev \<longleftrightarrow>
     (case ev of SpRecord r fs \<Rightarrow> line_ok K r \<and> (fs_Written fs = None \<or> fs_Written fs = Some 0) | _ \<Rightarrow> True)"

definition recorded :: "spool_event list \<Rightarrow> ledger_record list" where
  "recorded evs = concat (map (\<lambda>ev. case ev of SpRecord r fs \<Rightarrow> [r] | _ \<Rightarrow> []) evs)"

context exact_recorder
begin

lemma spool_run_exact:
  "sp_Open sc \<Longrightarrow> sp_File sc = spool_file K rs \<Longrightarrow> list_all (line_ok K) rs \<Longrightarrow> list_all (fine_event K) evs \<Longrightarrow>
     spool_run up K evs sc = (acks, sc') \<Longrightarrow>
     acks = recorded evs \<and> sp_Open sc' \<and> (\<exists>qs. sp_File sc' = spool_file K qs \<and> list_all (line_ok K) qs
       \<and> accepted (sp_Upstream sc') @ qs = accepted (sp_Upstream sc) @ rs @ acks)"
proof (induction evs arbitrary: sc rs acks)
  case Nil
  then show ?case by (auto simp: recorded_def intro!: exI [of _ rs])
next
  case (Cons ev evs)
  obtain l sc1 where step: "spool_step up K ev sc = (l, sc1)" by fastforce
  obtain rest where rest: "spool_run up K evs sc1 = (rest, sc')" "acks = l @ rest"
    using Cons.prems(5) step by (auto split: prod.splits)
  have "l = recorded [ev] \<and> sp_Open sc1 \<and> (\<exists>qs. sp_File sc1 = spool_file K qs \<and> list_all (line_ok K) qs
      \<and> accepted (sp_Upstream sc1) @ qs = accepted (sp_Upstream sc) @ rs @ l)"
  proof (cases ev)
    case (SpRecord r fs)
    obtain e sc2 where r: "spool_record up K fs_fine r sc = (e, sc2)" by fastforce
    from spool_record_fine [OF Cons.prems(1-3) _ r] Cons.prems(4) step r SpRecord show ?thesis
      by (auto simp: spool_step_def fine_event_def recorded_def)
  next
    case (SpDrain fs)
    with drain_fine [OF Cons.prems(1-3)] Cons.prems(4) step show ?thesis
      by (auto simp: spool_step_def fine_event_def recorded_def)
  next
    case SpRestart
    with step Cons.prems(2,3) show ?thesis by (auto simp: spool_step_def new_spool_def close_spool_def recorded_def)
  qed
  then obtain qs where l: "l = recorded [ev]" "sp_Open sc1" and qs: "sp_File sc1 = spool_file K qs" "list_all (line_ok K) qs"
      "accepted (sp_Upstream sc1) @ qs = accepted (sp_Upstream sc) @ rs @ l"
    by blast
  from Cons.IH [OF l(2) qs(1,2) _ rest(1)] Cons.prems(4) obtain ps where "rest = recorded evs" "sp_Open sc'"
      "sp_File sc' = spool_file K ps" "list_all (line_ok K) ps"
      "accepted (sp_Upstream sc') @ ps = (accepted (sp_Upstream sc1) @ qs) @ rest" by auto
  with l(1) qs(3) rest(2) show ?case by (auto simp: recorded_def intro!: exI [of _ ps])
qed

end

context recorder
begin

text \<open>The records that are safe: accepted, or on a line of the file.\<close>

definition safe :: "spool_codec \<Rightarrow> 'u spool \<Rightarrow> ledger_record set \<Rightarrow> bool" where
  "safe K sc R \<longleftrightarrow> (\<exists>rs. sp_File sc = spool_file K rs \<and> list_all (line_ok K) rs
     \<and> R \<subseteq> set (accepted (sp_Upstream sc)) \<union> set rs)"

lemma append_safe:
  assumes "safe K sc R" and "line_ok K r" and "fs_Written fs = None \<or> fs_Written fs = Some 0"
    and "spool_append K fs r sc = (e, sc')"
  shows "safe K sc' R \<and> (e = None \<longrightarrow> safe K sc' (insert r R))"
proof -
  obtain rs where rs: "sp_File sc = spool_file K rs" "list_all (line_ok K) rs" "R \<subseteq> set (accepted (sp_Upstream sc)) \<union> set rs"
    using assms(1) by (auto simp: safe_def)
  obtain b where b: "sk_marshal K r = Some b" "spool_line K r = b @ [newline]" using line_okD [OF assms(2)] by blast
  from assms(4) b consider "e \<noteq> None" "sc' = sc" | "sc' = sc\<lparr>sp_File := spool_file K (rs @ [r])\<rparr>"
    using assms(3) rs(1) by (auto simp: spool_append_def split: if_splits)
  then show ?thesis
  proof cases
    case 2
    with rs assms(2) show ?thesis unfolding safe_def by (intro conjI impI exI [of _ "rs @ [r]"]) auto
  qed (use assms(1) in auto)
qed

lemma record_safe:
  assumes "safe K sc R" and "line_ok K r" and "fs_Written fs = None \<or> fs_Written fs = Some 0"
    and "spool_record up K fs r sc = (e, sc')"
  shows "safe K sc' R \<and> (e = None \<longrightarrow> safe K sc' (insert r R))"
proof (cases "backlog sc")
  case True
  with assms append_safe [OF assms(1-3)] show ?thesis by (simp add: spool_record_def)
next
  case False
  obtain x u where up: "up r (sp_Upstream sc) = (x, u)" by fastforce
  have keep: "safe K (sc\<lparr>sp_Upstream := u\<rparr>) R"
    using assms(1) delivered [of r "sp_Upstream sc" u] refused [of r "sp_Upstream sc" _ u] up
    by (cases x) (fastforce simp: safe_def)+
  show ?thesis
  proof (cases x)
    case None
    then have "sc' = sc\<lparr>sp_Upstream := u\<rparr>" using assms(4) False up by (simp add: spool_record_def)
    moreover have "safe K (sc\<lparr>sp_Upstream := u\<rparr>) (insert r R)"
      using keep delivered [of r "sp_Upstream sc" u] up None by (auto simp: safe_def)
    ultimately show ?thesis using keep by simp
  next
    case (Some y)
    with assms(4) False up append_safe [OF keep assms(2,3)] show ?thesis by (simp add: spool_record_def)
  qed
qed

lemma drain_safe:
  assumes "safe K sc R"
  shows "safe K (drain up K fs sc) R"
proof -
  obtain rs where rs: "sp_File sc = spool_file K rs" "list_all (line_ok K) rs" "R \<subseteq> set (accepted (sp_Upstream sc)) \<union> set rs"
    using assms by (auto simp: safe_def)
  obtain rest u where d: "drain_loop up K False (map (\<lambda>r. the (sk_marshal K r)) rs) (sp_Upstream sc) = (rest, u)" by fastforce
  have "drain up K fs sc = sc \<or> drain up K fs sc = sc\<lparr>sp_Upstream := u\<rparr>
      \<or> drain up K fs sc = sc\<lparr>sp_Upstream := u, sp_File := spool_file K rest, sp_Open := fs_Reopen fs\<rparr>"
    using rs(1) d by (auto simp: drain_def Let_def scan_spool_file [OF rs(2)] spool_file_def [symmetric])
  with drain_loop_weak [OF rs(2) d] rs show ?thesis unfolding safe_def by (elim disjE) (simp, fastforce)+
qed

lemma spool_run_safe:
  "safe K sc R \<Longrightarrow> list_all (whole_event K) evs \<Longrightarrow> spool_run up K evs sc = (acks, sc') \<Longrightarrow> safe K sc' (R \<union> set acks)"
proof (induction evs arbitrary: sc R acks)
  case (Cons ev evs)
  obtain l sc1 where step: "spool_step up K ev sc = (l, sc1)" by fastforce
  obtain rest where rest: "spool_run up K evs sc1 = (rest, sc')" "acks = l @ rest"
    using Cons.prems(3) step by (auto split: prod.splits)
  have "safe K sc1 (R \<union> set l)"
  proof (cases ev)
    case (SpRecord r fs)
    obtain e sc2 where r: "spool_record up K fs r sc = (e, sc2)" by fastforce
    from record_safe [OF Cons.prems(1) _ _ r] Cons.prems(2) step r SpRecord show ?thesis
      by (auto simp: spool_step_def whole_event_def split: option.splits)
  next
    case (SpDrain fs)
    with drain_safe [OF Cons.prems(1)] step show ?thesis by (auto simp: spool_step_def)
  next
    case SpRestart
    with step Cons.prems(1) show ?thesis by (auto simp: spool_step_def new_spool_def close_spool_def safe_def)
  qed
  from Cons.IH [OF this _ rest(1)] Cons.prems(2) rest(2) show ?case by (simp add: Un_assoc)
qed simp

end

subsection \<open>The client meets it\<close>

text \<open>
  A server that may do anything: \<open>ans\<close> gives, for each request it gets, whether it stores the record
  and the status that arrives, if one does; what it answers 201 it has stored.
\<close>

record ledger_server =
  ls_Time :: nat
  ls_Stored :: "ledger_record list"

definition server_post ::
    "(nat \<Rightarrow> bool \<times> int option) \<Rightarrow> string \<Rightarrow> string \<Rightarrow> ledger_record \<Rightarrow> ledger_server \<Rightarrow> int option \<times> ledger_server" where
  "server_post ans url tok r s =
     (case ans (ls_Time s) of
        (stores, answer) \<Rightarrow>
          (answer, \<lparr>ls_Time = Suc (ls_Time s),
             ls_Stored = (if stores \<or> answer = Some 201 then ls_Stored s @ [r] else ls_Stored s)\<rparr>))"

interpretation lossy: recorder "client_record (server_post ans) c" ls_Stored for ans c
  by unfold_locales (auto simp: client_record_def server_post_def split: if_splits option.splits prod.splits)

interpretation honest: exact_recorder "client_record (server_post (\<lambda>n. (False, a n))) c" ls_Stored for a c
  by unfold_locales (auto simp: client_record_def server_post_def split: if_splits option.splits prod.splits)

interpretation kept: exact_recorder memory_record id
  by unfold_locales (auto simp: memory_record_def)

subsection \<open>Properties\<close>

definition empty_spool :: "ledger_server spool" where
  "empty_spool = \<lparr>sp_Upstream = \<lparr>ls_Time = 0, ls_Stored = []\<rparr>, sp_File = [], sp_Open = True\<rparr>"


text \<open>
  Nothing acknowledged is lost: whatever the server does, and whatever fails in the file system short of
  a half-written line, every record the spool accepted without an error is stored by the server or stands
  on a line of the file, which a restart finds again.
\<close>

theorem spool_never_loses:
  assumes "list_all (whole_event K) evs"
    and "spool_run (client_record (server_post ans) c) K evs empty_spool = (acks, sc)"
  shows "\<exists>pending. sp_File sc = spool_file K pending \<and> set acks \<subseteq> set (ls_Stored (sp_Upstream sc)) \<union> set pending"
proof -
  have "lossy.safe K empty_spool {}" by (auto simp: lossy.safe_def empty_spool_def intro!: exI [of _ "[]"])
  from lossy.spool_run_safe [OF this assms] show ?thesis by (auto simp: lossy.safe_def)
qed

lemma drain_loop_up:
  "list_all (line_ok K) rs \<Longrightarrow> \<forall>r \<in> set rs. lg_ActorChain r \<noteq> [] \<and> la_Kind (hd (lg_ActorChain r)) = ''human'' \<Longrightarrow>
     \<forall>n \<ge> ls_Time s. snd (ans n) = Some 201 \<Longrightarrow>
     drain_loop (client_record (server_post ans) c) K False (map (\<lambda>r. the (sk_marshal K r)) rs) s
       = ([], \<lparr>ls_Time = ls_Time s + length rs, ls_Stored = ls_Stored s @ rs\<rparr>)"
proof (induction rs arbitrary: s)
  case (Cons r rs)
  then obtain b where b: "sk_marshal K r = Some b" "b \<noteq> []" "sk_unmarshal K b = Some r" using line_okD [of K r] by auto
  have "client_record (server_post ans) c r s = (None, \<lparr>ls_Time = Suc (ls_Time s), ls_Stored = ls_Stored s @ [r]\<rparr>)"
    using Cons.prems by (auto simp: client_record_def server_post_def split: prod.split)
  with Cons b show ?case by simp
qed simp

text \<open>
  The spool empties: once the server accepts again, one round of the background loop delivers every
  pending record, in order, and leaves the file empty; the records of the broker all begin with a human, so
  the client refuses none of them.
\<close>

theorem spool_drains:
  assumes "sp_Open sc" and "sp_File sc = spool_file K rs" and "list_all (line_ok K) rs"
    and "\<forall>r \<in> set rs. \<exists>human agents. lg_ActorChain r = actor_chain human agents"
    and "\<forall>n \<ge> ls_Time (sp_Upstream sc). snd (ans n) = Some 201"
  shows "let sc' = drain (client_record (server_post ans) c) K fs_fine sc in
     sp_File sc' = [] \<and> sp_Open sc' \<and> ls_Stored (sp_Upstream sc') = ls_Stored (sp_Upstream sc) @ rs"
proof -
  have "\<forall>r \<in> set rs. lg_ActorChain r \<noteq> [] \<and> la_Kind (hd (lg_ActorChain r)) = ''human''"
    using assms(4) by (fastforce simp: actor_chain_def)
  from drain_loop_up [OF assms(3) this assms(5)] show ?thesis
    using assms(1,2) by (simp add: drain_def fs_fine_def scan_spool_file [OF assms(3)])
qed

text \<open>
  A half-written line takes the next record with it: when a write stops in the middle of a line, the record
  after it is appended to the same line and acknowledged, the scanner then reads one line that is no JSON,
  and the next round drops it: the file is empty and the acknowledged record was never delivered.
\<close>

theorem spool_torn_write_loses:
  assumes "line_ok K r2" and "sk_marshal K r1 = Some b1" and "sk_marshal K r2 = Some b2" and "0 < n" and "n \<le> length b1"
    and "newline \<notin> set b1" and "sk_unmarshal K (take n b1 @ b2) = None" and "snd (ans 0) = None" and "\<not> fst (ans 0)"
  shows "let up = client_record (server_post ans) c;
             (e1, s1) = spool_record up K (fs_fine\<lparr>fs_Written := Some n\<rparr>) r1 empty_spool;
             (e2, s2) = spool_record up K fs_fine r2 s1;
             s3 = drain up K fs_fine s2
         in e1 \<noteq> None \<and> e2 = None \<and> sp_File s3 = [] \<and> ls_Stored (sp_Upstream s3) = []"
proof -
  let ?up = "client_record (server_post ans) c" and ?t = "take n b1 @ b2"
  have b2: "b2 \<noteq> []" "newline \<notin> set b2" "last b2 \<noteq> CHR 0x0D" using assms(1,3) by (auto simp: line_ok_def)
  have t: "?t \<noteq> []" "newline \<notin> set ?t" "drop_cr ?t = ?t"
    using b2 assms(6) by (auto simp: drop_cr_def dest: in_set_takeD)
  have "fst (?up r1 (sp_Upstream empty_spool)) \<noteq> None \<and> ls_Stored (snd (?up r1 (sp_Upstream empty_spool))) = []"
    using assms(8,9) by (cases "ans 0") (auto simp: client_record_def server_post_def empty_spool_def)
  then obtain e u where up: "?up r1 (sp_Upstream empty_spool) = (Some e, u)" "ls_Stored u = []"
    by (cases "?up r1 (sp_Upstream empty_spool)") auto
  let ?s1 = "empty_spool\<lparr>sp_Upstream := u, sp_File := take n b1\<rparr>"
  have one: "spool_record ?up K (fs_fine\<lparr>fs_Written := Some n\<rparr>) r1 empty_spool = (Some SpoolFailed, ?s1)"
    using up(1) assms(2,5) by (simp add: spool_record_def backlog_def empty_spool_def spool_append_def fs_fine_def)
  have two: "spool_record ?up K fs_fine r2 ?s1 = (None, ?s1\<lparr>sp_File := ?t @ [newline]\<rparr>)"
    using assms(3,4,5) by (auto simp: spool_record_def backlog_def empty_spool_def spool_append_def fs_fine_def)
  have "set (scan_lines (?t @ [newline])) \<subseteq> {?t}"
    using t split_byte_append [OF t(2), of "[]"] by (auto simp: scan_lines_def)
  moreover have "drain_loop ?up K False ls u = ([], u)" if "set ls \<subseteq> {?t}" for ls
    using that t(1) assms(7) by (induction ls) auto
  ultimately have "drain_loop ?up K False (scan_lines (?t @ [newline])) u = ([], u)" by blast
  then have "drain ?up K fs_fine (?s1\<lparr>sp_File := ?t @ [newline]\<rparr>) = ?s1\<lparr>sp_File := []\<rparr>"
    by (simp add: drain_def fs_fine_def empty_spool_def)
  with one two up(2) show ?thesis by (simp add: Let_def)
qed

subsection \<open>Witnesses\<close>

text \<open>Records told apart by their type, and a codec that writes the type between braces.\<close>

definition ex_ledger_record :: "string \<Rightarrow> ledger_record" where
  "ex_ledger_record t = \<lparr>lg_Chain = ''warrant'', lg_Type = t, lg_GoalID = [], lg_ActorChain = actor_chain ''ann'' [],
     lg_PolicyVersion = [], lg_Payload = [], lg_Receipt = None\<rparr>"

definition ex_spool_codec :: spool_codec where
  "ex_spool_codec = \<lparr>sk_marshal = (\<lambda>r. Some (CHR ''{'' # lg_Type r @ ''}'')),
     sk_unmarshal = (\<lambda>b. if b \<noteq> [] \<and> tl b \<noteq> [] \<and> CHR ''{'' \<notin> set (tl b) then Some (ex_ledger_record (butlast (tl b))) else None)\<rparr>"

lemma ex_line_ok:
  "CHR ''{'' \<notin> set t \<Longrightarrow> newline \<notin> set t \<Longrightarrow> length t < 100 \<Longrightarrow> line_ok ex_spool_codec (ex_ledger_record t)"
  by (simp add: line_ok_def ex_spool_codec_def ex_ledger_record_def newline_def max_line_def)

definition ex_spool_events :: "fs_outcome \<Rightarrow> spool_event list" where
  "ex_spool_events fs = [SpRecord (ex_ledger_record ''a'') fs_fine, SpRecord (ex_ledger_record ''b'') fs_fine, SpDrain fs, SpRestart,
     SpRecord (ex_ledger_record ''c'') fs_fine]"

definition ex_answers :: "nat \<Rightarrow> int option" where
  "ex_answers n = (if n = 0 then None else if n = 1 then Some 201 else Some 503)"

definition ex_client :: ledger_client where
  "ex_client = \<lparr>lc_URL = ''http://ledger'', lc_Token = []\<rparr>"


theorem spool_never_loses_witness:
  "\<exists>acks sc pending. spool_run (client_record (server_post (\<lambda>n. (n = 1, ex_answers n))) ex_client) ex_spool_codec
       (ex_spool_events (fs_fine\<lparr>fs_Reopen := False\<rparr>)) empty_spool = (acks, sc)
     \<and> set acks \<subseteq> set (ls_Stored (sp_Upstream sc)) \<union> set pending \<and> sp_File sc = spool_file ex_spool_codec pending"
proof -
  obtain acks sc where run: "spool_run (client_record (server_post (\<lambda>n. (n = 1, ex_answers n))) ex_client) ex_spool_codec
      (ex_spool_events (fs_fine\<lparr>fs_Reopen := False\<rparr>)) empty_spool = (acks, sc)" by fastforce
  have "list_all (whole_event ex_spool_codec) (ex_spool_events (fs_fine\<lparr>fs_Reopen := False\<rparr>))"
    by (simp add: ex_spool_events_def whole_event_def ex_line_ok newline_def fs_fine_def)
  from spool_never_loses [OF this run] run show ?thesis by blast
qed

theorem spool_drains_witness:
  "sp_File (drain (client_record (server_post (\<lambda>n. (True, Some 201))) ex_client) ex_spool_codec fs_fine
     (empty_spool\<lparr>sp_File := spool_file ex_spool_codec [ex_ledger_record ''a'', ex_ledger_record ''b'']\<rparr>)) = []"
proof -
  define rs where "rs = [ex_ledger_record ''a'', ex_ledger_record ''b'']"
  have "list_all (line_ok ex_spool_codec) rs" by (simp add: rs_def ex_line_ok newline_def)
  moreover have "\<forall>r \<in> set rs. \<exists>human agents. lg_ActorChain r = actor_chain human agents"
    by (auto simp: rs_def ex_ledger_record_def)
  ultimately have "sp_File (drain (client_record (server_post (\<lambda>n. (True, Some 201))) ex_client) ex_spool_codec fs_fine
     (empty_spool\<lparr>sp_File := spool_file ex_spool_codec rs\<rparr>)) = []"
    using spool_drains [of "empty_spool\<lparr>sp_File := spool_file ex_spool_codec rs\<rparr>" ex_spool_codec rs "\<lambda>n. (True, Some 201)" ex_client]
    by (simp add: Let_def empty_spool_def)
  then show ?thesis by (simp only: rs_def)
qed

theorem spool_torn_write_loses_witness:
  "let up = client_record (server_post (\<lambda>n. (False, ex_answers n))) ex_client;
       (e1, s1) = spool_record up ex_spool_codec (fs_fine\<lparr>fs_Written := Some 1\<rparr>) (ex_ledger_record ''a'') empty_spool;
       (e2, s2) = spool_record up ex_spool_codec fs_fine (ex_ledger_record ''b'') s1
   in e2 = None \<and> sp_File (drain up ex_spool_codec fs_fine s2) = []"
proof -
  have "line_ok ex_spool_codec (ex_ledger_record ''b'')" by (simp add: ex_line_ok newline_def)
  moreover have "sk_marshal ex_spool_codec (ex_ledger_record ''a'') = Some ''{a}''"
    "sk_marshal ex_spool_codec (ex_ledger_record ''b'') = Some ''{b}''" "sk_unmarshal ex_spool_codec ''{{b}'' = None"
    by (simp_all add: ex_spool_codec_def ex_ledger_record_def)
  moreover have "ex_answers 0 = None" by (simp add: ex_answers_def)
  ultimately show ?thesis
    using spool_torn_write_loses [of ex_spool_codec "ex_ledger_record ''b''" "ex_ledger_record ''a''" "''{a}''" "''{b}''" 1
        "\<lambda>n. (False, ex_answers n)" ex_client]
    by (simp add: newline_def case_prod_beta Let_def)
qed

end
