(* ===== verification/License.thy ===== *)
theory License
  imports Token_Jwt
begin

section \<open>License keys (\<^verbatim>\<open>internal/license\<close>)\<close>

text \<open>
  The offline license of the Enterprise features: the signed payload, its token and \<open>license_verify\<close>,
  the state a license is in at a given time (\<open>resolve\<close>), the process-wide cache of the status, and
  \<open>require_feature\<close>, with which a feature is gated. The JSON codec of the payload is the record
  \<open>license_codec\<close>; the environment and the files are functions. The text of messages is kept as the
  values it is made of.
\<close>

subsection \<open>Data\<close>

definition EditionEnterprise :: string where
  "EditionEnterprise = ''enterprise''"

definition FeatureGatewayToolFilter :: string where
  "FeatureGatewayToolFilter = ''gateway-tool-filter''"

definition Grace :: duration where
  "Grace = 14 * 24 * 60 * minute"

record license =
  li_LicenseID :: string
  li_Customer :: string
  li_Product :: string
  li_Edition :: string
  li_Features :: "string list"
  li_Seats :: int
  li_IssuedAt :: time
  li_ExpiresAt :: time

definition license_has_feature :: "license option \<Rightarrow> string \<Rightarrow> bool" where
  "license_has_feature l feature =
     (case l of
        None \<Rightarrow> False
      | Some lic \<Rightarrow>
          if contains (li_Features lic) feature then True
          else if li_Edition lic = EditionEnterprise then feature = FeatureGatewayToolFilter
          else False)"

datatype license_state = StateNone | StateValid | StateGrace | StateExpired

datatype license_err =
    MalformedToken
  | BadLicenseSignature
  | MalformedPayload
  | WrongProduct string
  | UnknownEdition string

datatype license_warning = NoWarning | UnreadableFile | InvalidLicense license_err | ExpiredLicense | GraceLicense

record status =
  st_State :: license_state
  st_License :: "license option"
  st_Warning :: license_warning

definition active :: "status option \<Rightarrow> bool" where
  "active s = (case s of None \<Rightarrow> False | Some st \<Rightarrow> st_State st = StateValid \<or> st_State st = StateGrace)"

definition status_has_feature :: "status option \<Rightarrow> string \<Rightarrow> bool" where
  "status_has_feature s feature =
     (if s = None \<or> \<not> active s then False else license_has_feature (st_License (the s)) feature)"

subsection \<open>Tokens\<close>

record license_codec =
  lk_marshal :: "license \<Rightarrow> string option"
  lk_unmarshal :: "string \<Rightarrow> license option"

text \<open>\<^verbatim>\<open>Sign\<close> fills in the product of the license it is given.\<close>

definition license_sign :: "'z env_scheme \<Rightarrow> license_codec \<Rightarrow> string \<Rightarrow> license \<Rightarrow> license \<times> string option" where
  "license_sign E K priv l =
     (let l = (if li_Product l = [] then l\<lparr>li_Product := ''warrant''\<rparr> else l) in
      case lk_marshal K l of
        None \<Rightarrow> (l, None)
      | Some payload \<Rightarrow> (l, Some (raw_url_encode payload @ ''.'' @ raw_url_encode (en_sign E priv payload))))"

definition prodPublicKeyB64 :: string where
  "prodPublicKeyB64 = ''UCXEclvh87t1apSNsbff7yYy8AyY8h++HNWSVfYseE4=''"

definition devPublicKeyB64 :: string where
  "devPublicKeyB64 = ''1LqUDvnUhMaTgEPSu1CJTCEobuLw6FurDSTYXw3c+fY=''"

definition devPrivateKeyB64 :: string where
  "devPrivateKeyB64 = ''sSHAG3gkQPnLGf5x9PxyG+9X7lcjK0UAVBZYs7KxHrjUupQO+dSExpOAQ9K7UIlMIShu4vDoW6sNJNhfDdz59g==''"

text \<open>\<^const>\<open>None\<close> is a panic, which \<open>vendor_keys_decode\<close> excludes for the keys that are embedded.\<close>

definition must_decode_key :: "string \<Rightarrow> string option" where
  "must_decode_key b64s = (case std_decode b64s of None \<Rightarrow> None | Some b \<Rightarrow> if length b \<noteq> 32 then None else Some b)"

definition must_decode_key_seed :: "string \<Rightarrow> string option" where
  "must_decode_key_seed b64s = (case std_decode b64s of None \<Rightarrow> None | Some b \<Rightarrow> if length b \<noteq> 64 then None else Some b)"

definition dev_signer :: "string option" where
  "dev_signer = must_decode_key_seed devPrivateKeyB64"

definition vendor_public_keys :: "bool \<Rightarrow> string list option" where
  "vendor_public_keys trustDevKey =
     (case must_decode_key prodPublicKeyB64 of
        None \<Rightarrow> None
      | Some pk \<Rightarrow>
          if trustDevKey then map_option (\<lambda>dev. [pk, dev]) (must_decode_key devPublicKeyB64) else Some [pk])"

definition license_verify :: "'z env_scheme \<Rightarrow> license_codec \<Rightarrow> bool \<Rightarrow> string \<Rightarrow> license_err + license" where
  "license_verify E K trustDevKey tok =
     (let t = trim_space tok; i = index_byte t (CHR ''.'') in
      if i < 0 then Inl MalformedToken
      else
        (case raw_url_decode True (take (nat i) t) of
           None \<Rightarrow> Inl MalformedToken
         | Some payload \<Rightarrow>
             (case raw_url_decode True (drop (nat i + 1) t) of
                None \<Rightarrow> Inl MalformedToken
              | Some sig \<Rightarrow>
                  if \<not> list_ex (\<lambda>pub. length pub = 32 \<and> en_verify E pub payload sig) (the (vendor_public_keys trustDevKey))
                  then Inl BadLicenseSignature
                  else
                    (case lk_unmarshal K payload of
                       None \<Rightarrow> Inl MalformedPayload
                     | Some lic \<Rightarrow>
                         if li_Product lic \<noteq> ''warrant'' then Inl (WrongProduct (li_Product lic))
                         else if li_Edition lic \<noteq> EditionEnterprise then Inl (UnknownEdition (li_Edition lic))
                         else Inr lic))))"

subsection \<open>The status of the process\<close>

definition resolve :: "license \<Rightarrow> time \<Rightarrow> status" where
  "resolve lic now =
     (if li_ExpiresAt lic \<noteq> zero_time \<and> li_ExpiresAt lic + Grace < now then
        \<lparr>st_State = StateExpired, st_License = Some lic, st_Warning = ExpiredLicense\<rparr>
      else if li_ExpiresAt lic \<noteq> zero_time \<and> li_ExpiresAt lic < now then
        \<lparr>st_State = StateGrace, st_License = Some lic, st_Warning = GraceLicense\<rparr>
      else \<lparr>st_State = StateValid, st_License = Some lic, st_Warning = NoWarning\<rparr>)"

definition no_license :: "license_warning \<Rightarrow> status" where
  "no_license w = \<lparr>st_State = StateNone, st_License = None, st_Warning = w\<rparr>"

text \<open>\<open>env\<close> is \<^verbatim>\<open>os.Getenv\<close>, \<open>file\<close> is \<^verbatim>\<open>os.ReadFile\<close>.\<close>

definition load_license ::
    "'z env_scheme \<Rightarrow> license_codec \<Rightarrow> bool \<Rightarrow> (string \<Rightarrow> string) \<Rightarrow> (string \<Rightarrow> string option) \<Rightarrow> time \<Rightarrow> status" where
  "load_license E K trustDevKey env file now =
     (let tok0 = trim_space (env ''WARRANT_LICENSE''); fp = trim_space (env ''WARRANT_LICENSE_FILE'') in
      case (if tok0 = [] \<and> fp \<noteq> [] then map_option trim_space (file fp) else Some tok0) of
        None \<Rightarrow> no_license UnreadableFile
      | Some tok \<Rightarrow>
          if tok = [] then no_license NoWarning
          else
            (case license_verify E K trustDevKey tok of
               Inl e \<Rightarrow> no_license (InvalidLicense e)
             | Inr lic \<Rightarrow> resolve lic now))"

text \<open>The cache of the process: \<^const>\<open>None\<close> before the first use. \<open>ld\<close> stands for a call of \<^verbatim>\<open>load\<close>.\<close>

definition current :: "status \<Rightarrow> status option \<Rightarrow> status \<times> status option" where
  "current ld cache = (case cache of None \<Rightarrow> (ld, Some ld) | Some s \<Rightarrow> (s, cache))"

definition reload :: "status \<Rightarrow> status option \<Rightarrow> status \<times> status option" where
  "reload ld cache = (ld, Some ld)"

definition trust_dev_key_for_testing :: "(bool \<Rightarrow> status) \<Rightarrow> bool \<times> status option \<Rightarrow> bool \<times> status option" where
  "trust_dev_key_for_testing ld s = (True, snd (reload (ld True) (snd s)))"

subsection \<open>Gating a feature\<close>

datatype require_text = RenewExpired time | OtherEdition string | ContactSales

record require_err =
  rq_Feature :: string
  rq_State :: license_state
  rq_Edition :: string
  rq_Message :: require_text

definition required_edition :: "string \<Rightarrow> string" where
  "required_edition feature = EditionEnterprise"

definition require_feature :: "status \<Rightarrow> string \<Rightarrow> status option \<Rightarrow> require_err option \<times> status option" where
  "require_feature ld feature cache =
     (let (st, cache') = current ld cache in
      if status_has_feature (Some st) feature then (None, cache')
      else
        (Some \<lparr>rq_Feature = feature, rq_State = st_State st, rq_Edition = required_edition feature,
           rq_Message = (case st_State st of
              StateExpired \<Rightarrow> RenewExpired (li_ExpiresAt (the (st_License st)))
            | StateNone \<Rightarrow> ContactSales
            | _ \<Rightarrow> OtherEdition (li_Edition (the (st_License st))))\<rparr>, cache'))"

definition seat_warning :: "status option \<Rightarrow> int \<Rightarrow> (int \<times> int \<times> string) option" where
  "seat_warning s active_users =
     (case s of
        None \<Rightarrow> None
      | Some st \<Rightarrow>
          (case st_License st of
             None \<Rightarrow> None
           | Some lic \<Rightarrow>
               if li_Seats lic \<le> 0 then None
               else if li_Seats lic < active_users then Some (active_users, li_Seats lic, li_Customer lic) else None))"

subsection \<open>The embedded keys\<close>

lemma prod_key_length: "map_option length (std_decode prodPublicKeyB64) = Some 32"
  and dev_signer_length: "map_option length dev_signer = Some 64"
  and dev_signer_public: "map_option (drop 32) dev_signer = std_decode devPublicKeyB64"
  by code_simp+

definition prod_key :: string where
  "prod_key = the (std_decode prodPublicKeyB64)"

definition dev_key :: string where
  "dev_key = the (std_decode devPublicKeyB64)"

lemma embedded_keys: "std_decode prodPublicKeyB64 = Some prod_key" "std_decode devPublicKeyB64 = Some dev_key"
  and key_lengths [simp]: "length prod_key = 32" "length dev_key = 32"
proof -
  obtain priv where priv: "dev_signer = Some priv" "length priv = 64" using dev_signer_length by auto
  have "std_decode devPublicKeyB64 = map_option (drop 32) dev_signer" by (rule dev_signer_public [symmetric])
  also have "\<dots> = Some (drop 32 priv)" by (simp only: priv(1) option.map)
  finally show "std_decode devPublicKeyB64 = Some dev_key" "length dev_key = 32" using priv by (simp_all add: dev_key_def)
  show "std_decode prodPublicKeyB64 = Some prod_key" "length prod_key = 32"
    using prod_key_length by (auto simp: prod_key_def)
qed

text \<open>No embedded key panics, and the public half of the development key is the one that is trusted.\<close>

lemma vendor_keys: "vendor_public_keys trust = Some (if trust then [prod_key, dev_key] else [prod_key])"
  by (simp add: vendor_public_keys_def must_decode_key_def embedded_keys)

subsection \<open>Properties\<close>

text \<open>A token that is in order: two parts, the second a trusted key's signature of the first, which holds the license.\<close>

definition token_of ::
    "'z env_scheme \<Rightarrow> license_codec \<Rightarrow> bool \<Rightarrow> string \<Rightarrow> license \<Rightarrow> bool" where
  "token_of E K trustDevKey tok lic \<longleftrightarrow>
     (\<exists>p s payload sig. trim_space tok = p @ ''.'' @ s \<and> CHR ''.'' \<notin> set p
        \<and> raw_url_decode True p = Some payload \<and> raw_url_decode True s = Some sig
        \<and> (en_verify E prod_key payload sig \<or> trustDevKey \<and> en_verify E dev_key payload sig)
        \<and> lk_unmarshal K payload = Some lic \<and> li_Product lic = ''warrant'' \<and> li_Edition lic = ''enterprise'')"

lemma license_verify_Inr: "license_verify E K trust tok = Inr lic \<longleftrightarrow> token_of E K trust tok lic"
proof (cases "CHR ''.'' \<in> set (trim_space tok)")
  case False
  then have "\<not> token_of E K trust tok lic" by (auto simp: token_of_def)
  with False show ?thesis by (simp add: license_verify_def Let_def)
next
  case True
  let ?t = "trim_space tok" and ?i = "nat (index_byte (trim_space tok) (CHR ''.''))"
  from index_byte_split [OF True]
  have t: "?t = take ?i ?t @ ''.'' @ drop (?i + 1) ?t" "CHR ''.'' \<notin> set (take ?i ?t)" by simp_all
  have split: "p = take ?i ?t \<and> s = drop (?i + 1) ?t" if "?t = p @ ''.'' @ s" "CHR ''.'' \<notin> set p" for p s
    using that index_byte_append [OF that(2), of s] by simp
  have "token_of E K trust tok lic \<longleftrightarrow>
     (\<exists>payload sig. raw_url_decode True (take ?i ?t) = Some payload \<and> raw_url_decode True (drop (?i + 1) ?t) = Some sig
        \<and> (en_verify E prod_key payload sig \<or> trust \<and> en_verify E dev_key payload sig)
        \<and> lk_unmarshal K payload = Some lic \<and> li_Product lic = ''warrant'' \<and> li_Edition lic = ''enterprise'')"
    unfolding token_of_def
  proof
    assume "\<exists>p s payload sig. ?t = p @ ''.'' @ s \<and> CHR ''.'' \<notin> set p \<and> raw_url_decode True p = Some payload \<and> raw_url_decode True s = Some sig
      \<and> (en_verify E prod_key payload sig \<or> trust \<and> en_verify E dev_key payload sig)
      \<and> lk_unmarshal K payload = Some lic \<and> li_Product lic = ''warrant'' \<and> li_Edition lic = ''enterprise''"
    then show "\<exists>payload sig. raw_url_decode True (take ?i ?t) = Some payload \<and> raw_url_decode True (drop (?i + 1) ?t) = Some sig
      \<and> (en_verify E prod_key payload sig \<or> trust \<and> en_verify E dev_key payload sig)
      \<and> lk_unmarshal K payload = Some lic \<and> li_Product lic = ''warrant'' \<and> li_Edition lic = ''enterprise''"
      using split by blast
  qed (use t in blast)
  moreover have "\<not> index_byte ?t (CHR ''.'') < 0" using True by simp
  ultimately show ?thesis
    by (auto simp: license_verify_def Let_def vendor_keys EditionEnterprise_def split: option.splits)
qed

lemma require_feature_None:
  "fst (require_feature (load_license E K trustDevKey env file now) feature None) = None \<longleftrightarrow>
     (\<exists>tok lic.
        (if trim_space (env ''WARRANT_LICENSE'') \<noteq> [] then tok = trim_space (env ''WARRANT_LICENSE'')
         else trim_space (env ''WARRANT_LICENSE_FILE'') \<noteq> []
           \<and> map_option trim_space (file (trim_space (env ''WARRANT_LICENSE_FILE''))) = Some tok \<and> tok \<noteq> [])
        \<and> token_of E K trustDevKey tok lic
        \<and> (li_ExpiresAt lic = zero_time \<or> now \<le> li_ExpiresAt lic + 14 * 24 * 60 * minute)
        \<and> (feature \<in> set (li_Features lic) \<or> feature = FeatureGatewayToolFilter))"
proof -
  have req: "fst (require_feature ld feature None) = None \<longleftrightarrow> status_has_feature (Some ld) feature" for ld
    by (simp add: require_feature_def current_def Let_def)
  have none: "\<not> status_has_feature (Some (no_license w)) feature" for w
    by (simp add: status_has_feature_def active_def no_license_def)
  have res: "status_has_feature (Some (resolve lic now)) feature \<longleftrightarrow>
      (li_ExpiresAt lic = zero_time \<or> now \<le> li_ExpiresAt lic + 14 * 24 * 60 * minute)
      \<and> (feature \<in> set (li_Features lic) \<or> feature = FeatureGatewayToolFilter)" if "token_of E K trustDevKey tok lic" for lic tok
    using that by (auto simp: status_has_feature_def active_def resolve_def license_has_feature_def token_of_def
        EditionEnterprise_def Grace_def)
  let ?load = "\<lambda>tok. case license_verify E K trustDevKey tok of Inl e \<Rightarrow> no_license (InvalidLicense e) | Inr lic \<Rightarrow> resolve lic now"
  have tok: "status_has_feature (Some (?load tok)) feature \<longleftrightarrow>
      (\<exists>lic. token_of E K trustDevKey tok lic \<and> (li_ExpiresAt lic = zero_time \<or> now \<le> li_ExpiresAt lic + 14 * 24 * 60 * minute)
        \<and> (feature \<in> set (li_Features lic) \<or> feature = FeatureGatewayToolFilter))" for tok
  proof (cases "license_verify E K trustDevKey tok")
    case (Inl e)
    then have "\<not> token_of E K trustDevKey tok lic" for lic using license_verify_Inr [of E K trustDevKey tok lic] by simp
    with Inl none show ?thesis by simp
  next
    case (Inr b)
    then have b: "token_of E K trustDevKey tok lic \<longleftrightarrow> lic = b" for lic using license_verify_Inr [of E K trustDevKey tok lic] by auto
    then show ?thesis using res [of tok b] Inr by simp
  qed
  show ?thesis
    unfolding req load_license_def Let_def
    by (auto simp: none tok split: option.splits)
qed

text \<open>
  \<^bold>\<open>C30.\<close> What unlocks a feature: in a process that has not loaded a license yet, exactly a token, from the
  environment or else from the named file, that the vendor's key signed (or the development key, in builds
  that trust it) over an Enterprise license for this product that covers the feature and whose expiry, if
  it has one, is no more than fourteen days past.
\<close>

theorem license_unlocks_exact:
  "fst (require_feature (load_license E K trustDevKey env file now) feature None) = None \<longleftrightarrow>
     (\<exists>tok lic.
        (if trim_space (env ''WARRANT_LICENSE'') \<noteq> [] then tok = trim_space (env ''WARRANT_LICENSE'')
         else trim_space (env ''WARRANT_LICENSE_FILE'') \<noteq> []
           \<and> map_option trim_space (file (trim_space (env ''WARRANT_LICENSE_FILE''))) = Some tok \<and> tok \<noteq> [])
        \<and> token_of E K trustDevKey tok lic
        \<and> (li_ExpiresAt lic = zero_time \<or> now \<le> li_ExpiresAt lic + 14 * 24 * 60 * minute)
        \<and> (feature \<in> set (li_Features lic) \<or> feature = FeatureGatewayToolFilter))"
  by (rule require_feature_None)

lemma trim_space_ends: "trim_space t = [] \<or> \<not> is_space (hd (trim_space t)) \<and> \<not> is_space (last (trim_space t))"
proof (cases "trim_space t = []")
  case False
  let ?u = "dropWhile is_space t"
  let ?w = "dropWhile is_space (rev ?u)"
  have w: "?w \<noteq> []" "trim_space t = rev ?w" using False by (simp_all add: trim_space_def)
  then have u: "?u \<noteq> []" by force
  obtain z where "rev ?u = z @ ?w" using suffix_dropWhile [of is_space "rev ?u"] by (auto simp: suffix_def)
  then have "last ?w = last (rev ?u)" using w(1) by (metis last_appendR)
  also have "\<dots> = hd ?u" using u by (simp add: last_rev)
  finally have "last ?w = hd ?u" .
  moreover have "\<not> is_space (hd ?u)" using u by (rule hd_dropWhile)
  moreover have "\<not> is_space (hd ?w)" using w(1) by (rule hd_dropWhile)
  ultimately show ?thesis using w by (simp add: hd_rev last_rev)
qed simp

lemma trim_space_id:
  assumes "t \<noteq> [] \<Longrightarrow> \<not> is_space (hd t) \<and> \<not> is_space (last t)"
  shows "trim_space t = t"
proof (cases "t = []")
  case False
  with assms have "dropWhile is_space t = t" by (simp add: dropWhile_eq_self_iff)
  moreover from assms False have "dropWhile is_space (rev t) = rev t" by (simp add: dropWhile_eq_self_iff hd_rev)
  ultimately show ?thesis by (simp add: trim_space_def)
qed (simp add: trim_space_def)

lemma trim_space_idem [simp]: "trim_space (trim_space t) = trim_space t"
  using trim_space_ends [of t] by (intro trim_space_id) blast

text \<open>
  A license round trip: what the vendor signs, the program accepts as the license that was signed, with
  the product filled in, and it is valid until its expiry, in grace for fourteen days and expired then.
\<close>

theorem license_roundtrip:
  assumes "en_verify E prod_key b (en_sign E priv b)" and "li_Product l \<in> {[], ''warrant''}" and "li_Edition l = ''enterprise''"
    and "lk_marshal K (l\<lparr>li_Product := ''warrant''\<rparr>) = Some b" and "lk_unmarshal K b = Some (l\<lparr>li_Product := ''warrant''\<rparr>)"
    and "license_sign E K priv l = (l', Some tok)"
  shows "l' = l\<lparr>li_Product := ''warrant''\<rparr> \<and> license_verify E K trustDevKey tok = Inr l'
     \<and> st_State (resolve l' now) =
         (if li_ExpiresAt l = zero_time \<or> now \<le> li_ExpiresAt l then StateValid
          else if now \<le> li_ExpiresAt l + 14 * 24 * 60 * minute then StateGrace else StateExpired)"
proof -
  have l: "l\<lparr>li_Product := ''warrant''\<rparr> = l" if "li_Product l = ''warrant''" using that by (metis license.surjective license.update_convs(3))
  have tok: "tok = raw_url_encode b @ ''.'' @ raw_url_encode (en_sign E priv b)" and l': "l' = l\<lparr>li_Product := ''warrant''\<rparr>"
  proof -
    have "(if li_Product l = [] then l\<lparr>li_Product := ''warrant''\<rparr> else l) = l\<lparr>li_Product := ''warrant''\<rparr>" using assms(2) l by auto
    then show "tok = raw_url_encode b @ ''.'' @ raw_url_encode (en_sign E priv b)" "l' = l\<lparr>li_Product := ''warrant''\<rparr>"
      using assms(4,6) by (simp_all only: license_sign_def Let_def) auto
  qed
  have "\<not> is_space c" if "c \<in> set tok" for c
  proof -
    have "list_all (\<lambda>c. \<not> is_space c) (CHR ''.'' # url_alphabet)" by code_simp
    with that raw_url_encode_chars show ?thesis unfolding tok by (fastforce simp: list_all_iff)
  qed
  then have "trim_space tok = tok" by (intro trim_space_id) auto
  with assms tok l' have "token_of E K trustDevKey tok l'"
    unfolding token_of_def
    by (intro exI [of _ "raw_url_encode b"] exI [of _ "raw_url_encode (en_sign E priv b)"] exI [of _ b] exI [of _ "en_sign E priv b"])
      simp
  moreover have "st_State (resolve l' now) =
     (if li_ExpiresAt l = zero_time \<or> now \<le> li_ExpiresAt l then StateValid
      else if now \<le> li_ExpiresAt l + 14 * 24 * 60 * minute then StateGrace else StateExpired)"
    by (auto simp: resolve_def l' Grace_def minute_def second_def)
  ultimately show ?thesis using l' license_verify_Inr by blast
qed

text \<open>
  A license token has many spellings: a line feed anywhere inside the signature of an accepted token gives
  another token that is accepted as the same license, since the decoder skips it in strict mode too.
\<close>

theorem license_spellings:
  assumes "license_verify E K trustDevKey tok = Inr lic" and "trim_space tok = p @ ''.'' @ u @ v" and "CHR ''.'' \<notin> set p"
    and "u \<noteq> []" and "v \<noteq> []"
  shows "let tok' = p @ ''.'' @ u @ CHR 0x0A # v in
     trim_space tok' = tok' \<and> tok' \<noteq> trim_space tok \<and> license_verify E K trustDevKey tok' = Inr lic"
proof -
  let ?t = "p @ ''.'' @ u @ v" and ?t' = "p @ ''.'' @ u @ CHR 0x0A # v"
  have "\<not> is_space (hd ?t) \<and> \<not> is_space (last ?t)" using trim_space_ends [of tok] unfolding assms(2) by auto
  then have trim: "trim_space ?t' = ?t'" using assms(5) by (intro trim_space_id) (cases p; auto)
  have skip: "raw_url_decode True (u @ CHR 0x0A # v) = raw_url_decode True (u @ v)"
    by (simp add: raw_url_decode_def skip_newlines_def)
  have "token_of E K trustDevKey tok lic" using assms(1) license_verify_Inr by blast
  then obtain p2 s payload sig where tk: "trim_space tok = p2 @ ''.'' @ s" "CHR ''.'' \<notin> set p2" "raw_url_decode True p2 = Some payload"
      "raw_url_decode True s = Some sig" "en_verify E prod_key payload sig \<or> trustDevKey \<and> en_verify E dev_key payload sig"
      "lk_unmarshal K payload = Some lic" "li_Product lic = ''warrant''" "li_Edition lic = ''enterprise''"
    by (auto simp: token_of_def)
  have ps: "p2 = p \<and> s = u @ v"
  proof -
    have eq: "p2 @ CHR ''.'' # s = p @ CHR ''.'' # u @ v" using trans [OF tk(1) [symmetric] assms(2)] by (simp only: append.simps)
    then have "length p2 = length p"
      using index_byte_append [OF tk(2), of s] index_byte_append [OF assms(3), of "u @ v"] by (metis of_nat_eq_iff)
    with eq show ?thesis by (metis append_eq_append_conv list.inject)
  qed
  have "token_of E K trustDevKey ?t' lic"
    unfolding token_of_def trim
    by (intro exI [of _ p] exI [of _ "u @ CHR 0x0A # v"] exI [of _ payload] exI [of _ sig]) (use tk ps skip assms(3) in simp)
  then have "license_verify E K trustDevKey ?t' = Inr lic" using license_verify_Inr by blast
  moreover have "length ?t' \<noteq> length (trim_space tok)" unfolding assms(2) by simp
  then have "?t' \<noteq> trim_space tok" by metis
  ultimately show ?thesis using trim by (simp only: Let_def) simp
qed

subsection \<open>Witnesses\<close>

text \<open>A vendor whose signatures are one word, a license that expires at 1000 seconds, and its token.\<close>

definition ex_license :: license where
  "ex_license = \<lparr>li_LicenseID = ''L1'', li_Customer = ''c'', li_Product = [], li_Edition = ''enterprise'', li_Features = [],
     li_Seats = 5, li_IssuedAt = 0, li_ExpiresAt = 1000 * second\<rparr>"

definition ex_license_codec :: license_codec where
  "ex_license_codec = \<lparr>lk_marshal = (\<lambda>l. Some (li_LicenseID l)),
     lk_unmarshal = (\<lambda>b. Some (ex_license\<lparr>li_LicenseID := b, li_Product := ''warrant''\<rparr>))\<rparr>"

definition ex_vendor :: env where
  "ex_vendor = (toy_env [])\<lparr>en_sign := (\<lambda>k m. ''sig''), en_verify := (\<lambda>pub m s. pub = prod_key \<and> s = ''sig'')\<rparr>"

lemma ex_license_token: "license_sign ex_vendor ex_license_codec [] ex_license = (ex_license\<lparr>li_Product := ''warrant''\<rparr>, Some ''TDE.c2ln'')"
proof -
  have "raw_url_encode ''L1'' = ''TDE''" "raw_url_encode ''sig'' = ''c2ln''" by code_simp+
  then show ?thesis by (simp add: license_sign_def ex_license_def ex_license_codec_def ex_vendor_def Let_def)
qed

theorem license_roundtrip_witness:
  "license_verify ex_vendor ex_license_codec False ''TDE.c2ln'' = Inr (ex_license\<lparr>li_Product := ''warrant''\<rparr>)
     \<and> st_State (resolve (ex_license\<lparr>li_Product := ''warrant''\<rparr>) (2000 * second)) = StateGrace"
  using license_roundtrip [OF _ _ _ _ _ ex_license_token, of "''L1''" False "2000 * second"]
  by (simp add: ex_vendor_def ex_license_def ex_license_codec_def second_def minute_def zero_time_def time_unix_def)

lemma ex_license_verified: "license_verify ex_vendor ex_license_codec False ''TDE.c2ln'' = Inr (ex_license\<lparr>li_Product := ''warrant''\<rparr>)"
proof -
  have "trim_space ''TDE.c2ln'' = ''TDE.c2ln''" "raw_url_decode True ''TDE'' = Some ''L1''" "raw_url_decode True ''c2ln'' = Some ''sig''"
    by code_simp+
  then have "token_of ex_vendor ex_license_codec False ''TDE.c2ln'' (ex_license\<lparr>li_Product := ''warrant''\<rparr>)"
    unfolding token_of_def
    by (intro exI [of _ "''TDE''"] exI [of _ "''c2ln''"] exI [of _ "''L1''"] exI [of _ "''sig''"])
      (simp add: ex_vendor_def ex_license_def ex_license_codec_def)
  then show ?thesis by (simp add: license_verify_Inr)
qed

theorem license_spellings_witness:
  "license_verify ex_vendor ex_license_codec False (''TDE.c2'' @ CHR 0x0A # ''ln'') = Inr (ex_license\<lparr>li_Product := ''warrant''\<rparr>)"
proof -
  have "trim_space ''TDE.c2ln'' = ''TDE'' @ ''.'' @ ''c2'' @ ''ln''" by code_simp
  from license_spellings [OF ex_license_verified this] show ?thesis by (simp add: Let_def)
qed

end
