(* ===== verification/Key_File.thy ===== *)
theory Key_File
  imports Receipt
begin

section \<open>The receipt signing key on disk (\<^verbatim>\<open>internal/receipt/keyfile.go\<close>)\<close>

text \<open>
  The file system is a map from paths to contents. Every system call of the code can fail; the record
  \<open>sys_calls\<close> holds the outcomes of one run of \<^verbatim>\<open>loadOrCreateSeed\<close> and the random values it draws. The
  function is given twice: as the code writes it (\<open>load_or_create_seed\<close>), and as a machine that makes
  one system call at a time (\<open>seed_step\<close>), so that several processes can start at once or stop
  halfway. Links are copies here, which is sound because no process writes to a file after linking it;
  symbolic links and file modes are left out.
\<close>

subsection \<open>Paths\<close>

text \<open>\<^verbatim>\<open>filepath.Clean\<close>: the stack of the path elements, the last one first.\<close>

fun clean_elems :: "bool \<Rightarrow> string list \<Rightarrow> string list \<Rightarrow> string list" where
  "clean_elems rooted [] stack = rev stack"
| "clean_elems rooted (e # es) stack =
     (if e = [] \<or> e = ''.'' then clean_elems rooted es stack
      else if e = ''..'' then
        (if stack \<noteq> [] \<and> hd stack \<noteq> ''..'' then clean_elems rooted es (tl stack)
         else if rooted then clean_elems rooted es stack
         else clean_elems rooted es (e # stack))
      else clean_elems rooted es (e # stack))"

fun join_elems :: "string list \<Rightarrow> string" where
  "join_elems [] = []"
| "join_elems [e] = e"
| "join_elems (e # es) = e @ ''/'' @ join_elems es"

definition clean_path :: "string \<Rightarrow> string" where
  "clean_path p =
     (let rooted = has_prefix p ''/'';
          q = (if rooted then ''/'' else []) @ join_elems (clean_elems rooted (split_byte p (CHR ''/'')) [])
      in if q = [] then ''.'' else q)"

text \<open>\<^verbatim>\<open>filepath.Dir\<close>: what comes before the last separator, with it, cleaned.\<close>

definition path_dir :: "string \<Rightarrow> string" where
  "path_dir p = clean_path (rev (dropWhile (\<lambda>c. c \<noteq> CHR ''/'') (rev p)))"

text \<open>The name \<^verbatim>\<open>os.CreateTemp\<close> makes from a random number.\<close>

definition temp_name :: "string \<Rightarrow> string \<Rightarrow> string" where
  "temp_name path r =
     (let d = path_dir path in (if has_suffix d ''/'' then d else d @ ''/'') @ ''.receipt-key-'' @ r)"

subsection \<open>Reading, writing, and both\<close>

record sys_calls =
  ky_Read :: bool
  ky_Seed :: "string option"
  ky_Mkdir :: bool
  ky_Create :: bool
  ky_Temps :: "string list"
  ky_Chmod :: bool
  ky_Written :: "nat option"
  ky_Sync :: bool
  ky_Close :: bool
  ky_Link :: bool
  ky_Remove :: bool
  ky_Reread :: bool

datatype seed_file_err = SeedMissing | SeedUnreadable | SeedMalformed | SeedLength | SeedRandom | SeedExists | SeedIO

definition read_seed_file :: "bool \<Rightarrow> string \<Rightarrow> string gomap \<Rightarrow> seed_file_err + string" where
  "read_seed_file ok path files =
     (if \<not> ok then Inl SeedUnreadable
      else
        (case lookup files path of
           None \<Rightarrow> Inl SeedMissing
         | Some b \<Rightarrow>
             (case std_decode (trim_space b) of
                None \<Rightarrow> Inl SeedMalformed
              | Some seed \<Rightarrow> if length seed \<noteq> 32 then Inl SeedLength else Inr seed)))"

definition seed_text :: "string \<Rightarrow> string" where
  "seed_text seed = std_encode seed @ [CHR 0x0A]"

text \<open>
  \<^verbatim>\<open>os.CreateTemp\<close> opens the first name that is not taken, and gives up with \<^verbatim>\<open>ErrExist\<close> when all the
  names it tries are. \<open>ky_Written\<close> is how many bytes of a failed write reached the file.
\<close>

definition create_temp :: "sys_calls \<Rightarrow> string \<Rightarrow> string gomap \<Rightarrow> seed_file_err + string" where
  "create_temp c path files =
     (if \<not> ky_Create c then Inl SeedIO
      else
        (case find (\<lambda>t. lookup files t = None) (map (temp_name path) (ky_Temps c)) of
           None \<Rightarrow> Inl SeedExists
         | Some t \<Rightarrow> Inr t))"

definition link_file :: "bool \<Rightarrow> string \<Rightarrow> string \<Rightarrow> string gomap \<Rightarrow> seed_file_err option \<times> string gomap" where
  "link_file ok old new files =
     (if \<not> ok then (Some SeedIO, files)
      else if lookup files new \<noteq> None then (Some SeedExists, files)
      else (None, AList.update new (the (lookup files old)) files))"

definition write_seed_file ::
    "sys_calls \<Rightarrow> string \<Rightarrow> string \<Rightarrow> string gomap \<Rightarrow> seed_file_err option \<times> string gomap" where
  "write_seed_file c path seed files =
     (if \<not> ky_Mkdir c then (Some SeedIO, files)
      else
        (case create_temp c path files of
           Inl e \<Rightarrow> (Some e, files)
         | Inr tmp \<Rightarrow>
             let files1 = AList.update tmp [] files;
                 (err, files2) =
                   (if \<not> ky_Chmod c then (Some SeedIO, files1)
                    else
                      (case ky_Written c of
                         Some n \<Rightarrow> (Some SeedIO, AList.update tmp (take n (seed_text seed)) files1)
                       | None \<Rightarrow>
                           let files2 = AList.update tmp (seed_text seed) files1 in
                           if \<not> ky_Sync c then (Some SeedIO, files2)
                           else if \<not> ky_Close c then (Some SeedIO, files2)
                           else link_file (ky_Link c) tmp path files2))
             in (err, if ky_Remove c then AList.delete tmp files2 else files2)))"

definition load_or_create_seed ::
    "sys_calls \<Rightarrow> string \<Rightarrow> string gomap \<Rightarrow> (seed_file_err + string) \<times> string gomap" where
  "load_or_create_seed c path files =
     (case read_seed_file (ky_Read c) path files of
        Inr seed \<Rightarrow> (Inr seed, files)
      | Inl e \<Rightarrow>
          if e \<noteq> SeedMissing then (Inl e, files)
          else
            (case ky_Seed c of
               None \<Rightarrow> (Inl SeedRandom, files)
             | Some seed \<Rightarrow>
                 (case write_seed_file c path seed files of
                    (None, files1) \<Rightarrow> (Inr seed, files1)
                  | (Some e, files1) \<Rightarrow>
                      if e = SeedExists then (read_seed_file (ky_Reread c) path files1, files1)
                      else (Inl e, files1))))"

subsection \<open>The signer\<close>

definition default_key_file :: "(string \<Rightarrow> string) \<Rightarrow> string option \<Rightarrow> string" where
  "default_key_file env config_dir =
     (if env ''WARRANT_RECEIPT_KEY_FILE'' \<noteq> [] then env ''WARRANT_RECEIPT_KEY_FILE''
      else
        (case config_dir of
           None \<Rightarrow> []
         | Some d \<Rightarrow> clean_path (d @ (if d = [] then [] else ''/'') @ ''warrant/receipt.key'')))"

text \<open>
  \<open>fresh\<close> is the key of \<^verbatim>\<open>ed25519.GenerateKey\<close>, whose failure is the only error. The key is the private
  one, from which the envelope code takes the public one.
\<close>

definition inline_seed :: "(string \<Rightarrow> string) \<Rightarrow> string option" where
  "inline_seed env =
     (if env ''WARRANT_RECEIPT_KEY'' = [] then None
      else
        (case std_decode (trim_space (env ''WARRANT_RECEIPT_KEY'')) of
           None \<Rightarrow> None
         | Some b \<Rightarrow> if length b = 32 then Some b else None))"

definition load_or_create_signer ::
    "'z env_scheme \<Rightarrow> (string \<Rightarrow> string) \<Rightarrow> string option \<Rightarrow> sys_calls \<Rightarrow> string option \<Rightarrow> string \<Rightarrow> string gomap
       \<Rightarrow> string option \<times> string gomap" where
  "load_or_create_signer E env config_dir c fresh keyFile files =
     (case inline_seed env of
        Some b \<Rightarrow> (Some (en_from_seed E b), files)
      | None \<Rightarrow>
          let path = (if keyFile = [] then default_key_file env config_dir else keyFile) in
          if path \<noteq> [] then
            (case load_or_create_seed c path files of
               (Inr seed, files1) \<Rightarrow> (Some (en_from_seed E seed), files1)
             | (Inl _, files1) \<Rightarrow> (fresh, files1))
          else (fresh, files))"

text \<open>\<^verbatim>\<open>sync.Once\<close>: the process keeps the first result, an error too.\<close>

definition default_signer ::
    "'z env_scheme \<Rightarrow> (string \<Rightarrow> string) \<Rightarrow> string option \<Rightarrow> sys_calls \<Rightarrow> string option \<Rightarrow>
       string option option \<times> string gomap \<Rightarrow> string option \<times> string option option \<times> string gomap" where
  "default_signer E env config_dir c fresh s =
     (case s of
        (Some r, files) \<Rightarrow> (r, Some r, files)
      | (None, files) \<Rightarrow>
          (case load_or_create_signer E env config_dir c fresh [] files of (r, files1) \<Rightarrow> (r, Some r, files1)))"

subsection \<open>One system call at a time\<close>

text \<open>Where a process is; from \<open>AtChmod\<close> on with the seed it drew and the temporary file it owns.\<close>

datatype seed_pc =
    AtRead
  | AtMkdir string
  | AtCreate string
  | AtChmod string string
  | AtWrite string string
  | AtSync string string
  | AtClose string string
  | AtLink string string
  | AtRemove "seed_file_err option" string string
  | AtReread
  | AtDone "seed_file_err + string"

definition written_result :: "seed_file_err option \<Rightarrow> string \<Rightarrow> seed_pc" where
  "written_result err seed =
     (case err of None \<Rightarrow> AtDone (Inr seed) | Some e \<Rightarrow> if e = SeedExists then AtReread else AtDone (Inl e))"

fun seed_step :: "string \<Rightarrow> sys_calls \<Rightarrow> seed_pc \<Rightarrow> string gomap \<Rightarrow> seed_pc \<times> string gomap" where
  "seed_step path c AtRead files =
     ((case read_seed_file (ky_Read c) path files of
         Inr seed \<Rightarrow> AtDone (Inr seed)
       | Inl e \<Rightarrow>
           if e \<noteq> SeedMissing then AtDone (Inl e)
           else (case ky_Seed c of None \<Rightarrow> AtDone (Inl SeedRandom) | Some seed \<Rightarrow> AtMkdir seed)), files)"
| "seed_step path c (AtMkdir seed) files = (if ky_Mkdir c then AtCreate seed else AtDone (Inl SeedIO), files)"
| "seed_step path c (AtCreate seed) files =
     (case create_temp c path files of
        Inl e \<Rightarrow> (written_result (Some e) seed, files)
      | Inr tmp \<Rightarrow> (AtChmod seed tmp, AList.update tmp [] files))"
| "seed_step path c (AtChmod seed tmp) files =
     (if ky_Chmod c then AtWrite seed tmp else AtRemove (Some SeedIO) seed tmp, files)"
| "seed_step path c (AtWrite seed tmp) files =
     (case ky_Written c of
        Some n \<Rightarrow> (AtRemove (Some SeedIO) seed tmp, AList.update tmp (take n (seed_text seed)) files)
      | None \<Rightarrow> (AtSync seed tmp, AList.update tmp (seed_text seed) files))"
| "seed_step path c (AtSync seed tmp) files =
     (if ky_Sync c then AtClose seed tmp else AtRemove (Some SeedIO) seed tmp, files)"
| "seed_step path c (AtClose seed tmp) files =
     (if ky_Close c then AtLink seed tmp else AtRemove (Some SeedIO) seed tmp, files)"
| "seed_step path c (AtLink seed tmp) files =
     (case link_file (ky_Link c) tmp path files of (err, files1) \<Rightarrow> (AtRemove err seed tmp, files1))"
| "seed_step path c (AtRemove err seed tmp) files =
     (written_result err seed, if ky_Remove c then AList.delete tmp files else files)"
| "seed_step path c AtReread files = (AtDone (read_seed_file (ky_Reread c) path files), files)"
| "seed_step path c (AtDone r) files = (AtDone r, files)"

text \<open>
  Processes that share the file system: a schedule names the process that makes the next call, and the
  outcomes that call may have. A process that is not named again has stopped, at that very call.
\<close>

fun seed_run ::
    "string \<Rightarrow> (nat \<times> sys_calls) list \<Rightarrow> seed_pc list \<times> string gomap \<Rightarrow> seed_pc list \<times> string gomap" where
  "seed_run path [] st = st"
| "seed_run path ((i, c) # sch) (pcs, files) =
     (if i < length pcs then
        (case seed_step path c (pcs ! i) files of (pc, files1) \<Rightarrow> seed_run path sch (pcs[i := pc], files1))
      else seed_run path sch (pcs, files))"

definition run_alone :: "nat \<Rightarrow> string \<Rightarrow> sys_calls \<Rightarrow> string gomap \<Rightarrow> seed_pc \<times> string gomap" where
  "run_alone n path c files = ((\<lambda>(pc, fs). seed_step path c pc fs) ^^ n) (AtRead, files)"

subsection \<open>Lemmas\<close>

lemma run_alone_done: "run_alone n path c files = (AtDone r, files') \<Longrightarrow> n \<le> m \<Longrightarrow> run_alone m path c files = (AtDone r, files')"
  by (induction m) (auto simp: run_alone_def le_Suc_eq)

lemma run_alone_write:
  assumes "read_seed_file (ky_Read c) path files = Inl SeedMissing" and "ky_Seed c = Some seed"
    and "write_seed_file c path seed files = (err, files')"
  shows "\<exists>n \<le> 9. run_alone n path c files = (written_result err seed, files')"
proof -
  have steps: "run_alone (Suc n) path c files = (\<lambda>(pc, fs). seed_step path c pc fs) (run_alone n path c files)" for n
    by (simp add: run_alone_def)
  have one: "run_alone 1 path c files = (AtMkdir seed, files)"
    using assms(1,2) by (simp add: run_alone_def)
  show ?thesis
  proof (cases "ky_Mkdir c")
    case True
    then have two: "run_alone 2 path c files = (AtCreate seed, files)"
      using one steps [of 1] by (simp add: numeral_2_eq_2)
    show ?thesis
    proof (cases "create_temp c path files")
      case (Inl e)
      with True assms(3) two steps [of 2] show ?thesis
        by (intro exI [of _ 3]) (simp add: write_seed_file_def written_result_def)
    next
      case (Inr tmp)
      note w = assms(3) [unfolded write_seed_file_def] True Inr
      have three: "run_alone 3 path c files = (AtChmod seed tmp, AList.update tmp [] files)"
        using two steps [of 2] Inr by simp
      note s = three steps [of 3] steps [of 4] steps [of 5] steps [of 6] steps [of 7] steps [of 8]
      consider (chmod) "\<not> ky_Chmod c" | (short) n where "ky_Chmod c" "ky_Written c = Some n"
        | (sync) "ky_Chmod c" "ky_Written c = None" "\<not> ky_Sync c"
        | (close) "ky_Chmod c" "ky_Written c = None" "ky_Sync c" "\<not> ky_Close c"
        | (link) "ky_Chmod c" "ky_Written c = None" "ky_Sync c" "ky_Close c"
        by (cases "ky_Written c") auto
      then show ?thesis
      proof cases
        case chmod with w s show ?thesis by (intro exI [of _ 5]) auto
      next
        case short with w s show ?thesis by (intro exI [of _ 6]) auto
      next
        case sync with w s show ?thesis by (intro exI [of _ 7]) auto
      next
        case close with w s show ?thesis by (intro exI [of _ 8]) auto
      next
        case link with w s show ?thesis by (intro exI [of _ 9]) (auto split: prod.splits)
      qed
    qed
  qed (use assms one steps [of 1] in \<open>auto simp: write_seed_file_def written_result_def numeral_2_eq_2 intro: exI [of _ 2]\<close>)
qed

lemma run_alone_load:
  assumes "load_or_create_seed c path files = (r, files')"
  shows "run_alone 10 path c files = (AtDone r, files')"
proof (cases "read_seed_file (ky_Read c) path files = Inl SeedMissing \<and> ky_Seed c \<noteq> None")
  case False
  with assms have "run_alone 1 path c files = (AtDone r, files')"
    by (auto simp: run_alone_def load_or_create_seed_def split: sum.splits option.splits if_splits)
  then show ?thesis by (rule run_alone_done) simp
next
  case True
  then obtain seed where seed: "read_seed_file (ky_Read c) path files = Inl SeedMissing" "ky_Seed c = Some seed" by blast
  obtain err files1 where w: "write_seed_file c path seed files = (err, files1)" by fastforce
  then obtain n where n: "n \<le> 9" "run_alone n path c files = (written_result err seed, files1)"
    using run_alone_write seed by blast
  then have "run_alone (Suc n) path c files = (AtDone r, files')"
    using assms seed w by (auto simp: run_alone_def load_or_create_seed_def written_result_def split: option.splits if_splits)
  then show ?thesis by (rule run_alone_done) (use n in simp)
qed

subsection \<open>Processes that start together\<close>

lemma std_encode_chars: "set (std_encode s) \<subseteq> insert (CHR ''='') (set std_alphabet)"
  using to_sextets_less [OF bytes_less] by (auto simp: std_encode_def alphabets Let_def)

lemma trim_space_snoc: "\<forall>c \<in> set s. \<not> is_space c \<Longrightarrow> is_space x \<Longrightarrow> trim_space (s @ [x]) = s"
proof -
  assume s: "\<forall>c \<in> set s. \<not> is_space c" and x: "is_space x"
  have keep: "\<forall>c \<in> set u. \<not> is_space c \<Longrightarrow> dropWhile is_space u = u" for u
    by (cases u) auto
  show ?thesis using s x keep [of "rev s"] by (cases s) (auto simp: trim_space_def)
qed

lemma trim_seed_text: "trim_space (seed_text s) = std_encode s"
proof -
  have "list_all (\<lambda>c. \<not> is_space c) (CHR ''='' # std_alphabet)" and "is_space (CHR 0x0A)"
    by code_simp+
  then show ?thesis
    unfolding seed_text_def using std_encode_chars [of s] by (intro trim_space_snoc) (auto simp: list_all_iff)
qed

lemma read_seed_text [simp]: "lookup files path = Some (seed_text s) \<Longrightarrow> length s = 32 \<Longrightarrow> read_seed_file True path files = Inr s"
  by (simp add: read_seed_file_def trim_seed_text)

lemma read_seed_file_ok: "read_seed_file ok path files = Inr s \<Longrightarrow> read_seed_file True path files = Inr s"
  by (auto simp: read_seed_file_def split: if_splits)

lemma read_seed_file_cong: "lookup files path = lookup files' path \<Longrightarrow> read_seed_file ok path files = read_seed_file ok path files'"
  by (simp add: read_seed_file_def)

lemma read_seed_file_exists: "read_seed_file ok path files = Inr s \<Longrightarrow> lookup files path \<noteq> None"
  by (auto simp: read_seed_file_def split: if_splits option.splits)

lemma temp_name_not_path: "\<not> sublist ''.receipt-key-'' path \<Longrightarrow> temp_name q r \<noteq> path"
  unfolding temp_name_def Let_def using sublist_appendI by metis

text \<open>The temporary file a process owns, and what its state says about the file system.\<close>

fun pc_temp :: "seed_pc \<Rightarrow> string option" where
  "pc_temp (AtChmod s t) = Some t"
| "pc_temp (AtWrite s t) = Some t"
| "pc_temp (AtSync s t) = Some t"
| "pc_temp (AtClose s t) = Some t"
| "pc_temp (AtLink s t) = Some t"
| "pc_temp (AtRemove e s t) = Some t"
| "pc_temp _ = None"

fun pc_facts :: "string \<Rightarrow> string gomap \<Rightarrow> seed_pc \<Rightarrow> bool" where
  "pc_facts path files (AtMkdir s) = (length s = 32)"
| "pc_facts path files (AtCreate s) = (length s = 32)"
| "pc_facts path files (AtChmod s t) = (length s = 32)"
| "pc_facts path files (AtWrite s t) = (length s = 32)"
| "pc_facts path files (AtSync s t) = (length s = 32 \<and> lookup files t = Some (seed_text s))"
| "pc_facts path files (AtClose s t) = (length s = 32 \<and> lookup files t = Some (seed_text s))"
| "pc_facts path files (AtLink s t) = (length s = 32 \<and> lookup files t = Some (seed_text s))"
| "pc_facts path files (AtRemove None s t) = (read_seed_file True path files = Inr s)"
| "pc_facts path files (AtDone (Inr s)) = (read_seed_file True path files = Inr s)"
| "pc_facts path files _ = True"

definition pc_ok :: "string \<Rightarrow> string gomap \<Rightarrow> seed_pc \<Rightarrow> bool" where
  "pc_ok path files pc \<longleftrightarrow> pc_facts path files pc \<and> (\<forall>t. pc_temp pc = Some t \<longrightarrow> t \<noteq> path \<and> lookup files t \<noteq> None)"

text \<open>What a call of one process does to the files of the others.\<close>

definition undisturbed :: "string \<Rightarrow> string option \<Rightarrow> string gomap \<Rightarrow> string gomap \<Rightarrow> bool" where
  "undisturbed path own files files' \<longleftrightarrow>
     (\<forall>n. n \<noteq> path \<longrightarrow> own \<noteq> Some n \<longrightarrow> lookup files n \<noteq> None \<longrightarrow> lookup files' n = lookup files n) \<and>
     (lookup files path \<noteq> None \<longrightarrow> lookup files' path = lookup files path) \<and>
     (lookup files path = None \<longrightarrow> lookup files' path = None \<or> (\<exists>s. length s = 32 \<and> lookup files' path = Some (seed_text s)))"

lemma create_temp_Inr:
  "create_temp c path files = Inr t \<Longrightarrow> \<not> sublist ''.receipt-key-'' path \<Longrightarrow> lookup files t = None \<and> t \<noteq> path"
  by (auto simp: create_temp_def find_Some_iff temp_name_not_path split: if_splits option.splits)

lemma pc_ok_frame:
  assumes "pc_ok path files pc" and "undisturbed path own files files'" and "pc_temp pc = None \<or> pc_temp pc \<noteq> own"
  shows "pc_ok path files' pc"
proof -
  have temp: "lookup files' t = lookup files t" if "pc_temp pc = Some t" for t
    using assms that by (auto simp: pc_ok_def undisturbed_def)
  have key: "read_seed_file True path files' = Inr s" if "read_seed_file True path files = Inr s" for s
    using that assms(2) read_seed_file_exists [OF that] read_seed_file_cong [of files path files' True]
    by (simp add: undisturbed_def)
  have "pc_facts path files pc \<Longrightarrow> pc_facts path files' pc"
    by (cases "(path, files, pc)" rule: pc_facts.cases) (use temp key in auto)
  with assms(1) temp show ?thesis by (auto simp: pc_ok_def)
qed

lemma undisturbed_refl [simp]: "undisturbed path own files files"
  by (simp add: undisturbed_def)

lemma undisturbed_own: "t \<noteq> path \<Longrightarrow> undisturbed path (Some t) files (AList.update t v files)"
    "t \<noteq> path \<Longrightarrow> undisturbed path (Some t) files (AList.delete t files)"
    "lookup files t = None \<Longrightarrow> t \<noteq> path \<Longrightarrow> undisturbed path own files (AList.update t v files)"
  by (auto simp: undisturbed_def update_conv' delete_conv')

lemma seed_step_ok:
  assumes "pc_ok path files pc" and "seed_step path c pc files = (pc', files')"
    and "\<not> sublist ''.receipt-key-'' path" and "\<And>s. ky_Seed c = Some s \<Longrightarrow> length s = 32"
  shows "pc_ok path files' pc' \<and> undisturbed path (pc_temp pc) files files' \<and>
    (\<forall>t. pc_temp pc' = Some t \<longrightarrow> pc_temp pc = Some t \<or> lookup files t = None)"
proof (cases pc)
  case AtRead
  with assms show ?thesis by (auto simp: pc_ok_def dest: read_seed_file_ok split: sum.splits option.splits if_splits)
next
  case (AtCreate s)
  with assms show ?thesis
    by (auto simp: pc_ok_def written_result_def update_conv' intro!: undisturbed_own(3) dest: create_temp_Inr
        split: sum.splits if_splits)
next
  case (AtWrite s t)
  with assms show ?thesis
    by (auto simp: pc_ok_def update_conv' intro: undisturbed_own split: option.splits)
next
  case (AtLink s t)
  with assms show ?thesis
    by (auto simp: pc_ok_def link_file_def update_conv' undisturbed_def split: if_splits)
next
  case (AtRemove err s t)
  have "read_seed_file True path (AList.delete t files) = read_seed_file True path files" if "t \<noteq> path"
    using that by (intro read_seed_file_cong) (simp add: delete_conv')
  with AtRemove assms show ?thesis
    by (auto simp: pc_ok_def written_result_def intro: undisturbed_own split: option.splits if_splits)
next
  case AtReread
  with assms show ?thesis
    by (cases "read_seed_file (ky_Reread c) path files") (auto simp: pc_ok_def dest: read_seed_file_ok)
next
  case (AtDone r)
  with assms show ?thesis by auto
qed (use assms in \<open>auto simp: pc_ok_def written_result_def dest: read_seed_file_ok split: if_splits\<close>)


definition procs_ok :: "string \<Rightarrow> seed_pc list \<times> string gomap \<Rightarrow> bool" where
  "procs_ok path st \<longleftrightarrow>
     (\<forall>pc \<in> set (fst st). pc_ok path (snd st) pc) \<and>
     (\<forall>i < length (fst st). \<forall>j < length (fst st). \<forall>t.
        pc_temp (fst st ! i) = Some t \<longrightarrow> pc_temp (fst st ! j) = Some t \<longrightarrow> i = j)"

lemma procs_ok_step:
  assumes "procs_ok path (pcs, files)" and "i < length pcs" and "seed_step path c (pcs ! i) files = (pc', files')"
    and "\<not> sublist ''.receipt-key-'' path" and "\<And>s. ky_Seed c = Some s \<Longrightarrow> length s = 32"
  shows "procs_ok path (pcs[i := pc'], files')" and "undisturbed path (pc_temp (pcs ! i)) files files'"
proof -
  have pc: "pc_ok path files (pcs ! j)" if "j < length pcs" for j
    using assms(1) that by (simp add: procs_ok_def)
  note step = seed_step_ok [OF pc [OF assms(2)] assms(3-5)]
  then show "undisturbed path (pc_temp (pcs ! i)) files files'" by blast
  have apart: "pc_temp (pcs ! j) = None \<or> pc_temp (pcs ! j) \<noteq> pc_temp (pcs ! i)" if "j < length pcs" "j \<noteq> i" for j
    using assms(1,2) that unfolding procs_ok_def by (metis fst_conv option.exhaust)
  have "pc_ok path files' (pcs[i := pc'] ! j)" if "j < length pcs" for j
    using that step pc_ok_frame [OF pc [OF that] _ apart [OF that]] by (cases "j = i") auto
  moreover have fresh: "pc_temp (pcs ! j) \<noteq> Some t" if "pc_temp pc' = Some t" "j < length pcs" "j \<noteq> i" for j t
    using that step pc [OF that(2)] apart [OF that(2,3)] by (auto simp: pc_ok_def)
  moreover have "a = b" if "a < length pcs" "b < length pcs" "pc_temp (pcs[i := pc'] ! a) = Some t"
      "pc_temp (pcs[i := pc'] ! b) = Some t" for a b t
  proof -
    have old: "pc_temp (pcs ! a) = Some t \<Longrightarrow> pc_temp (pcs ! b) = Some t \<Longrightarrow> a = b"
      using assms(1) that(1,2) by (simp add: procs_ok_def)
    show ?thesis
      using that old fresh by (metis nth_list_update_eq nth_list_update_neq)
  qed
  ultimately show "procs_ok path (pcs[i := pc'], files')"
    unfolding procs_ok_def by (simp add: all_set_conv_all_nth)
qed

text \<open>What a schedule leaves of the key file.\<close>

definition key_kept :: "string \<Rightarrow> string gomap \<Rightarrow> string gomap \<Rightarrow> bool" where
  "key_kept path files files' \<longleftrightarrow>
     (lookup files path \<noteq> None \<longrightarrow> lookup files' path = lookup files path) \<and>
     (lookup files path = None \<longrightarrow> lookup files' path = None \<or> (\<exists>s. length s = 32 \<and> lookup files' path = Some (seed_text s)))"

lemma key_kept_trans: "undisturbed path own a b \<Longrightarrow> key_kept path b c \<Longrightarrow> key_kept path a c"
  by (auto simp: key_kept_def undisturbed_def)

lemma seed_run_ok:
  assumes "\<not> sublist ''.receipt-key-'' path" and "\<And>i c s. (i, c) \<in> set sch \<Longrightarrow> ky_Seed c = Some s \<Longrightarrow> length s = 32"
    and "procs_ok path st"
  shows "procs_ok path (seed_run path sch st) \<and> key_kept path (snd st) (snd (seed_run path sch st))"
  using assms
proof (induction path sch st rule: seed_run.induct)
  case (2 path i c sch pcs files)
  show ?case
  proof (cases "i < length pcs")
    case True
    obtain pc files1 where s: "seed_step path c (pcs ! i) files = (pc, files1)" by fastforce
    have c: "\<And>s. ky_Seed c = Some s \<Longrightarrow> length s = 32" using "2.prems"(2) by auto
    have ok: "procs_ok path (pcs[i := pc], files1)" and kept: "undisturbed path (pc_temp (pcs ! i)) files files1"
      using procs_ok_step [OF "2.prems"(3) True s "2.prems"(1)] c by auto
    have "key_kept path files1 (snd (seed_run path sch (pcs[i := pc], files1)))
        \<and> procs_ok path (seed_run path sch (pcs[i := pc], files1))"
      using "2.IH"(1) [OF True s [symmetric]] "2.prems" ok by auto
    with key_kept_trans [OF kept] True s show ?thesis by simp
  qed (use 2 in auto)
qed (simp_all add: key_kept_def)

text \<open>How many calls of its own a process has left at most.\<close>

fun calls_left :: "seed_pc \<Rightarrow> nat" where
  "calls_left AtRead = 10"
| "calls_left (AtMkdir s) = 9"
| "calls_left (AtCreate s) = 8"
| "calls_left (AtChmod s t) = 7"
| "calls_left (AtWrite s t) = 6"
| "calls_left (AtSync s t) = 5"
| "calls_left (AtClose s t) = 4"
| "calls_left (AtLink s t) = 3"
| "calls_left (AtRemove e s t) = 2"
| "calls_left AtReread = 1"
| "calls_left (AtDone r) = 0"

lemma calls_left_0 [simp]: "calls_left pc = 0 \<longleftrightarrow> (\<exists>r. pc = AtDone r)"
  by (cases pc) auto

lemma calls_left_step: "calls_left (fst (seed_step path c pc files)) \<le> calls_left pc - 1"
  by (cases "(path, c, pc, files)" rule: seed_step.cases) (auto simp: written_result_def split: sum.splits option.splits prod.splits)

lemma seed_run_calls:
  "i < length (fst st) \<Longrightarrow>
     calls_left (fst (seed_run path sch st) ! i) \<le> calls_left (fst st ! i) - count_list (map fst sch) i"
proof (induction path sch st rule: seed_run.induct)
  case (2 path j c sch pcs files)
  show ?case
  proof (cases "j < length pcs")
    case True
    obtain pc files1 where s: "seed_step path c (pcs ! j) files = (pc, files1)" by fastforce
    with "2.IH"(1) [OF True s [symmetric]] "2.prems" True calls_left_step [of path c "pcs ! j" files] show ?thesis
      by (cases "i = j") auto
  qed (use 2 in auto)
qed simp

lemma seed_run_length [simp]: "length (fst (seed_run path sch st)) = length (fst st)"
  by (induction path sch st rule: seed_run.induct) (auto split: prod.splits)

lemma procs_ok_start: "procs_ok path (replicate n AtRead, files)"
  by (simp add: procs_ok_def pc_ok_def)

lemma run_alone_ok:
  assumes "\<not> sublist ''.receipt-key-'' path" and "\<And>s. ky_Seed c = Some s \<Longrightarrow> length s = 32"
  shows "run_alone n path c files = (pc, files') \<Longrightarrow> pc_ok path files' pc"
proof (induction n arbitrary: pc files')
  case (Suc n)
  obtain pc1 files1 where "run_alone n path c files = (pc1, files1)" by fastforce
  moreover from this Suc.prems have "seed_step path c pc1 files1 = (pc, files')" by (simp add: run_alone_def)
  ultimately show ?case using Suc.IH seed_step_ok assms by blast
qed (simp add: run_alone_def pc_ok_def)

subsection \<open>Properties\<close>

text \<open>
  The machine that makes one system call at a time is a refinement of the code: run alone, it
  is done after at most ten calls, with the result \<^verbatim>\<open>loadOrCreateSeed\<close> returns and the files it leaves,
  whatever calls fail.
\<close>

theorem seed_machine_refines:
  "run_alone 10 path c files = (case load_or_create_seed c path files of (r, files') \<Rightarrow> (AtDone r, files'))"
  by (simp add: run_alone_load split: prod.splits)

text \<open>
  \<^bold>\<open>C18.\<close> Any number of processes start at once on one key file, and their system calls interleave in any
  order, any of them failing, and any process stopping anywhere. A key file that exists is never
  changed. One that did not exist is still missing, or holds a whole seed: it is never seen half written.
  Every process that ends with a seed has the seed the file holds, so they all sign with one key; and
  each is done after ten calls of its own, however the others behave.
\<close>

theorem first_runs_agree:
  assumes "\<not> sublist ''.receipt-key-'' path"
    and "\<forall>(i, c) \<in> set sch. \<forall>s. ky_Seed c = Some s \<longrightarrow> length s = 32"
    and "seed_run path sch (replicate n AtRead, files) = (pcs, files')"
  shows "(lookup files path \<noteq> None \<longrightarrow> lookup files' path = lookup files path) \<and>
    (lookup files path = None \<longrightarrow>
      lookup files' path = None \<or> (\<exists>s. length s = 32 \<and> lookup files' path = Some (seed_text s))) \<and>
    (\<forall>s. AtDone (Inr s) \<in> set pcs \<longrightarrow> read_seed_file True path files' = Inr s) \<and>
    (\<forall>i < n. 10 \<le> count_list (map fst sch) i \<longrightarrow> (\<exists>r. pcs ! i = AtDone r))"
proof -
  have run: "procs_ok path (pcs, files')" "key_kept path files files'"
    using seed_run_ok [OF assms(1) _ procs_ok_start [of path n files], of sch] assms(2,3) by auto
  have "\<forall>s. AtDone (Inr s) \<in> set pcs \<longrightarrow> read_seed_file True path files' = Inr s"
    using run(1) by (auto simp: procs_ok_def pc_ok_def)
  moreover have "\<forall>i < n. 10 \<le> count_list (map fst sch) i \<longrightarrow> (\<exists>r. pcs ! i = AtDone r)"
    using seed_run_calls [of _ "(replicate n AtRead, files)" path sch] assms(3) by fastforce
  ultimately show ?thesis
    using run(2) unfolding key_kept_def by blast
qed

definition ex_calls :: "string \<Rightarrow> string \<Rightarrow> sys_calls" where
  "ex_calls seed r =
     \<lparr>ky_Read = True, ky_Seed = Some seed, ky_Mkdir = True, ky_Create = True, ky_Temps = [r], ky_Chmod = True,
      ky_Written = None, ky_Sync = True, ky_Close = True, ky_Link = True, ky_Remove = True, ky_Reread = True\<rparr>"

text \<open>Two processes, in step until the link: the first one creates the file, the second one reads it.\<close>

definition ex_race :: "(nat \<times> sys_calls) list" where
  "ex_race = concat (replicate 10 [(0, ex_calls (replicate 32 (CHR ''a'')) ''1''), (1, ex_calls (replicate 32 (CHR ''b'')) ''2'')])"

lemma ex_race_run:
  "seed_run ''k'' ex_race (replicate 2 AtRead, []) =
     ([AtDone (Inr (replicate 32 (CHR ''a''))), AtDone (Inr (replicate 32 (CHR ''a'')))],
      [(''k'', seed_text (replicate 32 (CHR ''a'')))])"
  by code_simp

theorem first_runs_agree_witness:
  "read_seed_file True ''k'' [(''k'', seed_text (replicate 32 (CHR ''a'')))] = Inr (replicate 32 (CHR ''a''))"
proof -
  have "\<not> sublist ''.receipt-key-'' ''k''"
    by (auto simp: sublist_def Cons_eq_append_conv)
  moreover have "\<forall>(i, c) \<in> set ex_race. \<forall>s. ky_Seed c = Some s \<longrightarrow> length s = 32"
    by (auto simp: ex_race_def ex_calls_def)
  ultimately show ?thesis
    using first_runs_agree [OF _ _ ex_race_run] by simp
qed

text \<open>
  The key survives a restart: once the signer has come from the key file, every later call of
  \<^verbatim>\<open>LoadOrCreateSigner\<close> that can read the file returns the same key and leaves the files alone, whatever
  random values it would draw, so the key id that receipts carry does not change.
\<close>

theorem signer_survives_restart:
  assumes "inline_seed env = None" and "path = (if keyFile = [] then default_key_file env dir else keyFile)" and "path \<noteq> []"
    and "\<not> sublist ''.receipt-key-'' path" and "\<forall>s. ky_Seed c = Some s \<longrightarrow> length s = 32"
    and "load_or_create_seed c path files = (Inr s, files')" and "ky_Read c'"
  shows "load_or_create_signer E env dir c fresh keyFile files = (Some (en_from_seed E s), files')
    \<and> load_or_create_signer E env dir c' fresh' keyFile files' = (Some (en_from_seed E s), files')"
proof -
  have "pc_ok path files' (AtDone (Inr s))"
    using run_alone_ok [OF assms(4) _ run_alone_load [OF assms(6)]] assms(5) by blast
  with assms(7) have "load_or_create_seed c' path files' = (Inr s, files')"
    by (simp add: pc_ok_def load_or_create_seed_def)
  with assms(1-3,6) show ?thesis by (auto simp: load_or_create_signer_def Let_def)
qed

theorem signer_survives_restart_witness:
  "load_or_create_signer (toy_env []) (\<lambda>_. []) (Some ''/root/.config'') (ex_calls (replicate 32 (CHR ''b'')) ''2'') None []
     [(''/root/.config/warrant/receipt.key'', seed_text (replicate 32 (CHR ''a'')))] =
   (Some (en_from_seed (toy_env []) (replicate 32 (CHR ''a''))),
     [(''/root/.config/warrant/receipt.key'', seed_text (replicate 32 (CHR ''a'')))])"
proof -
  let ?p = "''/root/.config/warrant/receipt.key''"
  have p: "?p = default_key_file (\<lambda>_. []) (Some ''/root/.config'')"
    by code_simp
  have l: "load_or_create_seed (ex_calls (replicate 32 (CHR ''a'')) ''1'') ?p []
      = (Inr (replicate 32 (CHR ''a'')), [(?p, seed_text (replicate 32 (CHR ''a'')))])"
    by code_simp
  have n: "\<not> sublist ''.receipt-key-'' ?p"
    by (simp add: sublist_code)
  show ?thesis
    using signer_survives_restart [OF _ _ _ n _ l, of "\<lambda>_. []" "[]" "Some ''/root/.config''"
        "ex_calls (replicate 32 (CHR ''b'')) ''2''" "toy_env []" None None] p [symmetric]
    by (simp add: inline_seed_def ex_calls_def)
qed

end
