(* ===== verification/Warrantd.thy ===== *)
theory Warrantd
  imports Warrant_System Ledger_Spool License Key_File
begin

section \<open>The server and its commands (\<^verbatim>\<open>cmd/warrantd\<close>)\<close>

text \<open>
  What the process does before it serves: it reads its environment, opens its files and puts the
  components together, or stops. \<open>build_service\<close>, \<open>serve_main\<close> and \<open>run_gateway\<close> return
  what \<^verbatim>\<open>log.Fatal\<close> would stop on, or the configured components that the HTTP servers then serve; the
  subcommands return what they print. The state is the file system of the receipt key. What the process
  logs is left out, and of the usage texts only which one is printed is kept.
\<close>

subsection \<open>The environment\<close>

text \<open>
  \<open>pf_store\<close> opens the store: of a Postgres URL, or in memory. \<open>pf_random\<close> is the key that
  \<^verbatim>\<open>ed25519.GenerateKey\<close> makes for the token signer, \<open>pf_fresh\<close> that for the receipt signer, and
  \<open>pf_spool\<close> says whether the spool of a directory can be opened.
\<close>

record 's platform =
  pf_env :: "string \<Rightarrow> string"
  pf_read :: "string \<Rightarrow> string option"
  pf_policy :: "string \<Rightarrow> policy_set option"
  pf_routes :: "string \<Rightarrow> route list option"
  pf_store :: "string option \<Rightarrow> 's store_ops option"
  pf_random :: "string option"
  pf_spool :: "string \<Rightarrow> bool"
  pf_config_dir :: "string option"
  pf_calls :: sys_calls
  pf_fresh :: "string option"

definition env_or :: "(string \<Rightarrow> string) \<Rightarrow> string \<Rightarrow> string \<Rightarrow> string" where
  "env_or env k d = (if env k \<noteq> [] then env k else d)"

text \<open>
  \<^verbatim>\<open>strconv.ParseInt\<close> in base 10 for 64 bits, which \<^verbatim>\<open>Atoi\<close> is: a value and whether there was no error.
  A syntax error gives 0, a value out of range the nearest one.
\<close>

definition parse_int :: "string \<Rightarrow> int \<times> bool" where
  "parse_int s =
     (let neg = has_prefix s ''-'';
          ds = (if neg \<or> has_prefix s ''+'' then drop 1 s else s) in
      if ds = [] \<or> \<not> list_all (contains digits) ds then (0, False)
      else
        let n = int (nat_of_text ds 0) in
        if neg then (if 2 ^ 63 < n then (- (2 ^ 63), False) else (- n, True))
        else (if 2 ^ 63 \<le> n then (2 ^ 63 - 1, False) else (n, True)))"

datatype fatal =
    FatalPostgres
  | FatalSigningKey
  | FatalSigner seed_err
  | FatalPolicyFile
  | FatalPolicy policy_err
  | FatalLedger
  | FatalReceiptKey
  | FatalAdminToken
  | FatalRoutesFile
  | FatalRoutes routes_err
  | FatalProtocol
  | FatalUpstream
  | FatalLicense require_err

subsection \<open>Assembling the service\<close>

definition open_signer :: "'z env_scheme \<Rightarrow> 's platform \<Rightarrow> fatal + signer" where
  "open_signer E P =
     (let k = pf_env P ''WARRANT_SIGNING_KEY'' in
      case (if k = [] then Inr None else (case std_decode k of None \<Rightarrow> Inl FatalSigningKey | Some b \<Rightarrow> Inr (Some b))) of
        Inl e \<Rightarrow> Inl e
      | Inr seed \<Rightarrow> (case new_signer E seed (pf_random P) of Inl e \<Rightarrow> Inl (FatalSigner e) | Inr sg \<Rightarrow> Inr sg))"

definition load_policy :: "'s platform \<Rightarrow> fatal + policy_set option" where
  "load_policy P =
     (let p = pf_env P ''WARRANT_POLICY'' in
      if p = [] then Inr None
      else
        (case pf_read P p of
           None \<Rightarrow> Inl FatalPolicyFile
         | Some b \<Rightarrow> (case parse_policy (pf_policy P) b of Inl e \<Rightarrow> Inl (FatalPolicy e) | Inr s \<Rightarrow> Inr (Some s))))"

text \<open>The ledger client and its spool directory, if \<^verbatim>\<open>LEDGER_URL\<close> is set.\<close>

definition open_ledger :: "'s platform \<Rightarrow> fatal + (ledger_client \<times> string) option" where
  "open_ledger P =
     (case from_env_spooling (pf_env P) (pf_env P ''LEDGER_SPOOL_DIR'') of
        None \<Rightarrow> Inr None
      | Some (c, dir) \<Rightarrow> if pf_spool P dir then Inr (Some (c, dir)) else Inl FatalLedger)"

definition service_config :: "(string \<Rightarrow> string) \<Rightarrow> config" where
  "service_config env =
     \<lparr>cf_TrustDomain = env_or env ''WARRANT_TRUST_DOMAIN'' ''warrant.local'',
      cf_MaxDepth = fst (parse_int (env_or env ''WARRANT_MAX_DEPTH'' ''1'')),
      cf_MaxTTL = 0, cf_DefaultTTL = 0, cf_SVIDTTL = 0, cf_ApprovalTTL = 0\<rparr>"

definition build_service ::
    "'z env_scheme \<Rightarrow> 's platform \<Rightarrow> string gomap \<Rightarrow> (fatal + 's broker \<times> (ledger_client \<times> string) option) \<times> string gomap" where
  "build_service E P files =
     (let url = pf_env P ''WARRANT_DATABASE_URL'' in
      case pf_store P (if url = [] then None else Some url) of
        None \<Rightarrow> (Inl FatalPostgres, files)
      | Some ops \<Rightarrow>
          (case open_signer E P of
             Inl e \<Rightarrow> (Inl e, files)
           | Inr sg \<Rightarrow>
               (case load_policy P of
                  Inl e \<Rightarrow> (Inl e, files)
                | Inr pol \<Rightarrow>
                    (case open_ledger P of
                       Inl e \<Rightarrow> (Inl e, files)
                     | Inr led \<Rightarrow>
                         let svc = new_broker (service_config (pf_env P)) ops sg pol in
                         (case default_signer E (pf_env P) (pf_config_dir P) (pf_calls P) (pf_fresh P) (None, files) of
                            (None, _, files1) \<Rightarrow> (Inl FatalReceiptKey, files1)
                          | (Some key, _, files1) \<Rightarrow> (Inr (svc\<lparr>br_ReceiptKey := Some key\<rparr>, led), files1))))))"

subsection \<open>The broker and the PEP\<close>

datatype command = CmdHelp | CmdKeys "string list" | CmdGateway "string list" | CmdLicense "string list" | CmdServe

definition is_help :: "string \<Rightarrow> bool" where
  "is_help a \<longleftrightarrow> a = ''help'' \<or> a = ''-h'' \<or> a = ''--help''"

text \<open>\<^verbatim>\<open>main\<close> on the arguments after the program's name.\<close>

definition main_command :: "string list \<Rightarrow> command" where
  "main_command as =
     (case as of
        [] \<Rightarrow> CmdServe
      | a # rest \<Rightarrow>
          if is_help a then CmdHelp
          else if a = ''keys'' then CmdKeys rest
          else if a = ''gateway'' then CmdGateway rest
          else if a = ''license'' then CmdLicense rest
          else CmdServe)"

record 's server =
  sv_Addr :: string
  sv_PEPAddr :: string
  sv_Admin :: string
  sv_Broker :: "'s broker"
  sv_PEP :: "('s, time gomap) pep"
  sv_Ledger :: "(ledger_client \<times> string) option"

definition load_server_routes :: "'s platform \<Rightarrow> fatal + route list" where
  "load_server_routes P =
     (let p = pf_env P ''WARRANT_ROUTES'' in
      if p = [] then Inr []
      else
        (case pf_read P p of
           None \<Rightarrow> Inl FatalRoutesFile
         | Some b \<Rightarrow> (case load_routes (pf_routes P) b of Inl e \<Rightarrow> Inl (FatalRoutes e) | Inr rs \<Rightarrow> Inr rs)))"

definition serve_main :: "'z env_scheme \<Rightarrow> 's platform \<Rightarrow> string gomap \<Rightarrow> (fatal + 's server) \<times> string gomap" where
  "serve_main E P files =
     (let adminTok = pf_env P ''WARRANT_ADMIN_TOKEN'' in
      if adminTok = [] then (Inl FatalAdminToken, files)
      else
        (case build_service E P files of
           (Inl e, files1) \<Rightarrow> (Inl e, files1)
         | (Inr (svc, led), files1) \<Rightarrow>
             (case load_server_routes P of
                Inl e \<Rightarrow> (Inl e, files1)
              | Inr routes \<Rightarrow>
                  (Inr \<lparr>sv_Addr = env_or (pf_env P) ''WARRANT_ADDR'' '':8430'',
                     sv_PEPAddr = env_or (pf_env P) ''WARRANT_PEP_ADDR'' '':8431'', sv_Admin = adminTok,
                     sv_Broker = svc, sv_PEP = new_pep svc routes, sv_Ledger = led\<rparr>, files1))))"

subsection \<open>The gateway\<close>

record 's gateway_server =
  gs_Addr :: string
  gs_Upstream :: string
  gs_Gateway :: "('s, time gomap) gateway"
  gs_Ledger :: "(ledger_client \<times> string) option"

definition protocol_of :: "string \<Rightarrow> protocol" where
  "protocol_of s = (if s = ''mcp'' then MCP else if s = ''a2a'' then A2A else OtherProtocol s)"

text \<open>
  \<open>ld\<close> is the license status the process would load and \<open>cache\<close> the one it has. The result is
  \<^const>\<open>None\<close> when only the usage text is printed.
\<close>

definition run_gateway ::
    "'z env_scheme \<Rightarrow> 's platform \<Rightarrow> status \<Rightarrow> status option \<Rightarrow> string list \<Rightarrow> string gomap
       \<Rightarrow> (fatal + 's gateway_server) option \<times> string gomap" where
  "run_gateway E P ld cache as files =
     (if list_ex is_help as then (None, files)
      else
        let proto = protocol_of (pf_env P ''WARRANT_GATEWAY_PROTOCOL'') in
        if proto \<noteq> MCP \<and> proto \<noteq> A2A then (Some (Inl FatalProtocol), files)
        else
          let url = pf_env P ''WARRANT_GATEWAY_UPSTREAM'' in
          if url = [] then (Some (Inl FatalUpstream), files)
          else
            (case build_service E P files of
               (Inl e, files1) \<Rightarrow> (Some (Inl e), files1)
             | (Inr (svc, led), files1) \<Rightarrow>
                 let gw = new_gateway svc proto;
                     p = pf_env P ''WARRANT_GATEWAY_TOOL_PREFIX'';
                     gw1 = (if p \<noteq> [] then gw\<lparr>gw_ToolPrefix := p\<rparr> else gw);
                     wanted = (pf_env P ''WARRANT_GATEWAY_FILTER_TOOLS_LIST'' = ''true'') in
                 (case (if wanted then fst (require_feature ld FeatureGatewayToolFilter cache) else None) of
                    Some e \<Rightarrow> (Some (Inl (FatalLicense e)), files1)
                  | None \<Rightarrow>
                      let gw2 = (if wanted then gw1\<lparr>gw_FilterToolsList := True\<rparr> else gw1);
                          (n, ok) = parse_int (pf_env P ''WARRANT_GATEWAY_MAX_BODY_BYTES'');
                          gw3 = (if ok \<and> 0 < n then gw2\<lparr>gw_MaxBodyBytes := n\<rparr> else gw2)
                      in (Some (Inr \<lparr>gs_Addr = env_or (pf_env P) ''WARRANT_GATEWAY_ADDR'' '':8432'', gs_Upstream = url,
                            gs_Gateway = gw3, gs_Ledger = led\<rparr>), files1))))"

subsection \<open>The keys command (\<^verbatim>\<open>keys.go\<close>)\<close>

datatype command_err = FlagError | UnknownSubcommand string | ReceiptKeyError | VerifyUsage | InvalidLicenseToken license_err | NotEncodable

datatype printed = PrintedNothing | PrintedUsage | PrintedLines "string list"

text \<open>A flag set without flags: every argument that looks like one is an error, up to a lone \<^verbatim>\<open>--\<close>.\<close>

definition no_flags :: "string list \<Rightarrow> bool" where
  "no_flags as = (case as of [] \<Rightarrow> True | a # _ \<Rightarrow> length a < 2 \<or> hd a \<noteq> CHR ''-'' \<or> a = ''--'')"

definition keys_lines :: "'z env_scheme \<Rightarrow> string \<Rightarrow> string list" where
  "keys_lines E key =
     (let pubB64 = std_encode (en_public E key); keyID = key_id_for E (en_public E key) in
      [''product:    warrant'', ''key_id:     '' @ keyID, ''alg:        ed25519'', ''public_key: '' @ pubB64, [],
       ''ledger keys enroll --product warrant --key-id '' @ keyID @ '' --public-key '' @ pubB64])"

definition cmd_keys_show ::
    "'z env_scheme \<Rightarrow> 's platform \<Rightarrow> string option option \<times> string gomap
       \<Rightarrow> (printed \<times> command_err option) \<times> string option option \<times> string gomap" where
  "cmd_keys_show E P s =
     (case default_signer E (pf_env P) (pf_config_dir P) (pf_calls P) (pf_fresh P) s of
        (None, s') \<Rightarrow> ((PrintedNothing, Some ReceiptKeyError), s')
      | (Some key, s') \<Rightarrow> ((PrintedLines (keys_lines E key), None), s'))"

definition cmd_keys ::
    "'z env_scheme \<Rightarrow> 's platform \<Rightarrow> string list \<Rightarrow> string option option \<times> string gomap
       \<Rightarrow> (printed \<times> command_err option) \<times> string option option \<times> string gomap" where
  "cmd_keys E P as s =
     (case as of
        [] \<Rightarrow> ((PrintedUsage, None), s)
      | a # rest \<Rightarrow>
          if a = ''show'' then (if \<not> no_flags rest then ((PrintedNothing, Some FlagError), s) else cmd_keys_show E P s)
          else if is_help a then ((PrintedUsage, None), s)
          else ((PrintedUsage, Some (UnknownSubcommand a)), s))"

subsection \<open>The license command (\<^verbatim>\<open>license.go\<close>)\<close>

text \<open>What goes to the standard output, and the warning that goes to the standard error.\<close>

datatype license_output =
    LicenseNothing
  | LicenseUsage
  | LicenseJson license_state license_warning "license option"
  | LicenseLines "string list" license_warning
  | LicensePrinted license

definition state_text :: "license_state \<Rightarrow> string" where
  "state_text s =
     (case s of StateNone \<Rightarrow> ''none'' | StateValid \<Rightarrow> ''valid'' | StateGrace \<Rightarrow> ''grace'' | StateExpired \<Rightarrow> ''expired'')"

fun join_comma :: "string list \<Rightarrow> string" where
  "join_comma [] = []"
| "join_comma [f] = f"
| "join_comma (f # fs) = f @ '', '' @ join_comma fs"

definition license_lines :: "(time \<Rightarrow> string) \<Rightarrow> license_state \<Rightarrow> license \<Rightarrow> string list" where
  "license_lines date st l =
     [''state:    '' @ state_text st, ''customer: '' @ li_Customer l, ''edition:  '' @ li_Edition l,
      ''features: '' @ join_comma (if li_Features l = [] then [''(edition defaults)''] else li_Features l),
      ''seats:    '' @ int_text (li_Seats l) @ '' licensed'', ''issued:   '' @ date (li_IssuedAt l),
      ''expires:  '' @ date (li_ExpiresAt l)]"

text \<open>
  \<open>community\<close> is the fixed line for a process without a license, \<open>date\<close> formats a date, and
  \<open>indent\<close> says whether \<^verbatim>\<open>json.MarshalIndent\<close> succeeds on a license.
\<close>

definition cmd_license_show ::
    "string \<Rightarrow> (time \<Rightarrow> string) \<Rightarrow> (license option \<Rightarrow> bool) \<Rightarrow> status \<Rightarrow> bool \<Rightarrow> status option
       \<Rightarrow> (license_output \<times> command_err option) \<times> status option" where
  "cmd_license_show community date indent ld asJSON cache =
     (let (st, cache') = reload ld cache in
      (if asJSON then
         (if \<not> indent (st_License st) then (LicenseNothing, Some NotEncodable)
          else (LicenseJson (st_State st) (st_Warning st) (st_License st), None))
       else
         (case st_License st of
            None \<Rightarrow> (LicenseLines [''state:    '' @ state_text (st_State st), community] (st_Warning st), None)
          | Some l \<Rightarrow> (LicenseLines (license_lines date (st_State st) l) (st_Warning st), None)), cache'))"

definition cmd_license_verify ::
    "'z env_scheme \<Rightarrow> license_codec \<Rightarrow> bool \<Rightarrow> (string \<Rightarrow> string option) \<Rightarrow> (license option \<Rightarrow> bool) \<Rightarrow> string
       \<Rightarrow> license_output \<times> command_err option" where
  "cmd_license_verify E K trust read indent arg =
     (let tok = (case read arg of Some b \<Rightarrow> trim_space b | None \<Rightarrow> arg) in
      case license_verify E K trust tok of
        Inl e \<Rightarrow> (LicenseNothing, Some (InvalidLicenseToken e))
      | Inr lic \<Rightarrow> if \<not> indent (Some lic) then (LicenseNothing, Some NotEncodable) else (LicensePrinted lic, None))"

definition cmd_license ::
    "'z env_scheme \<Rightarrow> license_codec \<Rightarrow> bool \<Rightarrow> 's platform \<Rightarrow> string \<Rightarrow> (time \<Rightarrow> string) \<Rightarrow> (license option \<Rightarrow> bool) \<Rightarrow> time \<Rightarrow>
       string list \<Rightarrow> status option \<Rightarrow> (license_output \<times> command_err option) \<times> status option" where
  "cmd_license E K trust P community date indent now as cache =
     (case as of
        [] \<Rightarrow> ((LicenseUsage, None), cache)
      | a # rest \<Rightarrow>
          if a = ''show'' then
            cmd_license_show community date indent (load_license E K trust (pf_env P) (pf_read P) now)
              (list_ex (\<lambda>x. x = ''--json'') rest) cache
          else if a = ''verify'' then
            (case rest of
               [] \<Rightarrow> ((LicenseNothing, Some VerifyUsage), cache)
             | x # _ \<Rightarrow> (cmd_license_verify E K trust (pf_read P) indent x, cache))
          else if is_help a then ((LicenseUsage, None), cache)
          else ((LicenseUsage, Some (UnknownSubcommand a)), cache))"

subsection \<open>Lemmas\<close>

lemma build_service_Inr:
  assumes "build_service E P files = (Inr (B, led), files')"
  obtains ops sg pol key where "B = (new_broker (service_config (pf_env P)) ops sg pol)\<lparr>br_ReceiptKey := Some key\<rparr>"
    and "load_policy P = Inr pol"
    and "load_or_create_signer E (pf_env P) (pf_config_dir P) (pf_calls P) (pf_fresh P) [] files = (Some key, files')"
  using assms by (auto simp: build_service_def default_signer_def Let_def split: option.splits sum.splits prod.splits)

lemma build_service_key:
  assumes "build_service E P files = (Inr (B, led), files')"
  shows "\<exists>key. br_ReceiptKey B = Some key
    \<and> load_or_create_signer E (pf_env P) (pf_config_dir P) (pf_calls P) (pf_fresh P) [] files = (Some key, files')"
  using assms by (rule build_service_Inr) simp

lemma evaluate_unset [simp]: "\<not> pd_Allow (evaluate None q)"
  by (simp add: evaluate_def)

lemma unset_policy:
  assumes "build_service E P files = (Inr (B, led), files')" and "pf_env P ''WARRANT_POLICY'' = []"
  shows "br_Policy B = None"
  using assms(1) by (rule build_service_Inr) (use assms(2) in \<open>auto simp: load_policy_def new_broker_def\<close>)

lemma mint_scopes_unset: "br_Policy B = None \<Longrightarrow> ss \<noteq> [] \<Longrightarrow> isl (mint_scopes B now prin human ss mad)"
  by (cases ss; cases "sc_Resources (hd ss)")
    (auto simp: validate_scope_def split: option.splits sum.splits)

definition tuned_gateway :: "(string \<Rightarrow> string) \<Rightarrow> ('s, 'r) gateway \<Rightarrow> ('s, 'r) gateway" where
  "tuned_gateway env g =
     (let (n, ok) = parse_int (env ''WARRANT_GATEWAY_MAX_BODY_BYTES'') in
      g\<lparr>gw_ToolPrefix := (if env ''WARRANT_GATEWAY_TOOL_PREFIX'' \<noteq> [] then env ''WARRANT_GATEWAY_TOOL_PREFIX'' else gw_ToolPrefix g),
        gw_FilterToolsList := (env ''WARRANT_GATEWAY_FILTER_TOOLS_LIST'' = ''true'' \<or> gw_FilterToolsList g),
        gw_MaxBodyBytes := (if ok \<and> 0 < n then n else gw_MaxBodyBytes g)\<rparr>)"

lemma run_gateway_Inr:
  assumes "run_gateway E P ld cache as files = (Some (Inr gs), files')"
  obtains svc led where "build_service E P files = (Inr (svc, led), files')"
    and "protocol_of (pf_env P ''WARRANT_GATEWAY_PROTOCOL'') \<in> {MCP, A2A}"
    and "gs_Gateway gs = tuned_gateway (pf_env P) (new_gateway svc (protocol_of (pf_env P ''WARRANT_GATEWAY_PROTOCOL'')))"
    and "pf_env P ''WARRANT_GATEWAY_FILTER_TOOLS_LIST'' = ''true'' \<longrightarrow> fst (require_feature ld FeatureGatewayToolFilter cache) = None"
proof -
  let ?proto = "protocol_of (pf_env P ''WARRANT_GATEWAY_PROTOCOL'')"
  have proto: "?proto = MCP \<or> ?proto = A2A" and "\<not> list_ex is_help as" "pf_env P ''WARRANT_GATEWAY_UPSTREAM'' \<noteq> []"
    using assms by (auto simp: run_gateway_def Let_def split: if_splits)
  note guards = this
  obtain res f where b: "build_service E P files = (res, f)" by fastforce
  show thesis
  proof (cases res)
    case (Inl e)
    with assms guards b show thesis by (auto simp: run_gateway_def)
  next
    case (Inr svcled)
    obtain svc led where sl: "svcled = (svc, led)" by fastforce
    obtain n ok where n: "parse_int (pf_env P ''WARRANT_GATEWAY_MAX_BODY_BYTES'') = (n, ok)" by fastforce
    show thesis
    proof (rule that [of svc led])
      show "?proto \<in> {MCP, A2A}" using proto by simp
      show "build_service E P files = (Inr (svc, led), files')"
        using assms guards b Inr sl n by (auto simp: run_gateway_def Let_def split: option.splits if_splits)
      show "gs_Gateway gs = tuned_gateway (pf_env P) (new_gateway svc ?proto)"
        using assms guards b Inr sl n
        by (auto simp: run_gateway_def Let_def tuned_gateway_def new_gateway_def split: option.splits if_splits)
      show "pf_env P ''WARRANT_GATEWAY_FILTER_TOOLS_LIST'' = ''true'' \<longrightarrow> fst (require_feature ld FeatureGatewayToolFilter cache) = None"
        using assms guards b Inr sl n by (auto simp: run_gateway_def Let_def split: option.splits if_splits)
    qed
  qed
qed

lemma default_key_seed:
  assumes "inline_seed env = None" and "default_key_file env dir = path" and "path \<noteq> []"
    and "\<not> sublist ''.receipt-key-'' path" and "\<forall>s. ky_Seed c = Some s \<longrightarrow> length s = 32"
    and "load_or_create_seed c path files = (Inr s, files1)"
  shows "load_or_create_signer E env dir c fresh [] files = (Some (en_from_seed E s), files1)"
    and "ky_Read c' \<Longrightarrow> default_signer E env dir c' fresh' (None, files1)
      = (Some (en_from_seed E s), Some (Some (en_from_seed E s)), files1)"
proof -
  show "load_or_create_signer E env dir c fresh [] files = (Some (en_from_seed E s), files1)"
    using assms by (simp add: load_or_create_signer_def)
  have "pc_ok path files1 (AtDone (Inr s))"
    using run_alone_ok [OF assms(4) _ run_alone_load [OF assms(6)]] assms(5) by blast
  then have "load_or_create_seed c' path files1 = (Inr s, files1)" if "ky_Read c'"
    using that by (simp add: pc_ok_def load_or_create_seed_def)
  then show "default_signer E env dir c' fresh' (None, files1)
      = (Some (en_from_seed E s), Some (Some (en_from_seed E s)), files1)" if "ky_Read c'"
    using that assms(1-3) by (simp add: default_signer_def load_or_create_signer_def)
qed

lemma receipt_under_file_key:
  assumes "env_ok E" and "now \<noteq> zero_time" and "br_ReceiptKey B = Some key" and "attach_receipt E now B kind actors p = Some ev"
  shows "receipt_verify E ev (en_public E key) = None \<and> ev_SignerKeyID ev = key_id_for E (en_public E key)"
proof -
  obtain env where "receipt_sign E now key env = Inr ev"
    using assms(3,4) by (auto simp: attach_receipt_def split: option.splits sum.splits)
  from receipt_sign_verifies [OF assms(1,2) this] show ?thesis by simp
qed

subsection \<open>Properties\<close>

text \<open>
  \<^bold>\<open>C15.\<close> A server started without \<^verbatim>\<open>WARRANT_POLICY\<close> lets nothing through: it mints no token, delegates none
  and allows no call, whatever is in its store.
\<close>

theorem unset_policy_denies:
  assumes "build_service E P files = (Inr (B, led), files')" and "pf_env P ''WARRANT_POLICY'' = []"
  shows "\<not> dc_Allow (fst (authorize E now B r w)) \<and> isl (fst (mint_root E now B fresh q w))
    \<and> isl (fst (delegate E now B fresh dq w))"
proof -
  note unset = unset_policy [OF assms]
  have "\<not> dc_Allow (fst (authorize_core E now B r (wd_Store w)))"
    by (auto simp: authorize_core_def unset Let_def split: prod.splits option.splits)
  then have "\<not> dc_Allow (fst (authorize E now B r w))"
    by (auto simp: authorize_def split: prod.splits)
  moreover have "isl (fst (mint_root E now B fresh q w))"
  proof -
    obtain svid err where v: "verify_kind E B (mr_SVID q) ''svid'' now = (svid, err)" by fastforce
    have "mr_Scopes q \<noteq> [] \<Longrightarrow>
        \<exists>e. mint_scopes B now (cm_Subject svid) (mr_Human q) (mr_Scopes q) (cf_MaxDepth (br_Cfg B)) = Inl e"
      using mint_scopes_unset [OF unset] unfolding isl_def by blast
    with v show ?thesis by (auto simp: mint_root_def split: option.splits)
  qed
  moreover have "isl (fst (delegate E now B fresh dq w))"
    by (auto simp: delegate_def unset Let_def split: prod.splits option.splits)
  ultimately show ?thesis by blast
qed

definition ex_platform :: "memory platform" where
  "ex_platform =
     \<lparr>pf_env = (\<lambda>k. if k = ''WARRANT_GATEWAY_PROTOCOL'' then ''mcp'' else if k = ''WARRANT_GATEWAY_UPSTREAM'' then ''http://s''
        else if k = ''WARRANT_GATEWAY_FILTER_TOOLS_LIST'' then ''true'' else if k = ''WARRANT_LICENSE'' then ''TDE.c2ln'' else []),
      pf_read = (\<lambda>_. None), pf_policy = (\<lambda>_. None), pf_routes = (\<lambda>_. None), pf_store = (\<lambda>_. Some memory_ops),
      pf_random = Some ''k'', pf_spool = (\<lambda>_. True), pf_config_dir = Some ''/root/.config'',
      pf_calls = ex_calls (replicate 32 (CHR ''a'')) ''1'', pf_fresh = None\<rparr>"

definition ex_key_path :: string where
  "ex_key_path = ''/root/.config/warrant/receipt.key''"

lemma ex_key_path_default: "pf_env ex_platform ''WARRANT_RECEIPT_KEY_FILE'' = [] \<and> default_key_file (pf_env ex_platform) (Some ''/root/.config'') = ex_key_path"
  by code_simp

lemma ex_key_created:
  "load_or_create_seed (ex_calls (replicate 32 (CHR ''a'')) ''1'') ex_key_path []
     = (Inr (replicate 32 (CHR ''a'')), [(ex_key_path, seed_text (replicate 32 (CHR ''a'')))])"
  by code_simp

lemma ex_service:
  "\<exists>B. build_service E ex_platform [] = (Inr (B, None), [(ex_key_path, seed_text (replicate 32 (CHR ''a'')))])"
proof -
  have "load_or_create_signer E (pf_env ex_platform) (Some ''/root/.config'') (ex_calls (replicate 32 (CHR ''a'')) ''1'') None [] []
      = (Some (en_from_seed E (replicate 32 (CHR ''a''))), [(ex_key_path, seed_text (replicate 32 (CHR ''a'')))])"
    using ex_key_path_default ex_key_created
    by (simp add: load_or_create_signer_def inline_seed_def ex_platform_def ex_key_path_def)
  then show ?thesis
    by (simp add: build_service_def ex_platform_def open_signer_def new_signer_def load_policy_def open_ledger_def
        from_env_spooling_def default_signer_def Let_def)
qed

definition ex_built :: "memory broker" where
  "ex_built = (case build_service ex_env ex_platform [] of (Inr (B, _), _) \<Rightarrow> B)"

lemma ex_built: "build_service ex_env ex_platform [] = (Inr (ex_built, None), [(ex_key_path, seed_text (replicate 32 (CHR ''a'')))])"
  using ex_service [of ex_env] by (auto simp: ex_built_def)

theorem unset_policy_denies_witness:
  "\<not> dc_Allow (fst (authorize ex_env 0 ex_built ex_authorize_pay ex_world2))"
  using unset_policy_denies [OF ex_built] by (simp add: ex_platform_def)

text \<open>
  \<^bold>\<open>C19.\<close> What \<^verbatim>\<open>warrantd keys show\<close> prints is what the receipts of the server carry: a server that took its
  receipt key from the key file, or created it there, signs receipts with the key id that the command
  prints when it runs later as a process of its own, and each of them verifies under the public key that
  it prints in base64.
\<close>

theorem keys_show_enrolls:
  assumes "env_ok E" and "now \<noteq> zero_time"
    and "inline_seed (pf_env P) = None" and "default_key_file (pf_env P) (pf_config_dir P) = path" and "path \<noteq> []"
    and "\<not> sublist ''.receipt-key-'' path" and "\<forall>s. ky_Seed (pf_calls P) = Some s \<longrightarrow> length s = 32"
    and "load_or_create_seed (pf_calls P) path files = (Inr s, files1)"
    and "build_service E P files = (Inr (B, led), files')"
    and "pf_env P' = pf_env P" and "pf_config_dir P' = pf_config_dir P" and "ky_Read (pf_calls P')"
    and "attach_receipt E now B kind actors p = Some ev"
  shows "\<exists>pub lines. fst (cmd_keys E P' [''show''] (None, files')) = (PrintedLines lines, None)
    \<and> lines ! 1 = ''key_id:     '' @ ev_SignerKeyID ev \<and> lines ! 3 = ''public_key: '' @ std_encode pub
    \<and> receipt_verify E ev pub = None"
proof -
  let ?key = "en_from_seed E s"
  note seed = default_key_seed [OF assms(3-8)]
  have key: "br_ReceiptKey B = Some ?key" and files: "files' = files1"
    using build_service_key [OF assms(9)] seed(1) [of E "pf_fresh P"] by (simp_all add: assms(4))
  note receipt = receipt_under_file_key [OF assms(1,2) key assms(13)]
  have "fst (cmd_keys E P' [''show''] (None, files')) = (PrintedLines (keys_lines E ?key), None)"
    using seed(2) [OF assms(12), of E "pf_fresh P'"] assms(10,11) files
    by (simp add: cmd_keys_def no_flags_def cmd_keys_show_def)
  with receipt show ?thesis
    by (intro exI [of _ "en_public E ?key"] exI [of _ "keys_lines E ?key"]) (simp add: keys_lines_def Let_def)
qed

theorem keys_show_enrolls_witness:
  "\<exists>ev pub lines. attach_receipt ex_env 5 ex_built ''warrant.decision'' (actor_chain ''ann'' []) [] = Some ev
    \<and> fst (cmd_keys ex_env ex_platform [''show''] (None, [(ex_key_path, seed_text (replicate 32 (CHR ''a'')))]))
      = (PrintedLines lines, None)
    \<and> lines ! 3 = ''public_key: '' @ std_encode pub \<and> receipt_verify ex_env ev pub = None"
proof -
  obtain key where key: "br_ReceiptKey ex_built = Some key"
    using build_service_key [OF ex_built] by blast
  define env where "env = \<lparr>ev_Version = [], ev_Product = ''warrant'', ev_Kind = ''warrant.decision'', ev_GoalID = [],
     ev_Actors = [\<lparr>ra_Kind = ''human'', ra_ID = ''ann'', ra_Model = [], ra_ModelVersion = []\<rparr>], ev_Subject = [],
     ev_PayloadHash = payload_hash ex_env (JObj []), ev_Links = [], ev_IssuedAt = zero_time, ev_SignerKeyID = [], ev_Signature = []\<rparr>"
  have "length (payload_hash ex_env (JObj [])) = 64" "is_hex (payload_hash ex_env (JObj []))"
    by code_simp+
  then have "\<exists>e. receipt_sign ex_env 5 key env = Inr e"
    by (intro receipt_sign_total) (auto simp: env_def valid_product_def zero_time_def time_unix_def second_def)
  then obtain ev where "attach_receipt ex_env 5 ex_built ''warrant.decision'' (actor_chain ''ann'' []) [] = Some ev"
    by (auto simp: attach_receipt_def key payload_doc_def actor_chain_def env_def str_of_def)
  moreover have "env_ok ex_env" "5 \<noteq> zero_time" by (simp_all add: ex_env_def zero_time_def time_unix_def second_def)
  moreover have "inline_seed (pf_env ex_platform) = None" "pf_config_dir ex_platform = Some ''/root/.config''"
      "pf_calls ex_platform = ex_calls (replicate 32 (CHR ''a'')) ''1''" "ky_Read (pf_calls ex_platform)"
      "\<forall>s. ky_Seed (pf_calls ex_platform) = Some s \<longrightarrow> length s = 32"
    by (simp_all add: inline_seed_def ex_platform_def ex_calls_def)
  moreover have "\<not> sublist ''.receipt-key-'' ex_key_path" "ex_key_path \<noteq> []"
    by (simp_all add: ex_key_path_def sublist_code)
  ultimately show ?thesis
    using keys_show_enrolls [of ex_env 5 ex_platform ex_key_path "[]" "replicate 32 (CHR ''a'')"
        "[(ex_key_path, seed_text (replicate 32 (CHR ''a'')))]" ex_built None _ ex_platform, OF _ _ _ _ _ _ _ _ ex_built]
      ex_key_path_default ex_key_created by fastforce
qed

text \<open>
  How a gateway can start: it speaks one of the two protocols, puts a prefix before every tool name, and
  accepts bodies of a positive size. It filters tool lists exactly when the environment asks for it,
  and then only under a valid Enterprise license, or one that expired no more than fourteen days ago;
  without one the process stops instead of serving unfiltered lists.
\<close>

theorem gateway_starts_licensed:
  assumes "run_gateway E P (load_license E K trust (pf_env P) (pf_read P) now) None as files = (Some (Inr gs), files')"
  shows "gw_Protocol (gs_Gateway gs) \<in> {MCP, A2A} \<and> gw_ToolPrefix (gs_Gateway gs) \<noteq> [] \<and> 0 < gw_MaxBodyBytes (gs_Gateway gs)
    \<and> (gw_FilterToolsList (gs_Gateway gs) \<longleftrightarrow> pf_env P ''WARRANT_GATEWAY_FILTER_TOOLS_LIST'' = ''true'')
    \<and> (gw_FilterToolsList (gs_Gateway gs) \<longrightarrow>
        (\<exists>tok lic. token_of E K trust tok lic \<and> (li_ExpiresAt lic = zero_time \<or> now \<le> li_ExpiresAt lic + 14 * 24 * 60 * minute)))"
proof -
  let ?proto = "protocol_of (pf_env P ''WARRANT_GATEWAY_PROTOCOL'')"
  obtain svc led where "build_service E P files = (Inr (svc, led), files')" and proto: "?proto \<in> {MCP, A2A}" and gw: "gs_Gateway gs = tuned_gateway (pf_env P) (new_gateway svc ?proto)"
    and lic: "pf_env P ''WARRANT_GATEWAY_FILTER_TOOLS_LIST'' = ''true'' \<longrightarrow>
      fst (require_feature (load_license E K trust (pf_env P) (pf_read P) now) FeatureGatewayToolFilter None) = None"
    using assms by (rule run_gateway_Inr)
  have fields: "gw_Protocol (gs_Gateway gs) = ?proto" "gw_ToolPrefix (gs_Gateway gs) \<noteq> []" "0 < gw_MaxBodyBytes (gs_Gateway gs)"
    "gw_FilterToolsList (gs_Gateway gs) \<longleftrightarrow> pf_env P ''WARRANT_GATEWAY_FILTER_TOOLS_LIST'' = ''true''"
    using proto by (auto simp: gw tuned_gateway_def new_gateway_def split: prod.splits)
  moreover have "\<exists>tok lic. token_of E K trust tok lic \<and> (li_ExpiresAt lic = zero_time \<or> now \<le> li_ExpiresAt lic + 14 * 24 * 60 * minute)"
    if "gw_FilterToolsList (gs_Gateway gs)"
    using lic that fields(4) unfolding require_feature_None by blast
  ultimately show ?thesis using proto by simp
qed

theorem gateway_starts_licensed_witness:
  "\<exists>gs files'. run_gateway ex_vendor ex_platform
      (load_license ex_vendor ex_license_codec False (pf_env ex_platform) (pf_read ex_platform) 0) None [] [] = (Some (Inr gs), files')
    \<and> gw_Protocol (gs_Gateway gs) = MCP \<and> gw_FilterToolsList (gs_Gateway gs)
    \<and> (\<exists>tok lic. token_of ex_vendor ex_license_codec False tok lic)"
proof -
  let ?ld = "load_license ex_vendor ex_license_codec False (pf_env ex_platform) (pf_read ex_platform) 0"
  have "trim_space ''TDE.c2ln'' = ''TDE.c2ln''" by code_simp
  then have "fst (require_feature ?ld FeatureGatewayToolFilter None) = None"
    using ex_license_verified
    by (simp add: load_license_def ex_platform_def require_feature_def current_def status_has_feature_def active_def resolve_def
        license_has_feature_def ex_license_def Grace_def minute_def second_def EditionEnterprise_def)
  moreover obtain B where "build_service ex_vendor ex_platform [] = (Inr (B, None), [(ex_key_path, seed_text (replicate 32 (CHR ''a'')))])"
    using ex_service by blast
  moreover have "protocol_of (pf_env ex_platform ''WARRANT_GATEWAY_PROTOCOL'') = MCP" "pf_env ex_platform ''WARRANT_GATEWAY_UPSTREAM'' \<noteq> []"
      "pf_env ex_platform ''WARRANT_GATEWAY_FILTER_TOOLS_LIST'' = ''true''"
    by (simp_all add: ex_platform_def protocol_of_def)
  ultimately obtain gs files' where run: "run_gateway ex_vendor ex_platform ?ld None [] [] = (Some (Inr gs), files')"
      "gw_Protocol (gs_Gateway gs) = MCP"
    by (fastforce simp: run_gateway_def new_gateway_def Let_def split: prod.splits)
  from gateway_starts_licensed [OF run(1)] \<open>pf_env ex_platform ''WARRANT_GATEWAY_FILTER_TOOLS_LIST'' = ''true''\<close> run show ?thesis
    by blast
qed

end
