(* ===== verification/License_Tool.thy ===== *)
theory License_Tool
  imports License
begin

section \<open>Issuing licenses (\<^verbatim>\<open>tools/licensegen\<close>)\<close>

text \<open>
  The vendor's tool. The flags are given as they parse, \<^const>\<open>None\<close> when they do not; the files are a map
  from paths to contents. \<open>cmd_issue\<close> is put together with the verification of the other
  side, so that the round trip runs from the key file of the vendor to the status of the server.
\<close>

datatype issue_err =
    FlagsInvalid
  | FlagsRequired
  | EditionInvalid
  | KeyUnreadable
  | KeyInvalid
  | NotSigned
  | KeyRandom
  | KeyFileExists
  | KeyNotWritten

subsection \<open>A key pair\<close>

text \<open>
  \<open>pair\<close> is the result of \<^verbatim>\<open>ed25519.GenerateKey\<close>, public key first; the file is opened with
  \<^verbatim>\<open>O_EXCL\<close>. \<open>written\<close> is how many bytes of a failed write reached the file. What is printed is the
  public key.
\<close>

definition cmd_keygen ::
    "string option \<Rightarrow> (string \<times> string) option \<Rightarrow> nat option \<Rightarrow> string gomap \<Rightarrow> (issue_err + string) \<times> string gomap" where
  "cmd_keygen out pair written files =
     (case out of
        None \<Rightarrow> (Inl FlagsInvalid, files)
      | Some path \<Rightarrow>
          (case pair of
             None \<Rightarrow> (Inl KeyRandom, files)
           | Some (pub, priv) \<Rightarrow>
               if lookup files path \<noteq> None then (Inl KeyFileExists, files)
               else
                 let text = std_encode priv @ [CHR 0x0A] in
                 (case written of
                    Some n \<Rightarrow> (Inl KeyNotWritten, AList.update path (take n text) files)
                  | None \<Rightarrow> (Inr (std_encode pub), AList.update path text files))))"

subsection \<open>A license\<close>

record issue_flags =
  if_key :: string
  if_customer :: string
  if_edition :: string
  if_seats :: int
  if_days :: int
  if_features :: string
  if_license_id :: string

text \<open>The private key: that of the repository's tests for the name \<^verbatim>\<open>dev\<close>, or a file.\<close>

definition signing_key :: "(string \<Rightarrow> string option) \<Rightarrow> string \<Rightarrow> issue_err + string" where
  "signing_key read keyFile =
     (if keyFile = ''dev'' then Inr (the dev_signer)
      else
        (case read keyFile of
           None \<Rightarrow> Inl KeyUnreadable
         | Some b \<Rightarrow>
             (case std_decode (trim_space b) of
                None \<Rightarrow> Inl KeyInvalid
              | Some seed \<Rightarrow> if length seed \<noteq> 64 then Inl KeyInvalid else Inr seed)))"

definition feature_list :: "string \<Rightarrow> string list" where
  "feature_list s = filter (\<lambda>f. f \<noteq> []) (map trim_space (split_byte s (CHR '','')))"

text \<open>Durations are 64-bit nanoseconds, and the product wraps around.\<close>

definition day_duration :: "int \<Rightarrow> duration" where
  "day_duration days = wrap64 (wrap64 (days * 24) * (60 * minute))"

definition issued_license :: "string \<Rightarrow> time \<Rightarrow> issue_flags \<Rightarrow> license" where
  "issued_license random now fl =
     \<lparr>li_LicenseID = (if if_license_id fl = [] then ''lic_'' @ raw_url_encode random else if_license_id fl),
      li_Customer = if_customer fl, li_Product = ''warrant'', li_Edition = if_edition fl, li_Features = feature_list (if_features fl),
      li_Seats = if_seats fl, li_IssuedAt = now, li_ExpiresAt = now + day_duration (if_days fl)\<rparr>"

definition cmd_issue ::
    "'z env_scheme \<Rightarrow> license_codec \<Rightarrow> (string \<Rightarrow> string option) \<Rightarrow> string \<Rightarrow> time \<Rightarrow> issue_flags option \<Rightarrow> issue_err + string" where
  "cmd_issue E K read random now flags =
     (case flags of
        None \<Rightarrow> Inl FlagsInvalid
      | Some fl \<Rightarrow>
          if if_key fl = [] \<or> if_customer fl = [] \<or> if_edition fl = [] then Inl FlagsRequired
          else if if_edition fl \<noteq> EditionEnterprise then Inl EditionInvalid
          else
            (case signing_key read (if_key fl) of
               Inl e \<Rightarrow> Inl e
             | Inr priv \<Rightarrow>
                 (case snd (license_sign E K priv (issued_license random now fl)) of
                    None \<Rightarrow> Inl NotSigned
                  | Some tok \<Rightarrow> Inr tok)))"

subsection \<open>Lemmas\<close>

lemma cmd_issue_Inr:
  assumes "cmd_issue E K read random now (Some fl) = Inr tok"
  obtains priv where "signing_key read (if_key fl) = Inr priv"
    and "license_sign E K priv (issued_license random now fl) = (issued_license random now fl, Some tok)"
    and "if_edition fl = ''enterprise''"
proof -
  from assms obtain priv where k: "signing_key read (if_key fl) = Inr priv" and e: "if_edition fl = EditionEnterprise"
    and s: "snd (license_sign E K priv (issued_license random now fl)) = Some tok"
    by (auto simp: cmd_issue_def split: if_splits sum.splits option.splits)
  have "fst (license_sign E K priv (issued_license random now fl)) = issued_license random now fl"
    by (simp add: license_sign_def issued_license_def Let_def split: option.split)
  with s have "license_sign E K priv (issued_license random now fl) = (issued_license random now fl, Some tok)"
    by (simp add: prod_eq_iff)
  with k e that show thesis by (simp add: EditionEnterprise_def)
qed

lemma wrap64_once:
  assumes "2 ^ 63 \<le> x" and "x < 2 ^ 63 + 2 ^ 64"
  shows "wrap64 x = x - 2 ^ 64"
proof -
  have "(x - 2 ^ 63 + 2 ^ 64) mod 2 ^ 64 = x - 2 ^ 63"
    unfolding mod_add_self2 using assms by (intro mod_pos_pos_trivial) auto
  then show ?thesis by (simp add: wrap64_def add.commute)
qed

lemma day_duration_eq:
  assumes "\<bar>days\<bar> \<le> 213489"
  shows "day_duration days = wrap64 (days * 86400000000000)"
proof -
  have "wrap64 (days * 24) = days * 24" using assms by (intro wrap64_id) (auto simp: in_int64_def)
  then show ?thesis by (simp add: day_duration_def minute_def second_def mult.commute)
qed

lemma day_duration_exact: "\<bar>days\<bar> \<le> 106751 \<Longrightarrow> day_duration days = days * (24 * 60 * minute)"
proof -
  assume d: "\<bar>days\<bar> \<le> 106751"
  then have "in_int64 (days * 86400000000000)" by (auto simp: in_int64_def abs_le_iff)
  with d show ?thesis by (simp add: day_duration_eq wrap64_id minute_def second_def)
qed

subsection \<open>Properties\<close>

text \<open>
  \<^bold>\<open>C40.\<close> From the vendor to the server: a license issued with the key whose public half the server embeds is
  accepted as issued, for the customer, the seats and the features that the flags name, unlocks the
  Enterprise feature from the moment it is issued, and keeps it for the days that were asked for and
  fourteen more, not a moment longer.
\<close>

theorem issued_license_works:
  assumes "cmd_issue E K read random now (Some fl) = Inr tok" and "signing_key read (if_key fl) = Inr priv"
    and "\<And>m. en_verify E prod_key m (en_sign E priv m)"
    and "lk_marshal K (issued_license random now fl) = Some b" and "lk_unmarshal K b = Some (issued_license random now fl)"
    and "1 \<le> if_days fl" and "if_days fl \<le> 106751" and "now + if_days fl * (24 * 60 * minute) \<noteq> zero_time"
  shows "license_verify E K False tok = Inr (issued_license random now fl)
    \<and> (status_has_feature (Some (resolve (issued_license random now fl) t)) FeatureGatewayToolFilter
        \<longleftrightarrow> t \<le> now + (if_days fl + 14) * (24 * 60 * minute))"
proof -
  let ?l = "issued_license random now fl"
  obtain p where "signing_key read (if_key fl) = Inr p" and s: "license_sign E K p ?l = (?l, Some tok)"
    and ent: "if_edition fl = ''enterprise''" using assms(1) by (rule cmd_issue_Inr)
  then have p: "p = priv" using assms(2) by simp
  have l: "?l\<lparr>li_Product := ''warrant''\<rparr> = ?l" "li_Product ?l = ''warrant''" "li_Edition ?l = ''enterprise''"
    and ex: "li_ExpiresAt ?l = now + if_days fl * (24 * 60 * minute)"
    using ent assms(6,7) by (simp_all add: issued_license_def day_duration_exact)
  have lic: "license_verify E K False tok = Inr ?l"
    using license_roundtrip [OF assms(3) _ l(3) _ _ s [unfolded p], of b False t] assms(4,5) l(1,2) by simp
  have "active (Some (resolve ?l t)) \<longleftrightarrow> t \<le> now + (if_days fl + 14) * (24 * 60 * minute)"
    using assms(8) by (auto simp: active_def resolve_def ex Grace_def minute_def second_def)
  moreover have "license_has_feature (Some ?l) FeatureGatewayToolFilter"
    by (simp add: license_has_feature_def l(3) EditionEnterprise_def)
  moreover have "st_License (resolve ?l t) = Some ?l" by (simp add: resolve_def)
  ultimately show ?thesis using lic by (simp add: status_has_feature_def)
qed

text \<open>
  The number of days is not checked against what a duration can hold: a license issued for 106752 days or up to
  twice that wraps around to an expiry in the past, and more than fourteen days in the past, so that it is
  expired at the moment it is issued.
\<close>

theorem long_license_expired:
  assumes "106752 \<le> if_days fl" and "if_days fl \<le> 213489" and "li_ExpiresAt (issued_license random now fl) \<noteq> zero_time"
  shows "st_State (resolve (issued_license random now fl) now) = StateExpired"
proof -
  have "day_duration (if_days fl) = if_days fl * (24 * 60 * minute) - 2 ^ 64"
    using assms(1,2) by (simp add: day_duration_eq wrap64_once minute_def second_def)
  with assms show ?thesis
    by (simp add: resolve_def issued_license_def Grace_def minute_def second_def)
qed

definition ex_flags :: "int \<Rightarrow> issue_flags" where
  "ex_flags days = \<lparr>if_key = ''k'', if_customer = ''Acme'', if_edition = ''enterprise'', if_seats = 10, if_days = days,
     if_features = [], if_license_id = ''L1''\<rparr>"

definition ex_vendor_files :: "string gomap" where
  "ex_vendor_files = snd (cmd_keygen (Some ''k'') (Some (prod_key, replicate 64 (CHR ''p''))) None [])"

definition ex_issue_codec :: license_codec where
  "ex_issue_codec = \<lparr>lk_marshal = (\<lambda>l. Some (li_LicenseID l)), lk_unmarshal = (\<lambda>b. Some (issued_license [] 0 (ex_flags 30)))\<rparr>"

theorem issued_license_works_witness:
  "\<exists>tok. cmd_issue ex_vendor ex_issue_codec (map_of ex_vendor_files) [] 0 (Some (ex_flags 30)) = Inr tok
     \<and> license_verify ex_vendor ex_issue_codec False tok = Inr (issued_license [] 0 (ex_flags 30))
     \<and> \<not> status_has_feature (Some (resolve (issued_license [] 0 (ex_flags 30)) (45 * (24 * 60 * minute)))) FeatureGatewayToolFilter"
proof -
  have key: "signing_key (map_of ex_vendor_files) (if_key (ex_flags 30)) = Inr (replicate 64 (CHR ''p''))"
    by code_simp
  then obtain tok where tok: "cmd_issue ex_vendor ex_issue_codec (map_of ex_vendor_files) [] 0 (Some (ex_flags 30)) = Inr tok"
    by (auto simp: cmd_issue_def ex_flags_def EditionEnterprise_def license_sign_def ex_issue_codec_def Let_def)
  have "0 + if_days (ex_flags 30) * (24 * 60 * minute) \<noteq> zero_time"
    by (simp add: ex_flags_def zero_time_def time_unix_def minute_def second_def)
  with issued_license_works [OF tok key, of "''L1''" "45 * (24 * 60 * minute)"] tok show ?thesis
    by (simp add: ex_vendor_def ex_issue_codec_def issued_license_def ex_flags_def minute_def second_def)
qed

theorem long_license_expired_witness:
  "st_State (resolve (issued_license [] 0 (ex_flags 200000)) 0) = StateExpired"
proof -
  have "li_ExpiresAt (issued_license [] 0 (ex_flags 200000)) \<noteq> zero_time" by code_simp
  with long_license_expired [of "ex_flags 200000" "[]" 0] show ?thesis by (simp add: ex_flags_def)
qed

end
