(* ===== verification/Adapters.thy ===== *)
theory Adapters
  imports Warrant_System
begin

section \<open>The framework adapters (\<^verbatim>\<open>adapters\<close>)\<close>

text \<open>
  Wrappers that put the broker, in the same process, before a tool. A tool is a function of its input
  and of the state of the world outside, which a call changes; a wrapper also changes the state of the
  broker. \<^verbatim>\<open>encoding/json\<close> on the values of the frameworks is the record \<open>args_codec\<close>. The functions
  a framework is configured with, such as \<^verbatim>\<open>resourceOf\<close>, are arguments, \<^const>\<open>None\<close> when nil. The
  contexts that the functions pass on are left out, except where the credentials come from them.
\<close>

subsection \<open>The enforcer (\<^verbatim>\<open>adapters.go\<close>)\<close>

record adapter_creds =
  ad_Token :: string
  ad_SVID :: string
  ad_Approval :: string

record denial =
  dn_TokenID :: string
  dn_ActionHash :: string
  dn_Reason :: string
  dn_Tool :: string
  dn_Resource :: string

definition denial_text :: "denial \<Rightarrow> string" where
  "denial_text d = ''warrant: denied '' @ dn_Tool d @ '' on '' @ dn_Resource d @ '': '' @ dn_Reason d"

definition enforcer_authorize ::
    "'z broker_env_scheme \<Rightarrow> time \<Rightarrow> 's broker \<Rightarrow> adapter_creds \<Rightarrow> string \<Rightarrow> string \<Rightarrow> any gomap \<Rightarrow> 's world
       \<Rightarrow> (decision \<times> denial option) \<times> 's world" where
  "enforcer_authorize E now B cr tool resource arguments w =
     (case authorize E now B
         \<lparr>au_Token = ad_Token cr, au_SVID = ad_SVID cr, au_Approval = ad_Approval cr,
          au_Call = \<lparr>cl_Tool = tool, cl_Resource = resource, cl_Args = arguments\<rparr>\<rparr> w of
        (d, w') \<Rightarrow>
          if \<not> dc_Allow d then
            ((d, Some \<lparr>dn_TokenID = dc_TokenID d, dn_ActionHash = dc_ActionHash d, dn_Reason = reason_text E (dc_Reason d),
                dn_Tool = tool, dn_Resource = resource\<rparr>), w')
          else ((d, None), w'))"

text \<open>A value of type \<^verbatim>\<open>any\<close>: nil, a map, or something else that has to be encoded.\<close>

datatype 'v go_any = GoNil | GoMap "any gomap" | GoValue 'v

record 'v args_codec =
  ag_marshal :: "'v \<Rightarrow> string option"
  ag_unmarshal :: "string \<Rightarrow> any gomap option"

datatype args_err = ArgsMarshal | ArgsNotObject

definition marshal_args :: "'v args_codec \<Rightarrow> 'v go_any \<Rightarrow> args_err + any gomap" where
  "marshal_args K v =
     (case v of
        GoNil \<Rightarrow> Inr []
      | GoMap m \<Rightarrow> Inr m
      | GoValue x \<Rightarrow>
          (case ag_marshal K x of
             None \<Rightarrow> Inl ArgsMarshal
           | Some b \<Rightarrow> (case ag_unmarshal K b of None \<Rightarrow> Inl ArgsNotObject | Some m \<Rightarrow> Inr m)))"

subsection \<open>Wrappers that run the tool\<close>

text \<open>
  A wrapper refuses with an error, answers in the place of the tool, or returns what the tool returned.
\<close>

datatype refusal = RefusedArgs args_err | RefusedCall denial | NoCredentials

datatype 'o gated = Refused refusal | Observed string | Ran 'o

type_synonym ('i, 'u, 'o) tool_fn = "'i \<Rightarrow> 'u \<Rightarrow> 'o \<times> 'u"

definition wrap_rpc_method ::
    "'z broker_env_scheme \<Rightarrow> 'v args_codec \<Rightarrow> 's broker \<Rightarrow> adapter_creds \<Rightarrow> string \<Rightarrow> ('v \<Rightarrow> string) option \<Rightarrow>
       ('v, 'u, 'o) tool_fn \<Rightarrow> time \<Rightarrow> 'v \<Rightarrow> 's world \<times> 'u \<Rightarrow> 'o gated \<times> 's world \<times> 'u" where
  "wrap_rpc_method E K B creds tool resourceOf fn now arguments st =
     (case st of (w, u) \<Rightarrow>
        (case marshal_args K (GoValue arguments) of
           Inl e \<Rightarrow> (Refused (RefusedArgs e), w, u)
         | Inr margs \<Rightarrow>
             let resource = (case resourceOf of None \<Rightarrow> ''*'' | Some f \<Rightarrow> f arguments) in
             (case enforcer_authorize E now B creds tool resource margs w of
                ((_, Some e), w') \<Rightarrow> (Refused (RefusedCall e), w', u)
              | ((_, None), w') \<Rightarrow> (case fn arguments u of (r, u') \<Rightarrow> (Ran r, w', u')))))"

definition wrap_func ::
    "'z broker_env_scheme \<Rightarrow> 'v args_codec \<Rightarrow> 's broker \<Rightarrow> adapter_creds \<Rightarrow> string \<Rightarrow> ('v go_any \<Rightarrow> string) option \<Rightarrow>
       ('v go_any, 'u, 'o) tool_fn \<Rightarrow> time \<Rightarrow> 'v go_any \<Rightarrow> 's world \<times> 'u \<Rightarrow> 'o gated \<times> 's world \<times> 'u" where
  "wrap_func E K B creds tool resourceOf fn now inp st =
     (case st of (w, u) \<Rightarrow>
        (case marshal_args K inp of
           Inl e \<Rightarrow> (Refused (RefusedArgs e), w, u)
         | Inr arguments \<Rightarrow>
             let resource = (case resourceOf of None \<Rightarrow> ''*'' | Some f \<Rightarrow> f inp) in
             (case enforcer_authorize E now B creds tool resource arguments w of
                ((_, Some e), w') \<Rightarrow> (Refused (RefusedCall e), w', u)
              | ((_, None), w') \<Rightarrow> (case fn inp u of (r, u') \<Rightarrow> (Ran r, w', u')))))"

text \<open>A denial is the tool's answer here, not an error.\<close>

definition wrap_langchain_tool ::
    "'z broker_env_scheme \<Rightarrow> 'v args_codec \<Rightarrow> 's broker \<Rightarrow> adapter_creds \<Rightarrow> string \<Rightarrow> ('v go_any \<Rightarrow> string) option \<Rightarrow>
       ('v go_any, 'u, 'o) tool_fn \<Rightarrow> time \<Rightarrow> 'v go_any \<Rightarrow> 's world \<times> 'u \<Rightarrow> 'o gated \<times> 's world \<times> 'u" where
  "wrap_langchain_tool E K B creds toolName resourceOf fn now inp st =
     (case st of (w, u) \<Rightarrow>
        (case marshal_args K inp of
           Inl e \<Rightarrow> (Refused (RefusedArgs e), w, u)
         | Inr arguments \<Rightarrow>
             let resource = (case resourceOf of None \<Rightarrow> ''*'' | Some f \<Rightarrow> f inp) in
             (case enforcer_authorize E now B creds toolName resource arguments w of
                ((_, Some e), w') \<Rightarrow> (Observed (''Tool call denied by Warrant policy: '' @ denial_text e), w', u)
              | ((_, None), w') \<Rightarrow> (case fn inp u of (r, u') \<Rightarrow> (Ran r, w', u')))))"

text \<open>The input of an MCP handler: its context, the name of the tool and the arguments.\<close>

definition mcp_handler_middleware ::
    "'z broker_env_scheme \<Rightarrow> 's broker \<Rightarrow> ('c \<Rightarrow> adapter_creds) option \<Rightarrow> (string \<Rightarrow> any gomap \<Rightarrow> string) option \<Rightarrow>
       ('c \<times> string \<times> any gomap, 'u, 'o) tool_fn \<Rightarrow> time \<Rightarrow> 'c \<times> string \<times> any gomap \<Rightarrow> 's world \<times> 'u
       \<Rightarrow> 'o gated \<times> 's world \<times> 'u" where
  "mcp_handler_middleware E B credsOf resourceOf next_fn now i st =
     (case (i, st) of ((ctx, name, arguments), (w, u)) \<Rightarrow>
        let creds = (case credsOf of None \<Rightarrow> \<lparr>ad_Token = [], ad_SVID = [], ad_Approval = []\<rparr> | Some f \<Rightarrow> f ctx);
            resource = (case resourceOf of None \<Rightarrow> ''*'' | Some f \<Rightarrow> f name arguments) in
        (case enforcer_authorize E now B creds name resource arguments w of
           ((_, Some e), w') \<Rightarrow> (Refused (RefusedCall e), w', u)
         | ((_, None), w') \<Rightarrow> (case next_fn (ctx, name, arguments) u of (r, u') \<Rightarrow> (Ran r, w', u'))))"

text \<open>The input of a unary handler: its context, the full name of the method and the request.\<close>

definition grpc_unary_interceptor ::
    "'z broker_env_scheme \<Rightarrow> 'v args_codec \<Rightarrow> 's broker \<Rightarrow> ('c \<Rightarrow> adapter_creds) option \<Rightarrow> (string \<Rightarrow> string) option \<Rightarrow>
       (string \<Rightarrow> 'v go_any \<Rightarrow> string) option \<Rightarrow> ('c \<times> string \<times> 'v go_any, 'u, 'o) tool_fn \<Rightarrow>
       time \<Rightarrow> 'c \<times> string \<times> 'v go_any \<Rightarrow> 's world \<times> 'u \<Rightarrow> 'o gated \<times> 's world \<times> 'u" where
  "grpc_unary_interceptor E K B credsOf toolOf resourceOf handler now i st =
     (case (i, st) of ((ctx, fullMethod, req), (w, u)) \<Rightarrow>
        (case credsOf of
           None \<Rightarrow> (Refused NoCredentials, w, u)
         | Some creds \<Rightarrow>
             let tool = (case toolOf of None \<Rightarrow> fullMethod | Some f \<Rightarrow> f fullMethod);
                 resource = (case resourceOf of None \<Rightarrow> ''*'' | Some f \<Rightarrow> f fullMethod req) in
             (case marshal_args K req of
                Inl e \<Rightarrow> (Refused (RefusedArgs e), w, u)
              | Inr arguments \<Rightarrow>
                  (case enforcer_authorize E now B (creds ctx) tool resource arguments w of
                     ((_, Some e), w') \<Rightarrow> (Refused (RefusedCall e), w', u)
                   | ((_, None), w') \<Rightarrow> (case handler (ctx, fullMethod, req) u of (r, u') \<Rightarrow> (Ran r, w', u'))))))"

subsection \<open>HTTP middleware (\<^verbatim>\<open>http.go\<close>)\<close>

text \<open>The request with \<^verbatim>\<open>URL.Query()\<close>; of several values of a parameter the first one counts.\<close>

record web_request = http_request +
  wr_Query :: "string list gomap"

definition query_args :: "string list gomap \<Rightarrow> any gomap" where
  "query_args q = List.map_filter (\<lambda>(k, vs). if vs = [] then None else Some (k, VStr (hd vs))) q"

text \<open>A refusal is the 403 that \<^verbatim>\<open>writeDenied\<close> writes. The next handler sees two more headers.\<close>

definition http_middleware ::
    "'z broker_env_scheme \<Rightarrow> 's broker \<Rightarrow> string \<Rightarrow> (web_request \<Rightarrow> string) option \<Rightarrow> (web_request, 'u, 'o) tool_fn \<Rightarrow>
       time \<Rightarrow> web_request \<Rightarrow> 's world \<times> 'u \<Rightarrow> 'o gated \<times> 's world \<times> 'u" where
  "http_middleware E B tool resourceOf next_fn now req st =
     (case st of (w, u) \<Rightarrow>
        let creds = \<lparr>ad_Token = trim_prefix (hr_Header req ''Authorization'') ''Bearer '',
                     ad_SVID = hr_Header req ''X-Warrant-SVID'', ad_Approval = hr_Header req ''X-Warrant-Approval''\<rparr>;
            arguments = query_args (wr_Query req);
            resource = (case resourceOf of None \<Rightarrow> ''*'' | Some f \<Rightarrow> f req) in
        (case enforcer_authorize E now B creds tool resource arguments w of
           ((_, Some e), w') \<Rightarrow> (Refused (RefusedCall e), w', u)
         | ((d, None), w') \<Rightarrow>
             let req' = req\<lparr>hr_Header := (hr_Header req)(''X-Warrant-Subject'' := cm_Subject (dc_Claims d),
                   ''X-Warrant-Token-ID'' := cm_ID (dc_Claims d))\<rparr> in
             (case next_fn req' u of (r, u') \<Rightarrow> (Ran r, w', u'))))"

subsection \<open>Gates that only decide\<close>

text \<open>They return the decision and, on a denial, what to send back; running the tool is up to the caller.\<close>

definition mcp_gate ::
    "'z broker_env_scheme \<Rightarrow> time \<Rightarrow> 's broker \<Rightarrow> adapter_creds \<Rightarrow> string \<Rightarrow> string \<Rightarrow> any gomap \<Rightarrow> 's world
       \<Rightarrow> (decision \<times> denial option) \<times> 's world" where
  "mcp_gate E now B creds name resource arguments w = enforcer_authorize E now B creds name resource arguments w"

definition a2a_gate ::
    "'z broker_env_scheme \<Rightarrow> time \<Rightarrow> 's broker \<Rightarrow> adapter_creds \<Rightarrow> string \<Rightarrow> string \<Rightarrow> any gomap \<Rightarrow> 's world
       \<Rightarrow> (decision \<times> denial option) \<times> 's world" where
  "a2a_gate E now B creds tool resource msg w = enforcer_authorize E now B creds tool resource msg w"

text \<open>\<^const>\<open>None\<close> when the arguments are not a JSON object; \<open>unmarshal\<close> is \<^verbatim>\<open>json.Unmarshal\<close> into a map.\<close>

definition openai_function_gate ::
    "'z broker_env_scheme \<Rightarrow> (string \<Rightarrow> any gomap option) \<Rightarrow> time \<Rightarrow> 's broker \<Rightarrow> adapter_creds \<Rightarrow> string \<Rightarrow> string \<Rightarrow>
       (any gomap \<Rightarrow> string) option \<Rightarrow> 's world \<Rightarrow> (decision \<times> any gomap \<times> denial option) option \<times> 's world" where
  "openai_function_gate E unmarshal now B creds name raw resourceOf w =
     (case (if raw = [] then Some [] else unmarshal raw) of
        None \<Rightarrow> (None, w)
      | Some arguments \<Rightarrow>
          let resource = (case resourceOf of None \<Rightarrow> ''*'' | Some f \<Rightarrow> f arguments) in
          (case enforcer_authorize E now B creds name resource arguments w of
             ((d, err), w') \<Rightarrow> (Some (d, arguments, err), w')))"

record anthropic_result =
  an_Type :: string
  an_ToolUseID :: string
  an_Content :: string
  an_IsError :: bool

text \<open>\<open>marshal_denial\<close> is \<^verbatim>\<open>json.Marshal\<close> of a denial. The zero result goes with an allowed call.\<close>

definition anthropic_tool_gate ::
    "'z broker_env_scheme \<Rightarrow> (denial \<Rightarrow> string) \<Rightarrow> time \<Rightarrow> 's broker \<Rightarrow> adapter_creds \<Rightarrow> string \<Rightarrow> string \<Rightarrow> any gomap \<Rightarrow>
       (any gomap \<Rightarrow> string) option \<Rightarrow> 's world \<Rightarrow> (decision \<times> anthropic_result \<times> denial option) \<times> 's world" where
  "anthropic_tool_gate E marshal_denial now B creds blockID name inp resourceOf w =
     (let resource = (case resourceOf of None \<Rightarrow> ''*'' | Some f \<Rightarrow> f inp) in
      case enforcer_authorize E now B creds name resource inp w of
        ((d, Some e), w') \<Rightarrow>
          ((d, \<lparr>an_Type = ''tool_result'', an_ToolUseID = blockID, an_Content = marshal_denial e, an_IsError = True\<rparr>, Some e), w')
      | ((d, None), w') \<Rightarrow> ((d, \<lparr>an_Type = [], an_ToolUseID = [], an_Content = [], an_IsError = False\<rparr>, None), w'))"

record gemini_response =
  gr_Name :: string
  gr_Response :: "any gomap"

definition gemini_function_gate ::
    "'z broker_env_scheme \<Rightarrow> time \<Rightarrow> 's broker \<Rightarrow> adapter_creds \<Rightarrow> string \<Rightarrow> any gomap \<Rightarrow>
       (any gomap \<Rightarrow> string) option \<Rightarrow> 's world \<Rightarrow> (decision \<times> gemini_response \<times> denial option) \<times> 's world" where
  "gemini_function_gate E now B creds name arguments resourceOf w =
     (let resource = (case resourceOf of None \<Rightarrow> ''*'' | Some f \<Rightarrow> f arguments) in
      case enforcer_authorize E now B creds name resource arguments w of
        ((d, Some e), w') \<Rightarrow>
          ((d, \<lparr>gr_Name = name, gr_Response = [(''error'', VStr (denial_text e))]\<rparr>, Some e), w')
      | ((d, None), w') \<Rightarrow> ((d, \<lparr>gr_Name = [], gr_Response = []\<rparr>, None), w'))"

record bedrock_result =
  bk_ToolUseID :: string
  bk_Content :: "any gomap list"
  bk_Status :: string

definition bedrock_tool_gate ::
    "'z broker_env_scheme \<Rightarrow> time \<Rightarrow> 's broker \<Rightarrow> adapter_creds \<Rightarrow> string \<Rightarrow> string \<Rightarrow> any gomap \<Rightarrow>
       (any gomap \<Rightarrow> string) option \<Rightarrow> 's world \<Rightarrow> (decision \<times> bedrock_result \<times> denial option) \<times> 's world" where
  "bedrock_tool_gate E now B creds toolUseID name inp resourceOf w =
     (let resource = (case resourceOf of None \<Rightarrow> ''*'' | Some f \<Rightarrow> f inp) in
      case enforcer_authorize E now B creds name resource inp w of
        ((d, Some e), w') \<Rightarrow>
          ((d, \<lparr>bk_ToolUseID = toolUseID, bk_Content = [[(''text'', VStr (denial_text e))]], bk_Status = ''error''\<rparr>, Some e), w')
      | ((d, None), w') \<Rightarrow> ((d, \<lparr>bk_ToolUseID = [], bk_Content = [], bk_Status = []\<rparr>, None), w'))"

subsection \<open>What a wrapper promises\<close>

text \<open>
  A run of a wrapper over inputs, each at a time of its own; the values its tool returned. The
  specification knows no wrapper: the inputs whose call the broker allows, and the tool run over these alone.
\<close>

fun gate_run ::
    "(time \<Rightarrow> 'i \<Rightarrow> 'w \<times> 'u \<Rightarrow> 'o gated \<times> 'w \<times> 'u) \<Rightarrow> (time \<times> 'i) list \<Rightarrow> 'w \<times> 'u \<Rightarrow> 'o gated list \<times> 'w \<times> 'u" where
  "gate_run gate [] st = ([], st)"
| "gate_run gate ((now, i) # qs) st =
     (let (r, st1) = gate now i st; (rs, st2) = gate_run gate qs st1 in (r # rs, st2))"

definition ran :: "'o gated list \<Rightarrow> 'o list" where
  "ran rs = List.map_filter (\<lambda>r. case r of Ran x \<Rightarrow> Some x | _ \<Rightarrow> None) rs"

lemma ran_simps [simp]: "ran [] = []" "ran (Ran x # rs) = x # ran rs" "\<forall>x. r \<noteq> Ran x \<Longrightarrow> ran (r # rs) = ran rs"
  by (cases r; auto simp: ran_def List.map_filter_def)+

fun allowed_calls ::
    "'z broker_env_scheme \<Rightarrow> 's broker \<Rightarrow> ('i \<Rightarrow> authorize_request option) \<Rightarrow> (time \<times> 'i) list \<Rightarrow> 's world
       \<Rightarrow> ('i \<times> decision) list \<times> 's world" where
  "allowed_calls E B request [] w = ([], w)"
| "allowed_calls E B request ((now, i) # qs) w =
     (case request i of
        None \<Rightarrow> allowed_calls E B request qs w
      | Some q \<Rightarrow>
          let (d, w1) = authorize E now B q w; (cs, w2) = allowed_calls E B request qs w1
          in (if dc_Allow d then (i, d) # cs else cs, w2))"

fun tool_run :: "('i \<Rightarrow> decision \<Rightarrow> 'u \<Rightarrow> 'o \<times> 'u) \<Rightarrow> ('i \<times> decision) list \<Rightarrow> 'u \<Rightarrow> 'o list \<times> 'u" where
  "tool_run fn [] u = ([], u)"
| "tool_run fn ((i, d) # cs) u = (let (r, u1) = fn i d u; (rs, u2) = tool_run fn cs u1 in (r # rs, u2))"

locale tool_gate =
  fixes E :: "'z broker_env_scheme" and B :: "'s broker"
    and gate :: "time \<Rightarrow> 'i \<Rightarrow> 's world \<times> 'u \<Rightarrow> 'o gated \<times> 's world \<times> 'u"
    and request :: "'i \<Rightarrow> authorize_request option"
    and fn :: "'i \<Rightarrow> decision \<Rightarrow> 'u \<Rightarrow> 'o \<times> 'u"
  assumes no_request: "request i = None \<Longrightarrow> \<exists>r. (\<forall>x. r \<noteq> Ran x) \<and> gate now i (w, u) = (r, w, u)"
    and denied: "request i = Some q \<Longrightarrow> authorize E now B q w = (d, w') \<Longrightarrow> \<not> dc_Allow d \<Longrightarrow>
      \<exists>r. (\<forall>x. r \<noteq> Ran x) \<and> gate now i (w, u) = (r, w', u)"
    and allowed: "request i = Some q \<Longrightarrow> authorize E now B q w = (d, w') \<Longrightarrow> dc_Allow d \<Longrightarrow>
      gate now i (w, u) = (Ran (fst (fn i d u)), w', snd (fn i d u))"
begin

lemma run_allowed:
  "gate_run gate qs (w, u) = (rs, w', u') \<Longrightarrow>
     \<exists>cs. allowed_calls E B request qs w = (cs, w') \<and> tool_run fn cs u = (ran rs, u')"
proof (induction qs arbitrary: w u rs)
  case (Cons p qs)
  obtain now i where p: "p = (now, i)" by fastforce
  obtain r w1 u1 where g: "gate now i (w, u) = (r, w1, u1)" using prod_cases3 by blast
  obtain rs' where rs: "gate_run gate qs (w1, u1) = (rs', w', u')" "rs = r # rs'"
    using Cons.prems p g by (auto split: prod.splits)
  obtain cs where cs: "allowed_calls E B request qs w1 = (cs, w')" "tool_run fn cs u1 = (ran rs', u')"
    using Cons.IH [OF rs(1)] by blast
  show ?case
  proof (cases "request i")
    case None
    with no_request [OF None, of now w u] g cs rs(2) p show ?thesis by auto
  next
    case (Some q)
    obtain d w'' where d: "authorize E now B q w = (d, w'')" by fastforce
    show ?thesis
    proof (cases "dc_Allow d")
      case True
      with allowed [OF Some d True, of u] g cs rs(2) p Some d show ?thesis by (auto split: prod.splits)
    next
      case False
      with denied [OF Some d False, of u] g cs rs(2) p Some d show ?thesis by auto
    qed
  qed
qed simp

end

subsection \<open>The wrappers keep it\<close>

definition gate_request :: "adapter_creds \<Rightarrow> string \<Rightarrow> string \<Rightarrow> any gomap \<Rightarrow> authorize_request" where
  "gate_request cr tool resource arguments =
     \<lparr>au_Token = ad_Token cr, au_SVID = ad_SVID cr, au_Approval = ad_Approval cr,
      au_Call = \<lparr>cl_Tool = tool, cl_Resource = resource, cl_Args = arguments\<rparr>\<rparr>"

definition or_star :: "('i \<Rightarrow> string) option \<Rightarrow> 'i \<Rightarrow> string" where
  "or_star f i = (case f of None \<Rightarrow> ''*'' | Some g \<Rightarrow> g i)"

definition value_request ::
    "'v args_codec \<Rightarrow> adapter_creds \<Rightarrow> string \<Rightarrow> ('v go_any \<Rightarrow> string) option \<Rightarrow> 'v go_any \<Rightarrow> authorize_request option" where
  "value_request K cr tool ro i =
     (case marshal_args K i of Inl e \<Rightarrow> None | Inr m \<Rightarrow> Some (gate_request cr tool (or_star ro i) m))"

definition rpc_request ::
    "'v args_codec \<Rightarrow> adapter_creds \<Rightarrow> string \<Rightarrow> ('v \<Rightarrow> string) option \<Rightarrow> 'v \<Rightarrow> authorize_request option" where
  "rpc_request K cr tool ro i =
     (case marshal_args K (GoValue i) of Inl e \<Rightarrow> None | Inr m \<Rightarrow> Some (gate_request cr tool (or_star ro i) m))"

definition mcp_request ::
    "('c \<Rightarrow> adapter_creds) option \<Rightarrow> (string \<Rightarrow> any gomap \<Rightarrow> string) option \<Rightarrow> 'c \<times> string \<times> any gomap \<Rightarrow> authorize_request option" where
  "mcp_request credsOf ro i =
     (case i of (ctx, name, arguments) \<Rightarrow>
        Some (gate_request (case credsOf of None \<Rightarrow> \<lparr>ad_Token = [], ad_SVID = [], ad_Approval = []\<rparr> | Some f \<Rightarrow> f ctx)
          name (or_star (map_option (\<lambda>f. f name) ro) arguments) arguments))"

definition grpc_request ::
    "'v args_codec \<Rightarrow> ('c \<Rightarrow> adapter_creds) option \<Rightarrow> (string \<Rightarrow> string) option \<Rightarrow> (string \<Rightarrow> 'v go_any \<Rightarrow> string) option \<Rightarrow>
       'c \<times> string \<times> 'v go_any \<Rightarrow> authorize_request option" where
  "grpc_request K credsOf toolOf ro i =
     (case i of (ctx, m, req) \<Rightarrow>
        (case credsOf of
           None \<Rightarrow> None
         | Some f \<Rightarrow> value_request K (f ctx) (case toolOf of None \<Rightarrow> m | Some t \<Rightarrow> t m) (map_option (\<lambda>f. f m) ro) req))"

definition web_creds :: "web_request \<Rightarrow> adapter_creds" where
  "web_creds req = \<lparr>ad_Token = trim_prefix (hr_Header req ''Authorization'') ''Bearer '',
     ad_SVID = hr_Header req ''X-Warrant-SVID'', ad_Approval = hr_Header req ''X-Warrant-Approval''\<rparr>"

definition with_identity :: "decision \<Rightarrow> web_request \<Rightarrow> web_request" where
  "with_identity d req = req\<lparr>hr_Header := (hr_Header req)(''X-Warrant-Subject'' := cm_Subject (dc_Claims d),
     ''X-Warrant-Token-ID'' := cm_ID (dc_Claims d))\<rparr>"

definition web_authorize :: "string \<Rightarrow> (web_request \<Rightarrow> string) option \<Rightarrow> web_request \<Rightarrow> authorize_request option" where
  "web_authorize tool ro req = Some (gate_request (web_creds req) tool (or_star ro req) (query_args (wr_Query req)))"

lemma enforcer_authorize_cases:
  assumes "authorize E now B (gate_request cr tool resource arguments) w = (d, w')"
  shows "enforcer_authorize E now B cr tool resource arguments w =
    ((d, if dc_Allow d then None else
       Some \<lparr>dn_TokenID = dc_TokenID d, dn_ActionHash = dc_ActionHash d, dn_Reason = reason_text E (dc_Reason d),
         dn_Tool = tool, dn_Resource = resource\<rparr>), w')"
  using assms by (simp add: enforcer_authorize_def gate_request_def)

lemmas gate_requests = value_request_def rpc_request_def mcp_request_def grpc_request_def web_authorize_def or_star_def

interpretation rpc_gate: tool_gate E B "wrap_rpc_method E K B creds tool ro fn" "rpc_request K creds tool ro" "\<lambda>i d. fn i"
  for E K B creds tool ro fn
  by unfold_locales
    (auto simp: wrap_rpc_method_def gate_requests enforcer_authorize_cases split: sum.splits option.splits prod.splits)

interpretation func_gate: tool_gate E B "wrap_func E K B creds tool ro fn" "value_request K creds tool ro" "\<lambda>i d. fn i"
  for E K B creds tool ro fn
  by unfold_locales
    (auto simp: wrap_func_def gate_requests enforcer_authorize_cases split: sum.splits option.splits prod.splits)

interpretation langchain_gate: tool_gate E B "wrap_langchain_tool E K B creds tool ro fn" "value_request K creds tool ro" "\<lambda>i d. fn i"
  for E K B creds tool ro fn
  by unfold_locales
    (auto simp: wrap_langchain_tool_def gate_requests enforcer_authorize_cases split: sum.splits option.splits prod.splits)

interpretation mcp_handler_gate: tool_gate E B "mcp_handler_middleware E B credsOf ro fn" "mcp_request credsOf ro" "\<lambda>i d. fn i"
  for E B credsOf ro fn
  by unfold_locales
    (auto simp: mcp_handler_middleware_def gate_requests enforcer_authorize_cases split: option.splits prod.splits)

interpretation grpc_gate: tool_gate E B "grpc_unary_interceptor E K B credsOf toolOf ro fn" "grpc_request K credsOf toolOf ro" "\<lambda>i d. fn i"
  for E K B credsOf toolOf ro fn
  by (cases credsOf; unfold_locales)
    (auto simp: grpc_unary_interceptor_def gate_requests enforcer_authorize_cases split: sum.splits option.splits prod.splits)

interpretation web_gate: tool_gate E B "http_middleware E B tool ro fn" "web_authorize tool ro" "\<lambda>i d. fn (with_identity d i)"
  for E B tool ro fn
  by unfold_locales
    (auto simp: http_middleware_def gate_requests enforcer_authorize_cases web_creds_def [symmetric] with_identity_def
      split: option.splits prod.splits)

lemma allowed_calls_ops:
  "allowed_calls E B request qs w = (cs, w') \<Longrightarrow>
     \<exists>l. broker_run E B (List.map_filter (\<lambda>(now, i). map_option (\<lambda>q. (now, OpAuthorize q)) (request i)) qs) ([], w) = (l, w')
       \<and> count_log (call_under a) l = int (length (filter (\<lambda>(i, d). a \<in> set (lineage (dc_Claims d))) cs))"
proof (induction qs arbitrary: w cs)
  case (Cons p qs)
  obtain now i where p: "p = (now, i)" by fastforce
  show ?case
  proof (cases "request i")
    case None
    with Cons p show ?thesis by (simp add: List.map_filter_def)
  next
    case (Some q)
    obtain d w1 where d: "authorize E now B q w = (d, w1)" by fastforce
    obtain cs1 where cs: "allowed_calls E B request qs w1 = (cs1, w')" "cs = (if dc_Allow d then (i, d) # cs1 else cs1)"
      using Cons.prems p Some d by (auto split: prod.splits)
    obtain l where "broker_run E B (List.map_filter (\<lambda>(now, i). map_option (\<lambda>q. (now, OpAuthorize q)) (request i)) qs) ([], w1) = (l, w')"
      "count_log (call_under a) l = int (length (filter (\<lambda>(i, d). a \<in> set (lineage (dc_Claims d))) cs1))"
      using Cons.IH [OF cs(1)] by blast
    moreover have "call_under a (q, d) \<longleftrightarrow> dc_Allow d \<and> a \<in> set (lineage (dc_Claims d))"
      by (simp add: call_under_def)
    ultimately show ?thesis
      using cs(2) p Some d broker_run_log [of E B _ "[(q, d)]" w1] by (auto simp: List.map_filter_def broker_step_def)
  qed
qed (simp add: List.map_filter_def)

definition runs_allowed ::
    "'z broker_env_scheme \<Rightarrow> 's broker \<Rightarrow> (time \<Rightarrow> 'i \<Rightarrow> 's world \<times> 'u \<Rightarrow> 'o gated \<times> 's world \<times> 'u) \<Rightarrow>
       ('i \<Rightarrow> authorize_request option) \<Rightarrow> ('i \<Rightarrow> decision \<Rightarrow> 'u \<Rightarrow> 'o \<times> 'u) \<Rightarrow> (time \<times> 'i) list \<Rightarrow> 's world \<Rightarrow> 'u \<Rightarrow> bool" where
  "runs_allowed E B gate request fn qs w u \<longleftrightarrow>
     (let (rs, w', u') = gate_run gate qs (w, u); (cs, w1) = allowed_calls E B request qs w
      in w1 = w' \<and> tool_run fn cs u = (ran rs, u'))"

context tool_gate
begin

lemma keeps: "runs_allowed E B gate request fn qs w u"
proof -
  obtain rs w' u' where g: "gate_run gate qs (w, u) = (rs, w', u')" using prod_cases3 by blast
  with run_allowed [OF g] show ?thesis by (auto simp: runs_allowed_def)
qed

end

subsection \<open>Properties\<close>

text \<open>
  \<^bold>\<open>C16.\<close> No adapter runs a tool that the broker did not allow, and each runs it for every call that is
  allowed: over any sequence of inputs, the outside world ends as if the bare tool had been called on
  the allowed inputs alone, once each and in order, the tool's results are passed on unchanged, and the
  broker ends as if it had been asked about each call. This holds of the wrapper of an RPC method, of a
  plain function, of a LangChain tool, of an MCP handler, of a gRPC handler and of an HTTP handler,
  which is given the identity of the token.
\<close>

theorem adapters_run_allowed:
  "runs_allowed E B (wrap_rpc_method E K B creds tool ro1 fn1) (rpc_request K creds tool ro1) (\<lambda>i d. fn1 i) qs1 w u
   \<and> runs_allowed E B (wrap_func E K B creds tool ro2 fn2) (value_request K creds tool ro2) (\<lambda>i d. fn2 i) qs2 w u
   \<and> runs_allowed E B (wrap_langchain_tool E K B creds tool ro2 fn2) (value_request K creds tool ro2) (\<lambda>i d. fn2 i) qs2 w u
   \<and> runs_allowed E B (mcp_handler_middleware E B credsOf ro3 fn3) (mcp_request credsOf ro3) (\<lambda>i d. fn3 i) qs3 w u
   \<and> runs_allowed E B (grpc_unary_interceptor E K B credsOf toolOf ro4 fn4) (grpc_request K credsOf toolOf ro4) (\<lambda>i d. fn4 i) qs4 w u
   \<and> runs_allowed E B (http_middleware E B tool ro5 fn5) (web_authorize tool ro5) (\<lambda>i d. fn5 (with_identity d i)) qs5 w u"
  by (intro conjI rpc_gate.keeps func_gate.keeps langchain_gate.keeps mcp_handler_gate.keeps grpc_gate.keeps web_gate.keeps)

text \<open>
  A budget bounds what the tools behind an adapter do: on a Postgres store, after any operations
  of the broker, however many requests reach an HTTP handler behind the middleware, it is run at most
  \<^verbatim>\<open>max_calls\<close> times on a token and its delegates.
\<close>

theorem adapter_budget:
  assumes "br_Ops B = postgres_ops J" and "fresh_ids ps"
    and "broker_run E B ps ([], \<lparr>wd_Store = new_postgres t0, wd_Ledger = l\<rparr>) = (l0, w)"
    and "gate_run (http_middleware E B tool ro fn) qs (w, u) = (rs, w', u')"
    and "pg_get_token a (wd_Store w') = Inr t"
  shows "\<exists>cs. tool_run (\<lambda>i d. fn (with_identity d i)) cs u = (ran rs, u')
    \<and> int (length (filter (\<lambda>(i, d). a \<in> set (lineage (dc_Claims d))) cs)) \<le> max 0 (tr_MaxCalls t)"
proof -
  let ?ops = "List.map_filter (\<lambda>(now, i). map_option (\<lambda>q. (now, OpAuthorize q)) (web_authorize tool ro i)) qs"
  obtain cs where cs: "allowed_calls E B (web_authorize tool ro) qs w = (cs, w')"
      "tool_run (\<lambda>i d. fn (with_identity d i)) cs u = (ran rs, u')"
    using web_gate.run_allowed [OF assms(4)] by blast
  obtain l1 where l1: "broker_run E B ?ops ([], w) = (l1, w')"
      "count_log (call_under a) l1 = int (length (filter (\<lambda>(i, d). a \<in> set (lineage (dc_Claims d))) cs))"
    using allowed_calls_ops [OF cs(1)] by blast
  have "op_ids ?ops = []"
    by (auto simp: op_ids_def List.map_filter_def web_authorize_def comp_def split: option.splits)
  then have fresh: "fresh_ids (ps @ ?ops)" using assms(2) by (simp add: fresh_ids_def)
  have run: "broker_run E B (ps @ ?ops) ([], \<lparr>wd_Store = new_postgres t0, wd_Ledger = l\<rparr>) = (l0 @ l1, w')"
    using broker_run_log [of E B ?ops l0 w] assms(3) l1(1) by (simp add: broker_run_append)
  have "count_log (call_under a) (l0 @ l1) \<le> max 0 (tr_MaxCalls t)"
    using token_store.run_within_budget [OF pg.token_store_axioms new_postgres_accounted new_postgres_marked _ _ assms(1) fresh run]
      assms(5) by (simp add: new_postgres_view postgres_ops_def)
  then have "count_log (call_under a) l1 \<le> max 0 (tr_MaxCalls t)" by (simp add: count_log_def)
  with cs(2) l1(2) show ?thesis by auto
qed

definition ex_web :: "http_request \<Rightarrow> web_request" where
  "ex_web req = http_request.extend req \<lparr>wr_Query = []\<rparr>"

lemma ex_web [simp]: "hr_Header (ex_web req) = hr_Header req" "wr_Query (ex_web req) = []" "http_request.truncate (ex_web req) = req"
  by (simp_all add: ex_web_def http_request.defs)

text \<open>A tool that counts its calls.\<close>

definition ex_counter :: "(web_request, nat, nat) tool_fn" where
  "ex_counter req n = (n, Suc n)"

lemma ex_web_authorize:
  "web_authorize ''fs.read'' (Some (\<lambda>_. ''r/1'')) (ex_web req) = Some (pep_request req \<lparr>cl_Tool = ''fs.read'', cl_Resource = ''r/1'', cl_Args = []\<rparr>)"
  by (simp add: web_authorize_def gate_request_def web_creds_def or_star_def query_args_def List.map_filter_def pep_request_def)

theorem adapter_budget_witness:
  "\<exists>l0 w w' t. broker_run ex_env ex_pg_broker [(0, OpMint ''r1'' ex_mint)] ([], \<lparr>wd_Store = new_postgres 0, wd_Ledger = []\<rparr>) = (l0, w)
     \<and> gate_run (http_middleware ex_env ex_pg_broker ''fs.read'' (Some (\<lambda>_. ''r/1'')) ex_counter) [(second, ex_web ex_door)] (w, 0)
         = ([Ran 0], w', 1)
     \<and> pg_get_token ''r1'' (wd_Store w') = Inr t \<and> 1 \<le> tr_MaxCalls t"
proof -
  let ?w0 = "\<lparr>wd_Store = new_postgres 0, wd_Ledger = []\<rparr> :: postgres world"
  define w where "w = snd (mint_root ex_env 0 ex_pg_broker ''r1'' ex_mint ?w0)"
  have w: "wd_Store w = ex_pg_store" unfolding w_def by (rule ex_pg_minted)
  have run: "broker_run ex_env ex_pg_broker [(0, OpMint ''r1'' ex_mint)] ([], ?w0) = ([], w)"
    by (simp add: broker_step_def w_def)
  have call: "ex_call_read = \<lparr>cl_Tool = ''fs.read'', cl_Resource = ''r/1'', cl_Args = []\<rparr>" by code_simp
  obtain d w' where d: "authorize ex_env second ex_pg_broker (pep_request ex_door ex_call_read) w = (d, w')" by fastforce
  obtain d' s' where core: "authorize_core ex_env second ex_pg_broker (pep_request ex_door ex_call_read) ex_pg_store = (d', s')"
    by fastforce
  have "d = d'" "wd_Store w' = s'"
    using authorize_core_fst [of ex_env second ex_pg_broker "pep_request ex_door ex_call_read" w] d core w by simp_all
  then have dec: "dc_Allow d" "lineage (dc_Claims d) = [''r1'']"
      "pg_get_token ''r1'' (wd_Store w') = Inr (scan_tok (hd (pg_tokens ex_pg_store)))"
    using ex_pg_decision core by simp_all
  have gate: "gate_run (http_middleware ex_env ex_pg_broker ''fs.read'' (Some (\<lambda>_. ''r/1'')) ex_counter) [(second, ex_web ex_door)] (w, 0)
      = ([Ran 0], w', 1)"
    using web_gate.allowed [OF ex_web_authorize [of ex_door, folded call] d dec(1), of ex_counter 0] by (simp add: ex_counter_def)
  have t: "tr_MaxCalls (scan_tok (hd (pg_tokens ex_pg_store))) = 3" by code_simp
  have "fresh_ids [(0, OpMint ''r1'' ex_mint)]" by (simp add: fresh_ids_def)
  then have "\<exists>cs. tool_run (\<lambda>i d. ex_counter (with_identity d i)) cs 0 = (ran [Ran 0], 1)
    \<and> int (length (filter (\<lambda>(i, d). ''r1'' \<in> set (lineage (dc_Claims d))) cs)) \<le> max 0 3"
    using adapter_budget [OF _ _ run gate dec(3)] t by simp
  then show ?thesis using run gate dec(3) t by fastforce
qed

text \<open>
  \<^bold>\<open>C39.\<close> The adapters do not ask for a proof of possession: a token bound to a holder's key, presented
  with no proof, gets its call through the middleware whenever the broker allows it, while the PEP
  answers the very same request with 401 and forwards nothing.
\<close>

theorem adapters_skip_proof:
  assumes "authorize E now B q w = (d, w')" and "web_authorize tool ro req = Some q" and "dc_Allow d"
    and "cm_Cnf (dc_Claims d) \<noteq> None" and "hr_Header req ''X-Warrant-PoP'' = []"
    and "pe_Svc g = B" and "pep_call decode g (http_request.truncate req) = Some (au_Call q, url)"
  shows "fst (http_middleware E B tool ro fn now req (w, u)) = Ran (fst (fn (with_identity d req) u))
    \<and> fst (serve_pep E K decode up now g (http_request.truncate req) \<lparr>ps_World = w, ps_Replay = r\<rparr>)
      = (PepDeny 401 (PopFailed NoProof) (Some d), None)"
proof -
  have req: "hr_Header (http_request.truncate req) = hr_Header req"
    by (simp add: http_request.defs)
  have "q = pep_request (http_request.truncate req) (au_Call q)"
    using assms(2) by (auto simp: web_authorize_def gate_request_def web_creds_def pep_request_def req)
  then have "authorize E now (pe_Svc g) (pep_request (http_request.truncate req) (au_Call q)) w = (d, w')"
    using assms(1,6) by simp
  note pep = serve_pep_some [OF assms(7), where st = "\<lparr>ps_World = w, ps_Replay = r\<rparr>", simplified, OF this, where K = K and up = up]
  have "pep_check_pop E K now g (http_request.truncate req) (dc_Claims d) r = (Some NoProof, r)"
    using assms(5) by (simp add: pep_check_pop_def check_pop_def req)
  with pep assms(3,4) web_gate.allowed [OF assms(2,1,3), of fn u] show ?thesis
    by (auto simp: pop_step_def)
qed

theorem adapters_skip_proof_witness:
  "fst (http_middleware ex_held_env ex_broker ''fs.read'' (Some (\<lambda>_. ''r/1'')) ex_counter 0 (ex_web (ex_http [])) (ex_held_world, 7)) = Ran 7
   \<and> (\<exists>d. fst (serve_pep ex_held_env ex_held_codec ex_decode ex_up 0 ex_pep (ex_http []) \<lparr>ps_World = ex_held_world, ps_Replay = new_replay\<rparr>)
      = (PepDeny 401 (PopFailed NoProof) (Some d), None))"
proof -
  obtain d w' where d: "authorize ex_held_env 0 ex_broker (pep_request (ex_http []) ex_held_attempt) ex_held_world = (d, w')" by fastforce
  then have dec: "dc_Allow d" "cm_Cnf (dc_Claims d) \<noteq> None"
    using ex_held_decision [of "[]"] by (auto simp: Let_def)
  have q: "au_Call (pep_request (ex_http []) ex_held_attempt) = ex_held_attempt" by (simp add: pep_request_def)
  have "hr_Header (ex_web (ex_http [])) ''X-Warrant-PoP'' = []" "pe_Svc ex_pep = ex_broker"
    by (simp_all add: ex_http_def ex_pep_def new_pep_def)
  from adapters_skip_proof [OF d ex_web_authorize dec this, of ex_decode "''http://fs''" ex_counter 7 ex_held_codec ex_up new_replay]
  show ?thesis by (auto simp: q ex_held_call ex_counter_def)
qed

end
