(* ===== verification/Sdk_Go.thy ===== *)
theory Sdk_Go
  imports Warrant_System
begin

section \<open>The Go client library (\<^verbatim>\<open>sdk/go/warrant\<close>)\<close>

text \<open>
  An \<open>agent\<close> is the client of one workload: its identity, its current token and the approvals it
  holds. The HTTP client is an argument, a function of the request it sends and of the state of the
  servers behind it; \<^verbatim>\<open>encoding/json\<close> on the messages is the record \<open>sdk_codec\<close>. At the end the
  client is put in front of the PEP of this development.
\<close>

subsection \<open>Requests\<close>

text \<open>The bodies the client sends; those of the broker's own requests are its request types.\<close>

datatype sdk_body =
    SbIdentity string string string
  | SbMint mint_request
  | SbDelegate delegate_request
  | SbCall string "any gomap"
  | SbWorkload string string
  | SbApproval approve_request
  | SbRevoke string
  | SbNone

record sdk_request =
  sq_Method :: string
  sq_URL :: string
  sq_Header :: "string gomap"
  sq_Body :: string

record issued_token =
  it_Token :: string
  it_ID :: string
  it_Subject :: string
  it_Expires :: int
  it_Depth :: int
  it_MaxCalls :: int
  it_Scopes :: "scope list"

text \<open>
  \<open>sd_error\<close> is the field \<^verbatim>\<open>error\<close> of a body, empty when the body does not decode; \<open>sd_url\<close> is the
  check of \<^verbatim>\<open>url.Parse\<close>.
\<close>

record sdk_codec =
  sd_url :: "string \<Rightarrow> bool"
  sd_body :: "sdk_body \<Rightarrow> string"
  sd_error :: "string \<Rightarrow> string"
  sd_identity :: "string \<Rightarrow> (string \<times> string) option"
  sd_issued :: "string \<Rightarrow> issued_token option"
  sd_approval :: "string \<Rightarrow> string option"
  sd_report :: "string \<Rightarrow> any gomap option"

datatype sdk_err = SdkURL | SdkTransport | SdkStatus int string | SdkDecode | SdkInput

text \<open>\<^verbatim>\<open>Denied\<close>: an authorization denial.\<close>

fun denied_err :: "sdk_err \<Rightarrow> bool" where
  "denied_err (SdkStatus code msg) = (code = 401 \<or> code = 403)"
| "denied_err _ = False"

record agent =
  sa_BrokerURL :: string
  sa_PEPURL :: string
  sa_SVID :: string
  sa_SpiffeID :: string
  sa_Token :: string
  sa_TokenID :: string
  sa_approvals :: "string gomap"

definition new_agent :: "string \<Rightarrow> string \<Rightarrow> agent" where
  "new_agent brokerURL pepURL =
     \<lparr>sa_BrokerURL = brokerURL, sa_PEPURL = pepURL, sa_SVID = [], sa_SpiffeID = [], sa_Token = [], sa_TokenID = [],
      sa_approvals = []\<rparr>"

text \<open>An answer is a status and a body, \<^const>\<open>None\<close> when the transport fails. \<open>out\<close> decodes the body.\<close>

type_synonym 'w transport = "sdk_request \<Rightarrow> 'w \<Rightarrow> (int \<times> string) option \<times> 'w"

definition post ::
    "sdk_codec \<Rightarrow> 'w transport \<Rightarrow> string \<Rightarrow> string gomap \<Rightarrow> sdk_body \<Rightarrow> (string \<Rightarrow> 'o option) \<Rightarrow> 'w \<Rightarrow> (sdk_err + 'o) \<times> 'w" where
  "post K net url hdr inp out w =
     (if \<not> sd_url K url then (Inl SdkURL, w)
      else
        let q = \<lparr>sq_Method = ''POST'', sq_URL = url,
                 sq_Header = (''Content-Type'', ''application/json'') # filter (\<lambda>(k, v). v \<noteq> []) hdr,
                 sq_Body = sd_body K inp\<rparr> in
        (case net q w of
           (None, w') \<Rightarrow> (Inl SdkTransport, w')
         | (Some (status, body), w') \<Rightarrow>
             (if status div 100 \<noteq> 2 then
                Inl (SdkStatus status (if sd_error K body = [] then body else sd_error K body))
              else (case out body of None \<Rightarrow> Inl SdkDecode | Some x \<Rightarrow> Inr x), w')))"

text \<open>A call of \<^verbatim>\<open>post\<close> with nil for the result leaves the body alone.\<close>

definition no_result :: "string \<Rightarrow> unit option" where
  "no_result body = Some ()"

definition bearer_header :: "string \<Rightarrow> string \<times> string" where
  "bearer_header tok = (''Authorization'', ''Bearer '' @ tok)"

subsection \<open>The agent's operations\<close>

definition attest ::
    "sdk_codec \<Rightarrow> 'w transport \<Rightarrow> string \<Rightarrow> string \<Rightarrow> string \<Rightarrow> agent \<Rightarrow> 'w \<Rightarrow> sdk_err option \<times> agent \<times> 'w" where
  "attest K net workload secret inst a w =
     (case post K net (sa_BrokerURL a @ ''/v1/identity'') [] (SbIdentity workload secret inst) (sd_identity K) w of
        (Inl e, w') \<Rightarrow> (Some e, a, w')
      | (Inr (svid, spiffe), w') \<Rightarrow> (None, a\<lparr>sa_SVID := svid, sa_SpiffeID := spiffe\<rparr>, w'))"

text \<open>\<open>ttl\<close> is in whole seconds, as in the request.\<close>

definition sdk_mint_root ::
    "sdk_codec \<Rightarrow> 'w transport \<Rightarrow> string \<Rightarrow> string \<Rightarrow> scope list \<Rightarrow> int \<Rightarrow> int \<Rightarrow> agent \<Rightarrow> 'w
       \<Rightarrow> (sdk_err + issued_token) \<times> agent \<times> 'w" where
  "sdk_mint_root K net adminToken human scopes ttl maxCalls a w =
     (case post K net (sa_BrokerURL a @ ''/v1/tokens'') [bearer_header adminToken]
         (SbMint \<lparr>mr_SVID = sa_SVID a, mr_Human = human, mr_Scopes = scopes, mr_TTL = ttl, mr_MaxCalls = maxCalls,
            mr_MaxDepth = 0, mr_GoalID = [], mr_Cnf = None\<rparr>) (sd_issued K) w of
        (Inl e, w') \<Rightarrow> (Inl e, a, w')
      | (Inr i, w') \<Rightarrow> (Inr i, a\<lparr>sa_Token := it_Token i, sa_TokenID := it_ID i\<rparr>, w'))"

text \<open>The child is another agent, which gets the token.\<close>

definition sdk_delegate ::
    "sdk_codec \<Rightarrow> 'w transport \<Rightarrow> scope list \<Rightarrow> int \<Rightarrow> int \<Rightarrow> agent \<Rightarrow> agent \<Rightarrow> 'w \<Rightarrow> (sdk_err + issued_token) \<times> agent \<times> 'w" where
  "sdk_delegate K net scopes ttl maxCalls a child w =
     (case post K net (sa_BrokerURL a @ ''/v1/tokens/delegate'') []
         (SbDelegate \<lparr>dr_ParentToken = sa_Token a, dr_ParentSVID = sa_SVID a, dr_ChildSVID = sa_SVID child, dr_Scopes = scopes,
            dr_TTL = ttl, dr_MaxCalls = maxCalls, dr_MaxDepth = 0, dr_GoalID = [], dr_Cnf = None\<rparr>) (sd_issued K) w of
        (Inl e, w') \<Rightarrow> (Inl e, child, w')
      | (Inr i, w') \<Rightarrow> (Inr i, child\<lparr>sa_Token := it_Token i, sa_TokenID := it_ID i\<rparr>, w'))"

definition use_approval :: "string \<Rightarrow> string \<Rightarrow> agent \<Rightarrow> agent" where
  "use_approval tool approval a = a\<lparr>sa_approvals := AList.update tool approval (sa_approvals a)\<rparr>"

definition sdk_call ::
    "sdk_codec \<Rightarrow> 'w transport \<Rightarrow> string \<Rightarrow> string \<Rightarrow> any gomap \<Rightarrow> (string \<Rightarrow> 'o option) \<Rightarrow> agent \<Rightarrow> 'w
       \<Rightarrow> (sdk_err + 'o) \<times> agent \<times> 'w" where
  "sdk_call K net tool resource arguments out a w =
     (let hdr = [bearer_header (sa_Token a), (''X-Warrant-SVID'', sa_SVID a),
                 (''X-Warrant-Approval'', case lookup (sa_approvals a) tool of None \<Rightarrow> [] | Some v \<Rightarrow> v)];
          a' = a\<lparr>sa_approvals := AList.delete tool (sa_approvals a)\<rparr>;
          (r, w') = post K net (sa_PEPURL a @ ''/call/'' @ tool) hdr (SbCall resource arguments) out w
      in (r, a', w'))"

text \<open>\<open>to_args\<close> is the round trip of the input through JSON into a map, \<^const>\<open>None\<close> when it is not an object.\<close>

definition wrap_tool ::
    "sdk_codec \<Rightarrow> 'w transport \<Rightarrow> ('i \<Rightarrow> any gomap option) \<Rightarrow> string \<Rightarrow> ('i \<Rightarrow> string) \<Rightarrow> (string \<Rightarrow> 'o option) \<Rightarrow> 'i \<Rightarrow> agent \<Rightarrow> 'w
       \<Rightarrow> (sdk_err + 'o) \<times> agent \<times> 'w" where
  "wrap_tool K net to_args tool resourceOf out inp a w =
     (case to_args inp of
        None \<Rightarrow> (Inl SdkInput, a, w)
      | Some arguments \<Rightarrow> sdk_call K net tool (resourceOf inp) arguments out a w)"

subsection \<open>The operator's client\<close>

record sdk_admin =
  sm_agent :: agent
  sm_Token :: string

definition new_admin :: "string \<Rightarrow> string \<Rightarrow> sdk_admin" where
  "new_admin brokerURL adminToken = \<lparr>sm_agent = new_agent brokerURL [], sm_Token = adminToken\<rparr>"

definition admin_hdr :: "sdk_admin \<Rightarrow> string gomap" where
  "admin_hdr ad = [bearer_header (sm_Token ad)]"

definition sdk_register_workload ::
    "sdk_codec \<Rightarrow> 'w transport \<Rightarrow> sdk_admin \<Rightarrow> string \<Rightarrow> string \<Rightarrow> 'w \<Rightarrow> (sdk_err + unit) \<times> 'w" where
  "sdk_register_workload K net ad name secret w =
     post K net (sa_BrokerURL (sm_agent ad) @ ''/v1/workloads'') (admin_hdr ad) (SbWorkload name secret) no_result w"

definition sdk_approve ::
    "sdk_codec \<Rightarrow> 'w transport \<Rightarrow> sdk_admin \<Rightarrow> string \<Rightarrow> string \<Rightarrow> call \<Rightarrow> 'w \<Rightarrow> (sdk_err + string) \<times> 'w" where
  "sdk_approve K net ad tokenID approver a w =
     post K net (sa_BrokerURL (sm_agent ad) @ ''/v1/approvals'') (admin_hdr ad)
       (SbApproval \<lparr>ar_TokenID = tokenID, ar_Call = a, ar_Approver = approver, ar_TTL = 0\<rparr>) (sd_approval K) w"

definition sdk_revoke ::
    "sdk_codec \<Rightarrow> 'w transport \<Rightarrow> sdk_admin \<Rightarrow> string \<Rightarrow> string \<Rightarrow> 'w \<Rightarrow> (sdk_err + unit) \<times> 'w" where
  "sdk_revoke K net ad tokenID why w =
     post K net (sa_BrokerURL (sm_agent ad) @ ''/v1/tokens/'' @ tokenID @ ''/revoke'') (admin_hdr ad) (SbRevoke why) no_result w"

definition sdk_blast_radius ::
    "sdk_codec \<Rightarrow> 'w transport \<Rightarrow> sdk_admin \<Rightarrow> string \<Rightarrow> 'w \<Rightarrow> (sdk_err + any gomap) \<times> 'w" where
  "sdk_blast_radius K net ad tokenID w =
     (let url = sa_BrokerURL (sm_agent ad) @ ''/v1/tokens/'' @ tokenID @ ''/blast-radius'' in
      if \<not> sd_url K url then (Inl SdkURL, w)
      else
        (case net \<lparr>sq_Method = ''GET'', sq_URL = url, sq_Header = [bearer_header (sm_Token ad)], sq_Body = []\<rparr> w of
           (None, w') \<Rightarrow> (Inl SdkTransport, w')
         | (Some (status, body), w') \<Rightarrow>
             (if status \<noteq> 200 then Inl (SdkStatus status ''blast-radius'')
              else (case sd_report K body of None \<Rightarrow> Inl SdkDecode | Some m \<Rightarrow> Inr m), w')))"

subsection \<open>In front of the PEP\<close>

text \<open>
  The path of a URL as \<^verbatim>\<open>net/url\<close> parses it: what comes before a query or a fragment, with the escapes
  decoded; \<^const>\<open>None\<close> for a bad escape.
\<close>

definition hex_value :: "char \<Rightarrow> nat option" where
  "hex_value c = position ''0123456789abcdef'' (lower_char c)"

fun unescape_path :: "string \<Rightarrow> string option" where
  "unescape_path [] = Some []"
| "unescape_path (c # s) =
     (if c \<noteq> CHR ''%'' then map_option ((#) c) (unescape_path s)
      else
        (case s of
           x # y # s' \<Rightarrow>
             (case (hex_value x, hex_value y) of
                (Some i, Some j) \<Rightarrow> map_option ((#) (char_of (16 * i + j))) (unescape_path s')
              | _ \<Rightarrow> None)
         | _ \<Rightarrow> None))"

definition url_path :: "string \<Rightarrow> string option" where
  "url_path s = unescape_path (takeWhile (\<lambda>c. c \<noteq> CHR ''?'' \<and> c \<noteq> CHR ''#'') s)"

text \<open>
  The PEP behind its base URL; its state comes with what it has sent to the tools. \<open>body_of\<close> writes
  the body of a denial.
\<close>

definition pep_transport ::
    "'z broker_env_scheme \<Rightarrow> pop_codec \<Rightarrow> (string \<Rightarrow> (string \<times> any gomap) option) \<Rightarrow> (forwarded \<Rightarrow> upstream_result) \<Rightarrow>
       (pep_reason \<Rightarrow> decision option \<Rightarrow> string) \<Rightarrow> time \<Rightarrow> ('s, 'r) pep \<Rightarrow> string
       \<Rightarrow> (('s, 'r) pep_state \<times> forwarded list) transport" where
  "pep_transport E P decode up body_of now g base q st =
     (case (if has_prefix (sq_URL q) base then url_path (drop (length base) (sq_URL q)) else None) of
        None \<Rightarrow> (None, st)
      | Some path \<Rightarrow>
          (case serve_pep E P decode up now g
              \<lparr>hr_Method = sq_Method q, hr_Path = path,
               hr_Header = (\<lambda>h. case lookup (sq_Header q) h of None \<Rightarrow> [] | Some v \<Rightarrow> v), hr_Body = sq_Body q\<rparr> (fst st) of
             ((reply, f), s') \<Rightarrow>
               (Some (case reply of PepDeny code why d \<Rightarrow> (code, body_of why d) | PepReply code ct body \<Rightarrow> (code, body)),
                s', snd st @ (case f of None \<Rightarrow> [] | Some x \<Rightarrow> [x]))))"

text \<open>A name that a URL carries as it is.\<close>

definition plain_name :: "string \<Rightarrow> bool" where
  "plain_name t \<longleftrightarrow> list_all (\<lambda>c. c \<notin> {CHR ''%'', CHR ''?'', CHR ''#''}) t"

lemma unescape_plain: "plain_name t \<Longrightarrow> unescape_path t = Some t"
  by (induction t) (auto simp: plain_name_def)

lemma url_path_plain: "plain_name t \<Longrightarrow> url_path t = Some t"
proof -
  assume t: "plain_name t"
  then have "takeWhile (\<lambda>c. c \<noteq> CHR ''?'' \<and> c \<noteq> CHR ''#'') t = t"
    by (auto simp: plain_name_def list_all_iff takeWhile_eq_all_conv)
  then show ?thesis unfolding url_path_def using unescape_plain [OF t] by (simp only:)
qed

lemma url_path_query: "plain_name t \<Longrightarrow> url_path (t @ CHR ''?'' # s) = Some t"
proof -
  assume t: "plain_name t"
  then have "takeWhile (\<lambda>c. c \<noteq> CHR ''?'' \<and> c \<noteq> CHR ''#'') (t @ CHR ''?'' # s) = t"
    by (auto simp: plain_name_def list_all_iff takeWhile_append)
  then show ?thesis unfolding url_path_def using unescape_plain [OF t] by (simp only:)
qed

lemma plain_call: "plain_name tool \<Longrightarrow> plain_name (''/call/'' @ tool)"
  by (simp add: plain_name_def)

text \<open>The authorization a call of the agent amounts to.\<close>

definition agent_request :: "agent \<Rightarrow> string \<Rightarrow> string \<Rightarrow> any gomap \<Rightarrow> authorize_request" where
  "agent_request a tool resource arguments =
     \<lparr>au_Token = sa_Token a, au_SVID = sa_SVID a,
      au_Approval = (case lookup (sa_approvals a) tool of None \<Rightarrow> [] | Some v \<Rightarrow> v),
      au_Call = \<lparr>cl_Tool = tool, cl_Resource = resource, cl_Args = arguments\<rparr>\<rparr>"

definition agent_http :: "sdk_codec \<Rightarrow> agent \<Rightarrow> string \<Rightarrow> string \<Rightarrow> any gomap \<Rightarrow> http_request" where
  "agent_http K a tool resource arguments =
     \<lparr>hr_Method = ''POST'', hr_Path = ''/call/'' @ tool,
      hr_Header = (\<lambda>h. case lookup ((''Content-Type'', ''application/json'') # filter (\<lambda>(k, v). v \<noteq> [])
        [bearer_header (sa_Token a), (''X-Warrant-SVID'', sa_SVID a),
         (''X-Warrant-Approval'', case lookup (sa_approvals a) tool of None \<Rightarrow> [] | Some v \<Rightarrow> v)]) h of None \<Rightarrow> [] | Some v \<Rightarrow> v),
      hr_Body = sd_body K (SbCall resource arguments)\<rparr>"

lemma agent_http_header [simp]:
  "hr_Header (agent_http K a tool resource arguments) ''Authorization'' = ''Bearer '' @ sa_Token a"
  "hr_Header (agent_http K a tool resource arguments) ''X-Warrant-SVID'' = sa_SVID a"
  "hr_Header (agent_http K a tool resource arguments) ''X-Warrant-Approval''
     = (case lookup (sa_approvals a) tool of None \<Rightarrow> [] | Some v \<Rightarrow> v)"
  "hr_Header (agent_http K a tool resource arguments) ''X-Warrant-PoP'' = []"
  by (auto simp: agent_http_def bearer_header_def)

lemma pep_request_agent:
  "pep_request (agent_http K a tool resource arguments) \<lparr>cl_Tool = tool, cl_Resource = resource, cl_Args = arguments\<rparr>
     = agent_request a tool resource arguments"
  using trim_prefix_append [of "''Bearer ''"] by (simp add: pep_request_def agent_request_def)

lemma sdk_call_served:
  assumes "sd_url K (sa_PEPURL a @ ''/call/'' @ tool)" and "url_path (''/call/'' @ tool) = Some (''/call/'' @ t)"
    and "lookup (sa_approvals a) t = lookup (sa_approvals a) tool"
    and "serve_pep E P decode up now g (agent_http K a t resource arguments) st = ((reply, f), st')"
  shows "sdk_call K (pep_transport E P decode up body_of now g (sa_PEPURL a)) tool resource arguments out a (st, sent) =
    (case (case reply of PepDeny code why d \<Rightarrow> (code, body_of why d) | PepReply code ct body \<Rightarrow> (code, body)) of
       (status, body) \<Rightarrow>
         if status div 100 \<noteq> 2 then Inl (SdkStatus status (if sd_error K body = [] then body else sd_error K body))
         else (case out body of None \<Rightarrow> Inl SdkDecode | Some x \<Rightarrow> Inr x),
     a\<lparr>sa_approvals := AList.delete tool (sa_approvals a)\<rparr>, st', sent @ (case f of None \<Rightarrow> [] | Some x \<Rightarrow> [x]))"
proof -
  define q where "q = \<lparr>sq_Method = ''POST'', sq_URL = sa_PEPURL a @ ''/call/'' @ tool,
     sq_Header = (''Content-Type'', ''application/json'') # filter (\<lambda>(k, v). v \<noteq> [])
       [bearer_header (sa_Token a), (''X-Warrant-SVID'', sa_SVID a),
        (''X-Warrant-Approval'', case lookup (sa_approvals a) tool of None \<Rightarrow> [] | Some v \<Rightarrow> v)],
     sq_Body = sd_body K (SbCall resource arguments)\<rparr>"
  have q: "has_prefix (sq_URL q) (sa_PEPURL a)" "drop (length (sa_PEPURL a)) (sq_URL q) = ''/call/'' @ tool"
    by (simp_all add: q_def)
  have "\<lparr>hr_Method = sq_Method q, hr_Path = ''/call/'' @ t,
      hr_Header = (\<lambda>h. case lookup (sq_Header q) h of None \<Rightarrow> [] | Some v \<Rightarrow> v), hr_Body = sq_Body q\<rparr>
    = agent_http K a t resource arguments"
    unfolding agent_http_def assms(3) by (simp only: q_def sdk_request.simps)
  then have net: "pep_transport E P decode up body_of now g (sa_PEPURL a) q (st, sent) =
    (Some (case reply of PepDeny code why d \<Rightarrow> (code, body_of why d) | PepReply code ct body \<Rightarrow> (code, body)), st',
     sent @ (case f of None \<Rightarrow> [] | Some x \<Rightarrow> [x]))"
    using q assms(2,4) by (simp add: pep_transport_def)
  then show ?thesis
    using assms(1) unfolding sdk_call_def post_def Let_def q_def [symmetric] by (simp split: prod.splits)
qed

subsection \<open>Properties\<close>


definition ex_sdk_codec :: sdk_codec where
  "ex_sdk_codec =
     \<lparr>sd_url = (\<lambda>_. True), sd_body = (\<lambda>b. case b of SbCall r m \<Rightarrow> r | _ \<Rightarrow> []), sd_error = (\<lambda>_. []), sd_identity = (\<lambda>_. None),
      sd_issued = (\<lambda>_. None), sd_approval = Some, sd_report = (\<lambda>_. None)\<rparr>"

definition ex_agent :: agent where
  "ex_agent = (new_agent ''http://broker'' ''http://pep'')\<lparr>sa_SVID := ex_token ex_svid_a, sa_Token := ex_token ex_root_claims\<rparr>"

definition ex_sdk_net :: "((postgres, time gomap) pep_state \<times> forwarded list) transport" where
  "ex_sdk_net = pep_transport ex_env ex_held_codec ex_decode ex_up (\<lambda>_ _. []) second (sy_Pep ex_system) ''http://pep''"

definition ex_sdk_world :: "(postgres, time gomap) pep_state" where
  "ex_sdk_world = \<lparr>ps_World = \<lparr>wd_Store = ex_pg_store, wd_Ledger = []\<rparr>, ps_Replay = new_replay\<rparr>"


text \<open>
  The client does not escape the name of the tool: a call of a tool whose name has a question mark is
  a call of the tool whose name stops there. The PEP authorizes, charges and forwards that one, and the
  client returns its answer.
\<close>

theorem sdk_tool_not_escaped:
  assumes "plain_name t" and "\<And>u. sd_url K u" and "sa_approvals a = []"
  shows "sdk_call K (pep_transport E P decode up body_of now g (sa_PEPURL a)) (t @ CHR ''?'' # s) resource arguments out a st
    = sdk_call K (pep_transport E P decode up body_of now g (sa_PEPURL a)) t resource arguments out a st"
proof -
  obtain st0 sent where st: "st = (st0, sent)" by fastforce
  obtain reply f s1 where s1: "serve_pep E P decode up now g (agent_http K a t resource arguments) st0 = ((reply, f), s1)"
    by (metis prod.exhaust)
  have path: "url_path (''/call/'' @ t @ CHR ''?'' # s) = Some (''/call/'' @ t)" "url_path (''/call/'' @ t) = Some (''/call/'' @ t)"
    using url_path_query [OF plain_call [OF assms(1)], of s] url_path_plain [OF plain_call [OF assms(1)]] by simp_all
  have none: "lookup (sa_approvals a) x = lookup (sa_approvals a) y" for x y
    by (simp add: assms(3))
  have gone: "AList.delete x (sa_approvals a) = sa_approvals a" for x
    by (simp add: assms(3))
  show ?thesis
    unfolding st sdk_call_served [OF assms(2) path(1) none s1] sdk_call_served [OF assms(2) path(2) none s1] gone by (rule refl)
qed

theorem sdk_tool_not_escaped_witness:
  "sdk_call ex_sdk_codec ex_sdk_net ''fs.read?all'' ''r/1'' [] Some ex_agent (ex_sdk_world, [])
    = sdk_call ex_sdk_codec ex_sdk_net ''fs.read'' ''r/1'' [] Some ex_agent (ex_sdk_world, [])"
proof -
  have "plain_name ''fs.read''" by code_simp
  moreover have "sd_url ex_sdk_codec u" "sa_approvals ex_agent = []" "sa_PEPURL ex_agent = ''http://pep''" for u
    by (simp_all add: ex_sdk_codec_def ex_agent_def new_agent_def)
  ultimately show ?thesis
    using sdk_tool_not_escaped [of "''fs.read''" ex_sdk_codec ex_agent ex_env ex_held_codec ex_decode ex_up "\<lambda>_ _. []" second
        "sy_Pep ex_system" "''all''" "''r/1''" "[]" Some "(ex_sdk_world, [])"]
    by (simp add: ex_sdk_net_def)
qed

end
